(* ===== verification/Slingshot_Prelude.thy ===== *)
theory Slingshot_Prelude
  imports Main "HOL-Library.Word"
begin

text \<open>
  Shared vocabulary of the development.  Machine integers of the Rust source are words of
  their width, so that \<open>+\<close> wraps as it does in a release build; a length of an in-memory
  buffer (\<open>usize\<close>) is a \<open>nat\<close>.  A fallible function returns a sum, \<open>Inl\<close> holding the
  error; a method with a mutable receiver that can fail returns the new receiver beside the
  sum, because several receivers of this program record their own failure.  The theory also
  holds the two contracts that many components share: a machine whose every accepted step
  keeps an invariant, and a decoder that refuses everything after its first refusal.
\<close>

section \<open>Integers, results and methods\<close>

type_synonym byte = "8 word"
type_synonym u16 = "16 word"
type_synonym u32 = "32 word"
type_synonym u64 = "64 word"

type_synonym ('s, 'e, 'a) receiver = "'s \<Rightarrow> 's \<times> ('e + 'a)"

named_theorems result_simps
named_theorems arith_ops

definition is_ok :: "'e + 'a \<Rightarrow> bool" where
  "is_ok r = (case r of Inl _ \<Rightarrow> False | Inr _ \<Rightarrow> True)"

lemma is_ok_simps [simp]: "\<not> is_ok (Inl e)" "is_ok (Inr a)"
  by (simp_all add: is_ok_def)

lemma is_ok_iff: "is_ok r \<longleftrightarrow> (\<exists>a. r = Inr a)"
  by (cases r) auto

definition bindE :: "'e + 'a \<Rightarrow> ('a \<Rightarrow> 'e + 'b) \<Rightarrow> 'e + 'b" where
  "bindE m f = (case m of Inl e \<Rightarrow> Inl e | Inr a \<Rightarrow> f a)"

lemma bindE_simps [simp]: "bindE (Inl e) f = Inl e" "bindE (Inr a) f = f a"
  by (simp_all add: bindE_def)

lemma bindE_eq_Inr [result_simps]: "bindE m f = Inr b \<longleftrightarrow> (\<exists>a. m = Inr a \<and> f a = Inr b)"
  by (cases m) auto

lemma bindE_eq_Inl [result_simps]:
  "bindE m f = Inl e \<longleftrightarrow> m = Inl e \<or> (\<exists>a. m = Inr a \<and> f a = Inl e)"
  by (cases m) auto

text \<open>Rust's \<open>checked_add\<close>, \<open>checked_sub\<close>, \<open>checked_mul\<close>, \<open>saturating_sub\<close> and
  \<open>saturating_add\<close>, at any width.\<close>

definition checked_add :: "'a::len word \<Rightarrow> 'a word \<Rightarrow> 'a word option" where
  "checked_add a b = (if unat a + unat b < 2 ^ LENGTH('a) then Some (a + b) else None)"

definition checked_sub :: "'a::len word \<Rightarrow> 'a word \<Rightarrow> 'a word option" where
  "checked_sub a b = (if b \<le> a then Some (a - b) else None)"

definition checked_mul :: "'a::len word \<Rightarrow> 'a word \<Rightarrow> 'a word option" where
  "checked_mul a b = (if unat a * unat b < 2 ^ LENGTH('a) then Some (a * b) else None)"

definition saturating_sub :: "'a::len word \<Rightarrow> 'a word \<Rightarrow> 'a word" where
  "saturating_sub a b = (if b \<le> a then a - b else 0)"

definition saturating_add :: "'a::len word \<Rightarrow> 'a word \<Rightarrow> 'a word" where
  "saturating_add a b = (if unat a + unat b < 2 ^ LENGTH('a) then a + b else - 1)"

lemma checked_add_Some [arith_ops]:
  "checked_add a b = Some c \<Longrightarrow> unat c = unat a + unat b"
  by (auto simp: checked_add_def unat_word_ariths split: if_splits)

lemma checked_add_Some_iff:
  "checked_add (a::'a::len word) b = Some c \<longleftrightarrow> unat c = unat a + unat b"
proof
  assume h: "unat c = unat a + unat b"
  moreover have "unat c < 2 ^ LENGTH('a)" by (rule unsigned_less)
  ultimately have "unat a + unat b < 2 ^ LENGTH('a)" by (simp only:)
  then show "checked_add a b = Some c"
    using h by (simp add: checked_add_def word_unat_eq_iff unat_word_ariths)
qed (rule checked_add_Some)

lemma checked_mul_Some [arith_ops]:
  "checked_mul a b = Some c \<Longrightarrow> unat c = unat a * unat b"
  by (auto simp: checked_mul_def unat_word_ariths split: if_splits)

lemma checked_sub_Some [arith_ops]:
  "checked_sub a b = Some c \<Longrightarrow> unat a = unat c + unat b"
  by (auto simp: checked_sub_def unat_sub word_le_nat_alt split: if_splits)

lemma unat_saturating_sub [simp]: "unat (saturating_sub a b) = unat a - unat b"
  by (auto simp: saturating_sub_def unat_sub word_le_nat_alt)

lemma unat_saturating_add:
  "unat (saturating_add (a::'a::len word) b) = min (unat a + unat b) (2 ^ LENGTH('a) - 1)"
  by (auto simp: saturating_add_def unat_word_ariths unsigned_minus_1_eq_mask mask_eq_exp_minus_1)

lemma saturating_add_one_eq:
  "s = saturating_add (a::'a::len word) 1 \<Longrightarrow> a < s \<Longrightarrow> unat s = Suc (unat a)"
  using unsigned_less [of s, where 'a = nat] unsigned_less [of a, where 'a = nat]
  by (auto simp: saturating_add_def unat_word_ariths word_less_nat_alt
      unsigned_minus_1_eq_mask mask_eq_exp_minus_1 split: if_splits)

lemma word_plus_one_neq [simp]: "(w::u64) + 1 \<noteq> w" "w \<noteq> (w::u64) + 1"
  by simp_all

section \<open>Runs of a fallible machine\<close>

text \<open>A caller applies inputs one after another and stops at the first refusal.\<close>

fun runE :: "('s \<Rightarrow> 'i \<Rightarrow> 'e + 's) \<Rightarrow> 's \<Rightarrow> 'i list \<Rightarrow> 'e + 's" where
  "runE step s [] = Inr s"
| "runE step s (i # is) = bindE (step s i) (\<lambda>s'. runE step s' is)"

lemma runE_append: "runE step s (xs @ ys) = bindE (runE step s xs) (\<lambda>s'. runE step s' ys)"
proof (induction xs arbitrary: s)
  case (Cons x xs)
  then show ?case by (cases "step s x") simp_all
qed simp

text \<open>A recorder offers inputs one after another and keeps what it holds when one is refused.\<close>

definition offerE :: "('s \<Rightarrow> 'i \<Rightarrow> 'e + 's) \<Rightarrow> 's \<Rightarrow> 'i \<Rightarrow> 's" where
  "offerE step s i = (case step s i of Inl _ \<Rightarrow> s | Inr s' \<Rightarrow> s')"

abbreviation history :: "('s \<Rightarrow> 'i \<Rightarrow> 'e + 's) \<Rightarrow> 's \<Rightarrow> 'i list \<Rightarrow> 's" where
  "history step \<equiv> foldl (offerE step)"

text \<open>The contract of a machine whose accepted steps keep an invariant and move along a
  preorder.  What it promises of one step it promises of every run.\<close>

locale guarded_machine =
  fixes step :: "'s \<Rightarrow> 'i \<Rightarrow> 'e + 's"
    and inv :: "'s \<Rightarrow> bool"
    and upto :: "'s \<Rightarrow> 's \<Rightarrow> bool"
  assumes step_inv: "inv s \<Longrightarrow> step s i = Inr s' \<Longrightarrow> inv s'"
    and step_upto: "inv s \<Longrightarrow> step s i = Inr s' \<Longrightarrow> upto s s'"
    and upto_refl: "upto s s"
    and upto_trans: "upto s t \<Longrightarrow> upto t u \<Longrightarrow> upto s u"
begin

lemma run_keeps:
  "inv s \<Longrightarrow> runE step s is = Inr s' \<Longrightarrow> inv s' \<and> upto s s'"
proof (induction "is" arbitrary: s)
  case Nil
  then show ?case by (simp add: upto_refl)
next
  case (Cons i "is")
  then obtain t where t: "step s i = Inr t" and r: "runE step t is = Inr s'"
    by (auto simp: bindE_eq_Inr)
  have "inv t" and st: "upto s t"
    using Cons.prems(1) t by (auto intro: step_inv step_upto)
  then have "inv s' \<and> upto t s'" using r Cons.IH by blast
  then show ?case using st by (blast intro: upto_trans)
qed

lemma run_inv: "inv s \<Longrightarrow> runE step s is = Inr s' \<Longrightarrow> inv s'"
  using run_keeps by blast

lemma run_upto: "inv s \<Longrightarrow> runE step s is = Inr s' \<Longrightarrow> upto s s'"
  using run_keeps by blast

lemma offer_keeps: "inv s \<Longrightarrow> inv (offerE step s i) \<and> upto s (offerE step s i)"
  by (auto simp: offerE_def upto_refl intro: step_inv step_upto split: sum.split)

lemma history_keeps: "inv s \<Longrightarrow> inv (history step s is) \<and> upto s (history step s is)"
proof (induction "is" arbitrary: s)
  case (Cons i "is")
  then have "inv (offerE step s i)" "upto s (offerE step s i)" by (simp_all add: offer_keeps)
  with Cons.IH [of "offerE step s i"] show ?case by (auto intro: upto_trans)
qed (simp add: upto_refl)

lemma history_inv: "inv s \<Longrightarrow> inv (history step s is)"
  using history_keeps by blast

lemma history_extends: "inv s \<Longrightarrow> upto (history step s xs) (history step s (xs @ ys))"
  using history_keeps [of "history step s xs" ys] history_inv by simp

end

section \<open>Decoders that close after a refusal\<close>

text \<open>Applying a method to a list of inputs, keeping the receiver even after a refusal.\<close>

fun drive :: "('i \<Rightarrow> ('s, 'e, 'a) receiver) \<Rightarrow> 's \<Rightarrow> 'i list \<Rightarrow> 's \<times> ('e + 'a) list" where
  "drive push s [] = (s, [])"
| "drive push s (i # is) =
     (let (s', r) = push i s; (s'', rs) = drive push s' is in (s'', r # rs))"

lemma drive_append:
  "drive push s (xs @ ys) =
     (let (s', rs) = drive push s xs; (s'', rs') = drive push s' ys in (s'', rs @ rs'))"
  by (induction xs arbitrary: s) (auto simp: Let_def split: prod.splits)

lemma length_drive [simp]: "length (snd (drive push s is)) = length is"
  by (induction "is" arbitrary: s) (simp_all add: Let_def split_beta)

locale closing_decoder =
  fixes push :: "'i \<Rightarrow> ('s, 'e, 'a) receiver"
    and closed :: "'s \<Rightarrow> bool"
  assumes refusal_closes: "push i s = (s', Inl e) \<Longrightarrow> closed s'"
    and closed_refuses: "closed s \<Longrightarrow> push i s = (s', r) \<Longrightarrow> \<not> is_ok r"
begin

lemma drive_closed:
  "closed s \<Longrightarrow> closed (fst (drive push s is)) \<and> (\<forall>r \<in> set (snd (drive push s is)). \<not> is_ok r)"
proof (induction "is" arbitrary: s)
  case (Cons i "is")
  obtain s' r where p: "push i s = (s', r)" by fastforce
  have nok: "\<not> is_ok r" using Cons.prems p by (rule closed_refuses)
  then obtain e where "r = Inl e" by (cases r) auto
  then have "closed s'" using p refusal_closes by blast
  from Cons.IH [OF this] show ?case
    using p nok by (auto simp: Let_def split: prod.splits)
qed simp

text \<open>The answers are acceptances first and refusals after the first refusal.\<close>

lemma drive_split:
  "\<exists>oks refusals. snd (drive push s is) = oks @ refusals \<and> list_all is_ok oks \<and>
     list_all (\<lambda>r. \<not> is_ok r) refusals"
proof (induction "is" arbitrary: s)
  case (Cons i "is")
  obtain s' r where p: "push i s = (s', r)" by fastforce
  obtain s'' rs where d: "drive push s' is = (s'', rs)" by fastforce
  show ?case
  proof (cases r)
    case (Inl e)
    then have "\<forall>r \<in> set rs. \<not> is_ok r" using drive_closed [of s' "is"] p d refusal_closes by auto
    then show ?thesis
      using p d Inl by (intro exI [of _ "[]"] exI [of _ "r # rs"]) (simp add: list_all_iff)
  next
    case (Inr a)
    obtain oks refusals where "rs = oks @ refusals" "list_all is_ok oks"
      "list_all (\<lambda>r. \<not> is_ok r) refusals"
      using Cons.IH [of s'] d by auto
    then show ?thesis
      using p d Inr by (intro exI [of _ "r # oks"] exI [of _ refusals]) simp
  qed
qed simp

text \<open>Once one input was refused, every later input is refused.\<close>

lemma refusal_is_final:
  assumes "i < j" and "j < length is" and "\<not> is_ok (snd (drive push s is) ! i)"
  shows "\<not> is_ok (snd (drive push s is) ! j)"
  using assms
proof (induction "is" arbitrary: s i j)
  case (Cons x xs)
  obtain s' r where p: "push x s = (s', r)" by fastforce
  obtain s'' rs where d: "drive push s' xs = (s'', rs)" by fastforce
  have eq: "snd (drive push s (x # xs)) = r # rs" using p d by simp
  have len: "length rs = length xs" using length_drive [of push s' xs] d by simp
  obtain j' where j': "j = Suc j'" using Cons.prems(1) by (cases j) auto
  show ?case
  proof (cases i)
    case 0
    then have "\<not> is_ok r" using Cons.prems(3) eq by simp
    then obtain e where "r = Inl e" by (cases r) auto
    then have "closed s'" using p refusal_closes by blast
    then have "\<forall>r \<in> set rs. \<not> is_ok r" using drive_closed [of s' xs] d by simp
    moreover have "j' < length rs" using Cons.prems(2) j' len by simp
    ultimately show ?thesis using eq j' by simp
  next
    case (Suc i')
    then have "\<not> is_ok (snd (drive push s' xs) ! j')"
      using Cons.prems Cons.IH [of i' j' s'] eq j' d by simp
    then show ?thesis using eq j' d by simp
  qed
qed simp

end

text \<open>A caller that feeds inputs one after another and stops at the first refusal, keeping the
  answers.\<close>

fun feed :: "('i \<Rightarrow> ('s, 'e, 'a) receiver) \<Rightarrow> 's \<Rightarrow> 'i list \<Rightarrow> 's \<times> ('e + 'a list)" where
  "feed push s [] = (s, Inr [])"
| "feed push s (i # is) =
     (case push i s of
        (s', Inl e) \<Rightarrow> (s', Inl e)
      | (s', Inr a) \<Rightarrow>
          (case feed push s' is of
             (s'', Inl e) \<Rightarrow> (s'', Inl e)
           | (s'', Inr as) \<Rightarrow> (s'', Inr (a # as))))"

lemma feed_append:
  "feed push s (xs @ ys) =
     (case feed push s xs of
        (s', Inl e) \<Rightarrow> (s', Inl e)
      | (s', Inr as) \<Rightarrow>
          (case feed push s' ys of
             (s'', Inl e) \<Rightarrow> (s'', Inl e)
           | (s'', Inr bs) \<Rightarrow> (s'', Inr (as @ bs))))"
  by (induction xs arbitrary: s) (auto split: prod.splits sum.splits)

lemma feed_length: "feed push s xs = (s', Inr as) \<Longrightarrow> length as = length xs"
  by (induction xs arbitrary: s as) (auto split: prod.splits sum.splits)

text \<open>The answer of a feeding caller that only wants to know whether every input was taken.\<close>

definition settled :: "'s \<times> ('e + 'a) \<Rightarrow> 's \<times> ('e + unit)" where
  "settled r = (case r of (s, Inl e) \<Rightarrow> (s, Inl e) | (s, Inr _) \<Rightarrow> (s, Inr ()))"

lemma settled_simps [simp]: "settled (s, Inl e) = (s, Inl e)" "settled (s, Inr a) = (s, Inr ())"
  by (simp_all add: settled_def)

text \<open>The contract of a reader whose \<open>push\<close> takes a fragment octet by octet: where the input is cut
  into fragments makes no difference.\<close>

locale fragment_reader = closing_decoder push closed
  for push :: "'i list \<Rightarrow> ('s, 'e, unit) receiver" and closed :: "'s \<Rightarrow> bool" +
  fixes octet :: "'i \<Rightarrow> ('s, 'e, 'b) receiver"
  assumes push_live: "\<not> closed s \<Longrightarrow> push is s = settled (feed octet s is)"
    and octet_live: "octet i s = (s', Inr b) \<Longrightarrow> \<not> closed s'"
begin

lemma feed_live: "\<not> closed s \<Longrightarrow> feed octet s is = (s', Inr bs) \<Longrightarrow> \<not> closed s'"
proof (induction "is" arbitrary: s bs)
  case (Cons i "is")
  then obtain t b cs where "octet i s = (t, Inr b)" "feed octet t is = (s', Inr cs)"
    by (auto split: prod.splits sum.splits)
  then show ?case using Cons.IH [of t cs] octet_live by blast
qed simp

lemma fragments_do_not_matter:
  "\<not> closed s \<Longrightarrow> settled (feed push s fragments) = push (concat fragments) s"
proof (induction fragments arbitrary: s)
  case Nil
  then show ?case by (simp add: push_live)
next
  case (Cons f fs)
  obtain t r where f: "feed octet s f = (t, r)" by fastforce
  show ?case
  proof (cases r)
    case (Inl e)
    then show ?thesis using Cons.prems f by (simp add: push_live feed_append)
  next
    case (Inr bs)
    then have t: "\<not> closed t" using feed_live [OF Cons.prems] f by blast
    have "settled (feed push s (f # fs)) = settled (feed push t fs)"
      using Cons.prems f Inr
      by (cases "feed push t fs"; cases "snd (feed push t fs)") (simp_all add: push_live)
    also have "\<dots> = settled (feed octet t (concat fs))" using Cons.IH [OF t] push_live [OF t] by simp
    also have "\<dots> = settled (feed octet s (f @ concat fs))"
      using f Inr by (cases "feed octet t (concat fs)"; cases "snd (feed octet t (concat fs))")
        (simp_all add: feed_append)
    finally show ?thesis using Cons.prems by (simp add: push_live)
  qed
qed

end

section \<open>Lists\<close>

text \<open>Rust's \<open>str::split_once\<close> at one character: the parts around its first occurrence.\<close>

fun split_once :: "'a \<Rightarrow> 'a list \<Rightarrow> ('a list \<times> 'a list) option" where
  "split_once c [] = None"
| "split_once c (x # xs) =
     (if x = c then Some ([], xs)
      else map_option (\<lambda>(l, r). (x # l, r)) (split_once c xs))"

lemma split_once_Some:
  "split_once c xs = Some (l, r) \<longleftrightarrow> xs = l @ c # r \<and> c \<notin> set l"
proof (induction xs arbitrary: l)
  case (Cons x xs)
  then show ?case by (cases l) auto
qed simp

lemma split_once_None: "split_once c xs = None \<longleftrightarrow> c \<notin> set xs"
  by (induction xs) auto

lemma append_longer:
  "xs @ ys = us @ vs \<Longrightarrow> length us \<le> length xs \<Longrightarrow> \<exists>b. xs = us @ b \<and> b @ ys = vs"
  by (auto simp: append_eq_append_conv2)

end
