(* ===== verification/Operation_Lifecycle.thy ===== *)
theory Operation_Lifecycle
  imports Slingshot_Prelude
begin

text \<open>
  The operation of \<open>slingshot-domain/src/operation.rs\<close>: a durable record that is a fold of
  facts.  The enumerations keep the source's constructors; the record keeps its fields.
  The theorems show that the fold keeps the record consistent, that a repeated fact is one
  fact, that the revision counts exactly the facts that changed something, and that nothing
  changes an ended operation.
\<close>

section \<open>Vocabulary\<close>

datatype operation_lifecycle_state = Queued | Submitting | Accepted | Running | Succeeded | Failed

fun is_terminal :: "operation_lifecycle_state \<Rightarrow> bool" where
  "is_terminal Succeeded = True"
| "is_terminal Failed = True"
| "is_terminal _ = False"

fun may_become :: "operation_lifecycle_state \<Rightarrow> operation_lifecycle_state \<Rightarrow> bool" where
  "may_become Queued next = (next \<in> {Submitting, Succeeded, Failed})"
| "may_become Submitting next = (next \<in> {Accepted, Succeeded, Failed})"
| "may_become Accepted next = (next \<in> {Running, Succeeded, Failed})"
| "may_become Running next = (next \<in> {Succeeded, Failed})"
| "may_become Succeeded next = False"
| "may_become Failed next = False"

datatype operation_execution_certainty =
  ConfirmedNotExecuted | SubmissionUnknown | RemoteOutcomeUnknown

fun is_unresolved :: "operation_execution_certainty \<Rightarrow> bool" where
  "is_unresolved ConfirmedNotExecuted = False"
| "is_unresolved SubmissionUnknown = True"
| "is_unresolved RemoteOutcomeUnknown = True"

datatype recovery_execution_evidence =
  ExecutionCertainty operation_execution_certainty
| RecoveryRemoteSuccess \<comment> \<open>\<open>RecoveryExecutionEvidence::AuthoritativeRemoteSuccess\<close>\<close>

datatype recovery_category =
  AmbiguousSubmission | EventReconnection | OperationLookup | JobSnapshotRecovery
| ResultAcquisition | ArtifactTransfer | PersistentCapacityUnavailable

definition admits :: "recovery_category \<Rightarrow> recovery_execution_evidence \<Rightarrow> bool" where
  "admits category evidence =
     (let proven = category \<in> {ResultAcquisition, ArtifactTransfer, PersistentCapacityUnavailable}
      in (case (proven, evidence) of
            (False, ExecutionCertainty _) \<Rightarrow> True
          | (True, RecoveryRemoteSuccess) \<Rightarrow> True
          | _ \<Rightarrow> False))"

datatype terminal_failure_kind =
  Rejected | RemoteFailed | ResultUnavailable | RecoveryWindowExpired | RemoteStateLost
| IntegrityFailure | RetryPolicyExhausted

datatype terminal_failure_disposition =
  AuthoritativeNonExecution operation_execution_certainty
| AuthoritativeRemoteFailure
| AuthoritativeRemoteSuccess
| FailClosedIndeterminate operation_execution_certainty

fun is_consistent :: "terminal_failure_disposition \<Rightarrow> bool" where
  "is_consistent (AuthoritativeNonExecution certainty) = (certainty = ConfirmedNotExecuted)"
| "is_consistent (FailClosedIndeterminate certainty) = is_unresolved certainty"
| "is_consistent AuthoritativeRemoteFailure = True"
| "is_consistent AuthoritativeRemoteSuccess = True"

definition terminal_pairing_is_legal ::
  "terminal_failure_kind \<Rightarrow> terminal_failure_disposition \<Rightarrow> bool" where
  "terminal_pairing_is_legal kind disposition =
     (if \<not> is_consistent disposition then False
      else (case kind of
              Rejected \<Rightarrow> (case disposition of AuthoritativeNonExecution _ \<Rightarrow> True | _ \<Rightarrow> False)
            | RemoteFailed \<Rightarrow> (case disposition of AuthoritativeRemoteFailure \<Rightarrow> True | _ \<Rightarrow> False)
            | ResultUnavailable \<Rightarrow>
                (case disposition of AuthoritativeRemoteSuccess \<Rightarrow> True | _ \<Rightarrow> False)
            | RecoveryWindowExpired \<Rightarrow>
                (case disposition of FailClosedIndeterminate _ \<Rightarrow> True | _ \<Rightarrow> False)
            | RemoteStateLost \<Rightarrow>
                (case disposition of FailClosedIndeterminate _ \<Rightarrow> True | _ \<Rightarrow> False)
            | IntegrityFailure \<Rightarrow>
                (case disposition of FailClosedIndeterminate _ \<Rightarrow> True | _ \<Rightarrow> False)
            | RetryPolicyExhausted \<Rightarrow>
                (case disposition of
                   AuthoritativeNonExecution _ \<Rightarrow> True
                 | FailClosedIndeterminate _ \<Rightarrow> True
                 | _ \<Rightarrow> False)))"

datatype lifecycle_failure =
  AlreadyTerminal | TransitionNotAllowed | ConflictingFact | EvidenceNotAdmitted
| DispositionNotAdmitted

section \<open>Settlement of a success\<close>

datatype result_disposition = Inline | Artifact

datatype settlement_failure = MixedResults | MissingResult

record produced_artifact =
  artifact_identifier :: string
  artifact_slot :: string
  byte_length :: u64
  content_digest :: string
  media_type :: string

record successful_settlement =
  artifacts :: "produced_artifact list"
  inline_result :: "string option"
  expected_lifecycle_state :: operation_lifecycle_state
  expected_revision :: u64
  settled_at_unix_milliseconds :: u64

definition settlement_disposition ::
  "successful_settlement \<Rightarrow> settlement_failure + result_disposition" where
  "settlement_disposition settlement =
     (case (inline_result settlement \<noteq> None, artifacts settlement = []) of
        (True, True) \<Rightarrow> Inr Inline
      | (False, False) \<Rightarrow> Inr Artifact
      | (True, False) \<Rightarrow>
          (if \<exists>artifact \<in> set (artifacts settlement).
                artifact_slot artifact = ''structured_result''
           then Inl MixedResults else Inr Inline)
      | (False, True) \<Rightarrow> Inl MissingResult)"

section \<open>The record and its fold\<close>

record recovery_fact =
  attempt_count :: u32
  category :: recovery_category
  recovery_detail :: string \<comment> \<open>\<open>RecoveryFact::detail\<close>\<close>
  evidence :: recovery_execution_evidence
  manual_resume_eligible :: bool
  retry_delay_milliseconds :: u64
  retry_observed_at_unix_milliseconds :: u64

record terminal_failure_fact = \<comment> \<open>the source's struct \<open>TerminalFailure\<close>\<close>
  disposition :: terminal_failure_disposition
  kind :: terminal_failure_kind
  metadata :: "string option"

record operation_record =
  latest_progress :: "string option"
  lifecycle_state :: operation_lifecycle_state
  outstanding_recovery :: "recovery_fact option"
  revision :: u64
  terminal_failure :: "terminal_failure_fact option"

datatype operation_fact =
  Lifecycle operation_lifecycle_state
| Progress string
| Recovery recovery_fact
| Terminal terminal_failure_fact

definition admitted :: operation_record where
  "admitted = \<lparr>latest_progress = None, lifecycle_state = Queued, outstanding_recovery = None,
     revision = 1, terminal_failure = None\<rparr>"

definition fold_lifecycle ::
  "operation_record \<Rightarrow> operation_lifecycle_state \<Rightarrow> lifecycle_failure + operation_record" where
  "fold_lifecycle self next =
     (if lifecycle_state self = next then Inr self
      else if is_terminal (lifecycle_state self) then Inl AlreadyTerminal
      else if \<not> may_become (lifecycle_state self) next then Inl TransitionNotAllowed
      else Inr (self\<lparr>lifecycle_state := next, revision := revision self + 1\<rparr>))"

definition fold_progress :: "operation_record \<Rightarrow> string \<Rightarrow> operation_record" where
  "fold_progress self detail =
     (if is_terminal (lifecycle_state self) \<or> latest_progress self = Some detail then self
      else self\<lparr>latest_progress := Some detail, revision := revision self + 1\<rparr>)"

definition fold_recovery ::
  "operation_record \<Rightarrow> recovery_fact \<Rightarrow> lifecycle_failure + operation_record" where
  "fold_recovery self recovery =
     (if is_terminal (lifecycle_state self) then Inl AlreadyTerminal
      else if \<not> admits (category recovery) (evidence recovery) then Inl EvidenceNotAdmitted
      else if outstanding_recovery self = Some recovery then Inr self
      else Inr (self\<lparr>outstanding_recovery := Some recovery, revision := revision self + 1\<rparr>))"

definition fold_terminal ::
  "operation_record \<Rightarrow> terminal_failure_fact \<Rightarrow> lifecycle_failure + operation_record" where
  "fold_terminal self failure =
     (if \<not> terminal_pairing_is_legal (kind failure) (disposition failure)
      then Inl DispositionNotAdmitted
      else (case (terminal_failure self, is_terminal (lifecycle_state self)) of
              (Some held, _) \<Rightarrow> (if held = failure then Inr self else Inl ConflictingFact)
            | (None, True) \<Rightarrow> Inl ConflictingFact
            | (None, False) \<Rightarrow>
                Inr (self\<lparr>lifecycle_state := Failed, outstanding_recovery := None,
                  revision := revision self + 1, terminal_failure := Some failure\<rparr>)))"

fun fold_fact :: "operation_record \<Rightarrow> operation_fact \<Rightarrow> lifecycle_failure + operation_record" where
  "fold_fact self (Lifecycle lifecycle_state') = fold_lifecycle self lifecycle_state'"
| "fold_fact self (Progress detail) = Inr (fold_progress self detail)"
| "fold_fact self (Recovery recovery) = fold_recovery self recovery"
| "fold_fact self (Terminal failure) = fold_terminal self failure"

definition remaining_delay_milliseconds :: "recovery_fact \<Rightarrow> u64 \<Rightarrow> u64" where
  "remaining_delay_milliseconds recovery now =
     (let elapsed = min (saturating_sub now (retry_observed_at_unix_milliseconds recovery))
                        (retry_delay_milliseconds recovery)
      in saturating_sub (retry_delay_milliseconds recovery) elapsed)"

lemmas fold_defs = fold_lifecycle_def fold_progress_def fold_recovery_def fold_terminal_def

section \<open>Invariant\<close>

text \<open>A record that holds a terminal failure has failed, holds it with a legal disposition and
  has no recovery outstanding; a recovery that is outstanding carries evidence of its kind.\<close>

definition operation_wf :: "operation_record \<Rightarrow> bool" where
  "operation_wf r \<longleftrightarrow>
     (case terminal_failure r of None \<Rightarrow> True
      | Some f \<Rightarrow> lifecycle_state r = Failed \<and> outstanding_recovery r = None \<and>
          terminal_pairing_is_legal (kind f) (disposition f)) \<and>
     (case outstanding_recovery r of None \<Rightarrow> True
      | Some recovery \<Rightarrow> admits (category recovery) (evidence recovery))"

text \<open>How far along a state is: the order of the lifecycle.\<close>

fun rank :: "operation_lifecycle_state \<Rightarrow> nat" where
  "rank Queued = 0" | "rank Submitting = 1" | "rank Accepted = 2" | "rank Running = 3"
| "rank Succeeded = 4" | "rank Failed = 4"

text \<open>What one record may become as time passes: it never goes back, and an ended record
  stays exactly as it is.\<close>

definition progresses_to :: "operation_record \<Rightarrow> operation_record \<Rightarrow> bool" where
  "progresses_to r r' \<longleftrightarrow>
     rank (lifecycle_state r) \<le> rank (lifecycle_state r') \<and>
     (is_terminal (lifecycle_state r) \<longrightarrow> r' = r)"

lemma may_become_rank: "may_become s t \<Longrightarrow> rank s < rank t"
  by (cases s) auto

lemma may_become_not_terminal: "may_become s t \<Longrightarrow> \<not> is_terminal s"
  by (cases s) auto

lemma rank_terminal: "\<not> is_terminal s \<Longrightarrow> rank s < rank Failed"
  by (cases s) auto

lemma is_terminal_rank: "is_terminal s \<longleftrightarrow> rank s = 4"
  by (cases s) auto

lemma fold_lifecycle_Inr:
  "fold_lifecycle r s = Inr r' \<Longrightarrow>
     r' = r \<or> (may_become (lifecycle_state r) s \<and>
               r' = r\<lparr>lifecycle_state := s, revision := revision r + 1\<rparr>)"
  by (auto simp: fold_lifecycle_def split: if_splits)

lemma fold_terminal_Inr:
  "fold_terminal r f = Inr r' \<Longrightarrow>
     terminal_pairing_is_legal (kind f) (disposition f) \<and>
     (r' = r \<and> terminal_failure r = Some f \<or>
      terminal_failure r = None \<and> \<not> is_terminal (lifecycle_state r) \<and>
      r' = r\<lparr>lifecycle_state := Failed, outstanding_recovery := None,
             revision := revision r + 1, terminal_failure := Some f\<rparr>)"
  by (auto simp: fold_terminal_def split: if_splits option.splits bool.splits)

lemma fold_fact_wf:
  assumes "operation_wf r" and "fold_fact r given = Inr r'"
  shows "operation_wf r'"
proof (cases given)
  case (Lifecycle s)
  then have "fold_lifecycle r s = Inr r'" using assms(2) by simp
  then show ?thesis using assms(1) may_become_not_terminal
    by (fastforce simp: operation_wf_def dest!: fold_lifecycle_Inr split: option.splits)
next
  case (Terminal f)
  then have "fold_terminal r f = Inr r'" using assms(2) by simp
  then show ?thesis using assms(1)
    by (auto simp: operation_wf_def dest!: fold_terminal_Inr)
qed (use assms in \<open>auto simp: fold_defs operation_wf_def split: if_splits option.splits\<close>)

lemma fold_fact_terminal:
  assumes "is_terminal (lifecycle_state r)" and "fold_fact r given = Inr r'"
  shows "r' = r"
  using assms by (cases given) (auto simp: fold_defs split: if_splits option.splits)

lemma fold_fact_progresses: "fold_fact r given = Inr r' \<Longrightarrow> progresses_to r r'"
proof (cases "is_terminal (lifecycle_state r)")
  case False
  assume "fold_fact r given = Inr r'"
  with False show ?thesis
    using may_become_rank rank_terminal
    by (cases given)
      (fastforce simp: progresses_to_def fold_defs less_imp_le split: if_splits option.splits)+
qed (auto simp: progresses_to_def dest: fold_fact_terminal)

lemma operation_wf_admitted: "operation_wf admitted"
  by (simp add: operation_wf_def admitted_def)

interpretation operation_fold: guarded_machine fold_fact operation_wf progresses_to
  by unfold_locales
    (auto intro: fold_fact_wf fold_fact_progresses, auto simp: progresses_to_def)

section \<open>Properties\<close>

text \<open>How many facts of a history change the record they are offered to.\<close>

fun effective_facts :: "operation_record \<Rightarrow> operation_fact list \<Rightarrow> nat" where
  "effective_facts r [] = 0"
| "effective_facts r (f # fs) =
     (if offerE fold_fact r f = r then 0 else 1) + effective_facts (offerE fold_fact r f) fs"

lemma fold_fact_revision:
  "fold_fact r f = Inr r' \<Longrightarrow> r' = r \<or> revision r' = revision r + 1"
  by (cases f) (auto simp: fold_defs split: if_splits option.splits bool.splits)

lemma offer_revision:
  "revision (offerE fold_fact r f) =
     revision r + (if offerE fold_fact r f = r then 0 else 1)"
  using fold_fact_revision [of r f] by (auto simp: offerE_def split: sum.split)

text \<open>A fact that was folded in and is folded in again leaves the record exactly as the
  first time left it, at the same revision: two writers recording the same fact have recorded
  one fact.\<close>

lemma fold_fact_repeated:
  assumes "fold_fact r f = Inr r'"
  shows "fold_fact r' f = Inr r'"
proof (cases f)
  case (Terminal failure)
  then have "fold_terminal r failure = Inr r'" using assms by simp
  then have "fold_terminal r' failure = Inr r'"
    by (auto dest!: fold_terminal_Inr) (simp_all add: fold_terminal_def)
  with Terminal show ?thesis by simp
qed (use assms in \<open>auto simp: fold_defs split: if_splits\<close>)

text \<open>Over any history of offered facts, refused ones included, the revision moves by exactly
  the number of facts that changed the record: neither a refused nor a repeated fact takes the
  revision with it, and every change takes it once.\<close>

lemma revision_counts_changes:
  "revision (history fold_fact r fs) = revision r + of_nat (effective_facts r fs)"
proof (induction fs arbitrary: r)
  case (Cons f fs)
  show ?case by (simp add: Cons.IH offer_revision [of r f])
qed simp

text \<open>C1: Once a history of an admitted operation has reached an ending, no later fact of
  whatever kind changes anything about the record, and until then the lifecycle never moves
  back.\<close>

theorem ended_operation_is_final:
  "(is_terminal (lifecycle_state (history fold_fact admitted xs)) \<longrightarrow>
      history fold_fact admitted (xs @ ys) = history fold_fact admitted xs) \<and>
   rank (lifecycle_state (history fold_fact admitted xs)) \<le>
     rank (lifecycle_state (history fold_fact admitted (xs @ ys)))"
  using operation_fold.history_extends [OF operation_wf_admitted, of xs ys]
  by (simp add: progresses_to_def)

definition failed_lookup :: terminal_failure_fact where
  "failed_lookup = \<lparr>disposition = FailClosedIndeterminate RemoteOutcomeUnknown,
     kind = RecoveryWindowExpired, metadata = None\<rparr>"

theorem ended_operation_is_final_witness:
  "is_terminal (lifecycle_state (history fold_fact admitted [Terminal failed_lookup])) \<and>
   history fold_fact admitted ([Terminal failed_lookup] @ [Lifecycle Succeeded, Progress ''late'']) =
     history fold_fact admitted [Terminal failed_lookup]"
proof -
  have e: "is_terminal (lifecycle_state (history fold_fact admitted [Terminal failed_lookup]))"
    by (simp add: offerE_def fold_terminal_def terminal_pairing_is_legal_def admitted_def
        failed_lookup_def)
  then show ?thesis
    using ended_operation_is_final [of "[Terminal failed_lookup]"
        "[Lifecycle Succeeded, Progress ''late'']"] by blast
qed

text \<open>C2: Whatever facts an operation was offered, the record never misreports effect: a held
  terminal failure means the state is Failed with no recovery outstanding; a proven remote
  success is reported only as an unavailable result, an expired recovery window only over an
  outcome that is unresolved, a rejection only over proven non-execution; and an outstanding
  recovery that follows a proven success carries no uncertainty.\<close>

theorem history_reports_effect_honestly:
  "let r = history fold_fact admitted facts in
         (case terminal_failure r of None \<Rightarrow> True
          | Some f \<Rightarrow>
              lifecycle_state r = Failed \<and> outstanding_recovery r = None \<and>
              (disposition f = AuthoritativeRemoteSuccess \<longleftrightarrow> kind f = ResultUnavailable) \<and>
              (disposition f = AuthoritativeRemoteFailure \<longleftrightarrow> kind f = RemoteFailed) \<and>
              (kind f = Rejected \<longrightarrow> disposition f = AuthoritativeNonExecution ConfirmedNotExecuted) \<and>
              (kind f \<in> {RecoveryWindowExpired, RemoteStateLost, IntegrityFailure} \<longrightarrow>
                 (\<exists>c. is_unresolved c \<and> disposition f = FailClosedIndeterminate c))) \<and>
         (case outstanding_recovery r of None \<Rightarrow> True
          | Some recovery \<Rightarrow>
              (evidence recovery = RecoveryRemoteSuccess \<longleftrightarrow>
                 category recovery \<in> {ResultAcquisition, ArtifactTransfer,
                                      PersistentCapacityUnavailable}))"
proof -
  have wf: "operation_wf (history fold_fact admitted facts)"
    by (rule operation_fold.history_inv [OF operation_wf_admitted])
  have legal: "terminal_pairing_is_legal (kind f) (disposition f) \<Longrightarrow>
      (disposition f = AuthoritativeRemoteSuccess \<longleftrightarrow> kind f = ResultUnavailable) \<and>
      (disposition f = AuthoritativeRemoteFailure \<longleftrightarrow> kind f = RemoteFailed) \<and>
      (kind f = Rejected \<longrightarrow> disposition f = AuthoritativeNonExecution ConfirmedNotExecuted) \<and>
      (kind f \<in> {RecoveryWindowExpired, RemoteStateLost, IntegrityFailure} \<longrightarrow>
         (\<exists>c. is_unresolved c \<and> disposition f = FailClosedIndeterminate c))"
    for f :: terminal_failure_fact
    by (cases "kind f"; cases "disposition f")
      (auto simp: terminal_pairing_is_legal_def split: if_splits)
  have admits: "admits c e \<Longrightarrow> (e = RecoveryRemoteSuccess \<longleftrightarrow>
      c \<in> {ResultAcquisition, ArtifactTransfer, PersistentCapacityUnavailable})" for c e
    by (cases c; cases e) (auto simp: admits_def)
  show ?thesis
    using wf legal admits by (auto simp: Let_def operation_wf_def split: option.splits)
qed

theorem history_reports_effect_honestly_witness:
  "terminal_failure (history fold_fact admitted [Terminal failed_lookup]) = Some failed_lookup \<and>
   lifecycle_state (history fold_fact admitted [Terminal failed_lookup]) = Failed"
proof -
  have t: "terminal_failure (history fold_fact admitted [Terminal failed_lookup]) =
      Some failed_lookup"
    by (simp add: offerE_def fold_terminal_def terminal_pairing_is_legal_def admitted_def
        failed_lookup_def)
  then show ?thesis
    using history_reports_effect_honestly [of "[Terminal failed_lookup]"] by (simp add: Let_def)
qed

text \<open>After a restart a recovery waits exactly what is left of its delay: a clock that went
  back waits the whole delay, one past the end of the delay waits nothing, and no clock makes
  it wait longer than it would have.\<close>

lemma remaining_delay_exact:
  "unat (remaining_delay_milliseconds recovery now) =
     unat (retry_delay_milliseconds recovery) -
       (unat now - unat (retry_observed_at_unix_milliseconds recovery)) \<and>
   remaining_delay_milliseconds recovery now \<le> retry_delay_milliseconds recovery"
proof -
  have "unat (min a b) = min (unat a) (unat b)" for a b :: u64
    by (simp add: min_def word_le_nat_alt)
  then show ?thesis
    by (simp add: remaining_delay_milliseconds_def Let_def word_le_nat_alt)
qed

end
