(* ===== verification/Transport_Contract.thy ===== *)
theory Transport_Contract
  imports Slingshot_Prelude
begin

text \<open>
  The numbers of the author transport: \<open>slingshot-domain/src/author_agent_transport_contract.rs\<close>
  with the committed manifest it embeds, \<open>policy/author-agent-transport-contract-1.json\<close>.  The
  two maps of the manifest are association lists.  Reading a name the manifest does not have is
  a panic in the source and \<open>None\<close> here.  Parsing the manifest's text and digesting its bytes
  are done by libraries and not modelled: the model starts from the parsed contract.
\<close>

record transport_contract =
  agent_protocol_version :: u64
  contract_format :: string
  formulas :: "(string \<times> u64) list"
  limits :: "(string \<times> u64) list"

definition embedded_contract :: transport_contract where
  "embedded_contract = \<lparr>agent_protocol_version = 1,
   contract_format = ''slingshot.author-agent-transport-contract/1'',
   formulas = [
    (''continuation_key_prior_retention_milliseconds'', 960000),
    (''heartbeat_timeout_milliseconds'', 45000),
    (''maximum_current_generation_artifact_rows'', 131072),
    (''maximum_current_generation_event_bytes'', 68719476736),
    (''maximum_current_generation_event_rows'', 16777216),
    (''maximum_server_sent_event_buffer_bytes'', 2097152)],
   limits = [
    (''artifact_transfer_idle_timeout_milliseconds'', 15000),
    (''artifact_transfer_total_timeout_milliseconds'', 600000),
    (''author_connect_timeout_milliseconds'', 10000),
    (''author_request_body_timeout_milliseconds'', 30000),
    (''author_response_header_timeout_milliseconds'', 15000),
    (''author_tls_timeout_milliseconds'', 10000),
    (''continuation_key_authority_timeout_milliseconds'', 5000),
    (''continuation_key_prior_retention_milliseconds'', 960000),
    (''continuation_key_rotation_lease_milliseconds'', 30000),
    (''finite_response_idle_timeout_milliseconds'', 5000),
    (''finite_response_total_timeout_milliseconds'', 30000),
    (''heartbeat_interval_milliseconds'', 15000),
    (''maximum_agent_continuation_key_state_bytes'', 431),
    (''maximum_agent_inline_result_bytes'', 1048576),
    (''maximum_agent_operation_identifier_bytes'', 96),
    (''maximum_agent_protocol_document_bytes'', 2097152),
    (''maximum_author_agent_transport_contract_bytes'', 65536),
    (''maximum_author_response_head_bytes'', 32768),
    (''maximum_author_response_header_bytes'', 8192),
    (''maximum_author_response_header_count'', 64),
    (''maximum_automatic_retry_attempts'', 8),
    (''maximum_canonical_submission_bytes'', 1310720),
    (''maximum_continuation_key_authority_record_bytes'', 768),
    (''maximum_current_generation_active_subscription_bytes'', 16777216),
    (''maximum_current_generation_active_subscription_rows'', 4096),
    (''maximum_current_generation_artifact_bytes'', 1099511627776),
    (''maximum_current_generation_operation_detail_bytes'', 68719476736),
    (''maximum_current_generation_operation_detail_rows'', 65536),
    (''maximum_current_generation_operation_reservation_bytes'', 67108864),
    (''maximum_current_generation_operation_reservation_rows'', 65536),
    (''maximum_current_generation_result_bytes'', 68719476736),
    (''maximum_current_generation_result_rows'', 65536),
    (''maximum_current_generation_snapshot_bytes'', 68719476736),
    (''maximum_current_generation_snapshot_rows'', 65536),
    (''maximum_daemon_subscription_identifier_bytes'', 96),
    (''maximum_finite_response_body_bytes'', 2097152),
    (''maximum_logical_outbox_attempts'', 64),
    (''maximum_operation_event_bytes'', 1048576),
    (''maximum_operation_event_rows'', 256),
    (''maximum_persisted_remaining_retention_milliseconds'', 604800000),
    (''maximum_physical_attempt_identifier_bytes'', 96),
    (''maximum_physical_sling_job_matches'', 32),
    (''maximum_prior_generation_artifact_bytes'', 1099511627776),
    (''maximum_prior_generation_artifact_rows'', 2097152),
    (''maximum_prior_generation_operation_detail_bytes'', 1099511627776),
    (''maximum_prior_generation_operation_detail_rows'', 1048576),
    (''maximum_prior_generation_result_bytes'', 1099511627776),
    (''maximum_prior_generation_result_rows'', 1048576),
    (''maximum_prior_generation_snapshot_bytes'', 1099511627776),
    (''maximum_prior_generation_snapshot_rows'', 1048576),
    (''maximum_prior_generations'', 64),
    (''maximum_route_query_bytes'', 8192),
    (''maximum_server_sent_event_bytes'', 1048576),
    (''maximum_server_sent_event_line_bytes'', 65536),
    (''maximum_sling_job_identifier_bytes'', 1024),
    (''minimum_artifact_retention_milliseconds'', 3600000),
    (''minimum_operation_detail_retention_milliseconds'', 3600000),
    (''minimum_result_retention_milliseconds'', 3600000),
    (''minimum_snapshot_retention_milliseconds'', 3600000),
    (''missing_operation_grace_milliseconds'', 30000),
    (''physical_job_lookup_timeout_milliseconds'', 5000),
    (''retry_after_cap_milliseconds'', 60000),
    (''retry_base_milliseconds'', 250),
    (''retry_jitter_cap_milliseconds'', 30000),
    (''worker_execution_lease_milliseconds'', 30000),
    (''worker_execution_lease_renewal_milliseconds'', 10000)]\<rparr>"

definition limit :: "transport_contract \<Rightarrow> string \<Rightarrow> u64 option" where
  "limit c name = map_of (limits c) name"

definition formula :: "transport_contract \<Rightarrow> string \<Rightarrow> u64 option" where
  "formula c name = map_of (formulas c) name"

text \<open>\<open>embedded().limit(name)\<close> for a name the source writes out.\<close>

definition embedded_limit :: "string \<Rightarrow> u64" where
  "embedded_limit name = the (limit embedded_contract name)"

datatype transport_contract_failure = FormulaInconsistent string

text \<open>A lookup of an absent name panics, so the whole check has no value then.\<close>

definition require_consistent_relations ::
  "transport_contract \<Rightarrow> (transport_contract_failure + unit) option" where
  "require_consistent_relations c =
     Option.bind (limit c ''worker_execution_lease_renewal_milliseconds'') (\<lambda>renewal.
     Option.bind (limit c ''worker_execution_lease_milliseconds'') (\<lambda>lease.
     (if (case checked_mul renewal 2 of None \<Rightarrow> True | Some doubled \<Rightarrow> doubled \<ge> lease)
      then Some (Inl (FormulaInconsistent ''worker_execution_lease_renewal_milliseconds''))
      else
     Option.bind (limit c ''maximum_canonical_submission_bytes'') (\<lambda>submission.
     Option.bind (limit c ''maximum_agent_protocol_document_bytes'') (\<lambda>document.
     (if \<not> submission < document
      then Some (Inl (FormulaInconsistent ''maximum_canonical_submission_bytes''))
      else
     Option.bind (limit c ''maximum_finite_response_body_bytes'') (\<lambda>body.
      if \<not> submission < body
      then Some (Inl (FormulaInconsistent ''maximum_canonical_submission_bytes''))
      else Some (Inr ()))))))))"

text \<open>The loop over the expected products: the first that does not follow is reported.\<close>

fun require_products ::
  "transport_contract \<Rightarrow> (string \<times> u64 option) list \<Rightarrow>
     (transport_contract_failure + unit) option" where
  "require_products c [] = require_consistent_relations c"
| "require_products c ((name, produced) # rest) =
     Option.bind (formula c name) (\<lambda>stated.
       if produced \<noteq> Some stated then Some (Inl (FormulaInconsistent name))
       else require_products c rest)"

definition require_consistent_formulas ::
  "transport_contract \<Rightarrow> (transport_contract_failure + unit) option" where
  "require_consistent_formulas c =
     Option.bind (limit c ''maximum_current_generation_operation_reservation_rows'') (\<lambda>reservation.
     Option.bind (limit c ''maximum_server_sent_event_bytes'') (\<lambda>event.
     Option.bind (limit c ''heartbeat_interval_milliseconds'') (\<lambda>heartbeat.
     Option.bind (limit c ''maximum_operation_event_rows'') (\<lambda>rows.
       require_products c
         [(''maximum_server_sent_event_buffer_bytes'', checked_mul event 2),
          (''heartbeat_timeout_milliseconds'', checked_mul heartbeat 3),
          (''maximum_current_generation_event_rows'', checked_mul reservation rows),
          (''maximum_current_generation_artifact_rows'', checked_mul reservation 2)]))))"

named_theorems contract_simps

lemma limit_embedded [contract_simps]:
  "limit embedded_contract ''maximum_sling_job_identifier_bytes'' = Some 1024"
  "limit embedded_contract ''maximum_agent_operation_identifier_bytes'' = Some 96"
  "limit embedded_contract ''maximum_logical_outbox_attempts'' = Some 64"
  "limit embedded_contract ''maximum_physical_sling_job_matches'' = Some 32"
  "limit embedded_contract ''maximum_server_sent_event_bytes'' = Some 1048576"
  "limit embedded_contract ''maximum_server_sent_event_line_bytes'' = Some 65536"
  "limit embedded_contract ''maximum_author_response_head_bytes'' = Some 32768"
  "limit embedded_contract ''maximum_author_response_header_bytes'' = Some 8192"
  "limit embedded_contract ''maximum_author_response_header_count'' = Some 64"
  "limit embedded_contract ''worker_execution_lease_renewal_milliseconds'' = Some 10000"
  "limit embedded_contract ''worker_execution_lease_milliseconds'' = Some 30000"
  "limit embedded_contract ''maximum_canonical_submission_bytes'' = Some 1310720"
  "limit embedded_contract ''maximum_agent_protocol_document_bytes'' = Some 2097152"
  "limit embedded_contract ''maximum_finite_response_body_bytes'' = Some 2097152"
  "limit embedded_contract ''maximum_current_generation_operation_reservation_rows'' = Some 65536"
  "limit embedded_contract ''heartbeat_interval_milliseconds'' = Some 15000"
  "limit embedded_contract ''maximum_operation_event_rows'' = Some 256"
  by code_simp+

lemma formula_embedded [contract_simps]:
  "formula embedded_contract ''maximum_server_sent_event_buffer_bytes'' = Some 2097152"
  "formula embedded_contract ''heartbeat_timeout_milliseconds'' = Some 45000"
  "formula embedded_contract ''maximum_current_generation_event_rows'' = Some 16777216"
  "formula embedded_contract ''maximum_current_generation_artifact_rows'' = Some 131072"
  by code_simp+

lemma embedded_limits [contract_simps]:
  "embedded_limit ''maximum_sling_job_identifier_bytes'' = 1024"
  "embedded_limit ''maximum_agent_operation_identifier_bytes'' = 96"
  "embedded_limit ''maximum_logical_outbox_attempts'' = 64"
  "embedded_limit ''maximum_physical_sling_job_matches'' = 32"
  "embedded_limit ''maximum_server_sent_event_bytes'' = 1048576"
  "embedded_limit ''maximum_server_sent_event_line_bytes'' = 65536"
  "embedded_limit ''maximum_author_response_head_bytes'' = 32768"
  "embedded_limit ''maximum_author_response_header_bytes'' = 8192"
  "embedded_limit ''maximum_author_response_header_count'' = 64"
  by (simp_all add: embedded_limit_def contract_simps)

text \<open>Establishing the committed contract does not panic and does not refuse it.\<close>

lemma embedded_contract_consistent:
  "require_consistent_formulas embedded_contract = Some (Inr ())"
  by (simp add: require_consistent_formulas_def require_consistent_relations_def
      contract_simps checked_mul_def)

end
