(* ===== verification/Remote_Jobs.thy ===== *)
theory Remote_Jobs
  imports Transport_Contract "HOL-Library.List_Lexorder" "HOL-Library.Char_ord"
    "HOL-Library.Product_Lexorder"
begin

text \<open>
  What the daemon durably knows about work running elsewhere:
  \<open>slingshot-domain/src/remote_job.rs\<close> and \<open>slingshot-domain/src/stream_cursor_order.rs\<close>.
  A Rust \<open>str\<close> is a list of bytes and is compared bytewise, which the order of \<open>string\<close>
  (characters by their code, lists lexicographically) is.  The theorems show that cursor
  comparison is a total order that never identifies two different spellings, and that a job
  only ever moves forward.
\<close>

section \<open>Cursor order\<close>

datatype ordering = Less | Equal | Greater

definition cmp :: "'a::linorder \<Rightarrow> 'a \<Rightarrow> ordering" where
  "cmp a b = (if a < b then Less else if a = b then Equal else Greater)"

definition digit_value :: "char \<Rightarrow> nat option" where
  "digit_value c = (if 48 \<le> (of_char c :: nat) \<and> (of_char c :: nat) \<le> 57
     then Some (of_char c - 48) else None)"

text \<open>The digit loop of \<open>str::parse::<u64>\<close>, which stops at a byte that is no digit and at a
  value that does not fit.\<close>

fun parse_digits :: "nat \<Rightarrow> string \<Rightarrow> nat option" where
  "parse_digits acc [] = Some acc"
| "parse_digits acc (c # cs) =
     (case digit_value c of None \<Rightarrow> None
      | Some d \<Rightarrow> if 10 * acc + d < 2 ^ 64 then parse_digits (10 * acc + d) cs else None)"

text \<open>\<open>str::parse::<u64>\<close>: one leading plus sign is accepted, no digits at all are not.\<close>

fun parse_u64 :: "string \<Rightarrow> u64 option" where
  "parse_u64 [] = None"
| "parse_u64 (c # cs) =
     (if c = CHR ''+'' then (if cs = [] then None else map_option of_nat (parse_digits 0 cs))
      else map_option of_nat (parse_digits 0 (c # cs)))"

fun show_nat :: "nat \<Rightarrow> string" where
  "show_nat n =
     (if n < 10 then [char_of (48 + n)] else show_nat (n div 10) @ [char_of (48 + n mod 10)])"

declare show_nat.simps [simp del]

lemma char_of_digits [simp]:
  "char_of (48::nat) = CHR ''0''" "char_of (49::nat) = CHR ''1''" "char_of (50::nat) = CHR ''2''"
  "char_of (51::nat) = CHR ''3''" "char_of (52::nat) = CHR ''4''" "char_of (53::nat) = CHR ''5''"
  "char_of (54::nat) = CHR ''6''" "char_of (55::nat) = CHR ''7''" "char_of (56::nat) = CHR ''8''"
  "char_of (57::nat) = CHR ''9''"
  by code_simp+

definition to_string :: "u64 \<Rightarrow> string" where
  "to_string n = show_nat (unat n)"

definition canonical_number :: "string \<Rightarrow> u64 option" where
  "canonical_number spelling =
     Option.bind (parse_u64 spelling) (\<lambda>number.
       if to_string number = spelling then Some number else None)"

definition decimal_position :: "string \<Rightarrow> (u64 \<times> u64) option" where
  "decimal_position cursor =
     Option.bind (split_once CHR '':'' cursor) (\<lambda>(generation, sequence).
     Option.bind (canonical_number generation) (\<lambda>g.
     Option.bind (canonical_number sequence) (\<lambda>s. Some (g, s))))"

definition compare :: "string \<Rightarrow> string \<Rightarrow> ordering" where
  "compare left right =
     (case (decimal_position left, decimal_position right) of
        (Some left_position, Some right_position) \<Rightarrow> cmp left_position right_position
      | (None, None) \<Rightarrow> cmp left right
      | (None, Some _) \<Rightarrow> Less
      | (Some _, None) \<Rightarrow> Greater)"

lemma canonical_number_spelling: "canonical_number s = Some n \<Longrightarrow> s = to_string n"
  by (auto simp: canonical_number_def bind_eq_Some_conv split: if_splits)

lemma decimal_position_spelling:
  "decimal_position s = Some (g, q) \<Longrightarrow> s = to_string g @ CHR '':'' # to_string q"
  by (auto simp: decimal_position_def bind_eq_Some_conv split_once_Some
      dest!: canonical_number_spelling)

lemma decimal_position_inj:
  "decimal_position s = Some p \<Longrightarrow> decimal_position t = Some p \<Longrightarrow> s = t"
  by (cases p) (auto dest!: decimal_position_spelling)

text \<open>The key a spelling is ordered by: other spellings before decimal positions.\<close>

definition order_key :: "string \<Rightarrow> bool \<times> (u64 \<times> u64) \<times> string" where
  "order_key s = (case decimal_position s of
     None \<Rightarrow> (False, (0, 0), s) | Some p \<Rightarrow> (True, p, []))"

lemma order_key_inj: "order_key s = order_key t \<Longrightarrow> s = t"
  by (auto simp: order_key_def decimal_position_inj split: option.splits)

lemma compare_key: "compare s t = cmp (order_key s) (order_key t)"
  by (auto simp: compare_def order_key_def cmp_def split: option.splits)

section \<open>Identifiers, cursors and sequences\<close>

datatype agent_job_state = JobQueued | JobRunning | JobSucceeded | JobFailed

datatype remote_job_failure =
  IdentifierEmpty
| IdentifierTooLong u64 nat
| CursorTooLong u64 nat
| EndingIsFinal agent_job_state agent_job_state
| RunningCannotRequeue
| AttemptRegressed u64 u64
| ProgressRegressed u64 u64

definition agent_job_identifier_new :: "string \<Rightarrow> remote_job_failure + string" where
  "agent_job_identifier_new spelling =
     (if spelling = [] then Inl IdentifierEmpty
      else let allowed = embedded_limit ''maximum_sling_job_identifier_bytes'' in
        if length spelling > unat allowed then Inl (IdentifierTooLong allowed (length spelling))
        else Inr spelling)"

datatype event_stream_cursor = EventStreamCursor (spelling: string)

definition event_stream_cursor_new :: "string \<Rightarrow> remote_job_failure + event_stream_cursor" where
  "event_stream_cursor_new s =
     (let allowed = embedded_limit ''maximum_agent_operation_identifier_bytes'' in
      if length s > unat allowed then Inl (CursorTooLong allowed (length s))
      else Inr (EventStreamCursor s))"

text \<open>The \<open>Ord\<close> instance of \<open>EventStreamCursor\<close> is the comparison of the spellings.\<close>

definition cursor_cmp :: "event_stream_cursor \<Rightarrow> event_stream_cursor \<Rightarrow> ordering" where
  "cursor_cmp a b = compare (spelling a) (spelling b)"

instantiation event_stream_cursor :: linorder
begin

definition less_eq_event_stream_cursor :: "event_stream_cursor \<Rightarrow> event_stream_cursor \<Rightarrow> bool" where
  "less_eq_event_stream_cursor a b = (cursor_cmp a b \<noteq> Greater)"

definition less_event_stream_cursor :: "event_stream_cursor \<Rightarrow> event_stream_cursor \<Rightarrow> bool" where
  "less_event_stream_cursor a b = (cursor_cmp a b = Less)"

instance
proof
  fix a b c :: event_stream_cursor
  let ?k = "\<lambda>c. order_key (spelling c)"
  have le: "a \<le> b \<longleftrightarrow> ?k a \<le> ?k b" for a b
    by (auto simp: less_eq_event_stream_cursor_def cursor_cmp_def compare_key cmp_def)
  have lt: "a < b \<longleftrightarrow> ?k a < ?k b" for a b
    by (auto simp: less_event_stream_cursor_def cursor_cmp_def compare_key cmp_def)
  show "a < b \<longleftrightarrow> a \<le> b \<and> \<not> b \<le> a" by (auto simp: le lt)
  show "a \<le> a" by (simp add: le)
  show "a \<le> b \<Longrightarrow> b \<le> c \<Longrightarrow> a \<le> c" by (auto simp: le)
  show "a = b" if "a \<le> b" and "b \<le> a"
  proof -
    have "?k a = ?k b" using that by (simp add: le)
    then have "spelling a = spelling b" by (rule order_key_inj)
    then show ?thesis by (simp add: event_stream_cursor.expand)
  qed
  show "a \<le> b \<or> b \<le> a" by (simp add: le linear)
qed

end

abbreviation (input) FIRST_SEQUENCE :: u64 where "FIRST_SEQUENCE \<equiv> 1"
abbreviation (input) NO_ATTEMPTS_YET :: u64 where "NO_ATTEMPTS_YET \<equiv> 0"

definition follows :: "u64 \<Rightarrow> u64 \<Rightarrow> bool" where
  "follows self held \<longleftrightarrow> self > held"

definition immediately_follows :: "u64 \<Rightarrow> u64 \<Rightarrow> bool" where
  "immediately_follows self held \<longleftrightarrow> self = saturating_add held FIRST_SEQUENCE"

section \<open>The observation of one job\<close>

fun job_is_terminal :: "agent_job_state \<Rightarrow> bool" where
  "job_is_terminal JobSucceeded = True"
| "job_is_terminal JobFailed = True"
| "job_is_terminal _ = False"

fun job_may_become :: "agent_job_state \<Rightarrow> agent_job_state \<Rightarrow> bool" where
  "job_may_become JobQueued next = True"
| "job_may_become JobRunning next = (next \<noteq> JobQueued)"
| "job_may_become JobSucceeded next = (next = JobSucceeded)"
| "job_may_become JobFailed next = (next = JobFailed)"

record remote_job_observation =
  applied_sequence :: u64
  attempt :: u64
  progress :: u64
  state :: agent_job_state

definition accepted :: remote_job_observation where
  "accepted = \<lparr>applied_sequence = FIRST_SEQUENCE, attempt = NO_ATTEMPTS_YET,
     progress = NO_ATTEMPTS_YET, state = JobQueued\<rparr>"

definition require_advanceable ::
  "remote_job_observation \<Rightarrow> agent_job_state \<Rightarrow> u64 \<Rightarrow> u64 \<Rightarrow> remote_job_failure + unit" where
  "require_advanceable self state' attempt' progress' =
     (if job_is_terminal (state self) \<and> state self \<noteq> state'
      then Inl (EndingIsFinal (state self) state')
      else if \<not> job_may_become (state self) state' then Inl RunningCannotRequeue
      else if attempt' < attempt self then Inl (AttemptRegressed (attempt self) attempt')
      else if progress' < progress self then Inl (ProgressRegressed (progress self) progress')
      else Inr ())"

definition advanced ::
  "remote_job_observation \<Rightarrow> agent_job_state \<Rightarrow> u64 \<Rightarrow> u64 \<Rightarrow> u64 \<Rightarrow>
     remote_job_failure + remote_job_observation" where
  "advanced self state' sequence attempt' progress' =
     bindE (require_advanceable self state' attempt' progress') (\<lambda>_.
       Inr \<lparr>applied_sequence = sequence, attempt = attempt', progress = progress',
            state = state'\<rparr>)"

text \<open>What one observation may become: never out of an ending, never back to the queue, and
  with counters that do not fall.\<close>

definition observation_advances :: "remote_job_observation \<Rightarrow> remote_job_observation \<Rightarrow> bool" where
  "observation_advances o1 o2 \<longleftrightarrow>
     job_may_become (state o1) (state o2) \<and> attempt o1 \<le> attempt o2 \<and> progress o1 \<le> progress o2"

lemma job_may_become_refl [simp]: "job_may_become s s"
  by (cases s) auto

lemma job_may_become_trans: "job_may_become s t \<Longrightarrow> job_may_become t u \<Longrightarrow> job_may_become s u"
  by (cases s; cases t; cases u) auto

lemma job_terminal_may_become: "job_is_terminal s \<Longrightarrow> job_may_become s t \<longleftrightarrow> t = s"
  by (cases s) auto

lemma observation_advances_refl [simp]: "observation_advances x x"
  by (simp add: observation_advances_def)

lemma observation_advances_trans:
  "observation_advances x y \<Longrightarrow> observation_advances y z \<Longrightarrow> observation_advances x z"
  using job_may_become_trans by (auto simp: observation_advances_def)

lemma advanced_Inr:
  "advanced self s q a p = Inr r \<longleftrightarrow>
     observation_advances self r \<and>
     r = \<lparr>applied_sequence = q, attempt = a, progress = p, state = s\<rparr>"
  by (cases "state self"; cases s)
    (auto simp: advanced_def require_advanceable_def observation_advances_def not_less)

text \<open>Comparing stream cursors is a total order on spellings that agrees with equality:
  two cursors compare equal only if they are the same bytes, exactly one of less, equal and
  greater holds, swapping the arguments swaps the answer, and the order is transitive across
  decimal positions and other spellings alike.\<close>

lemma cursor_compare_total_order:
  "(compare s t = Equal \<longleftrightarrow> s = t) \<and>
   (compare s t = Less \<longleftrightarrow> compare t s = Greater) \<and>
   (compare s t \<noteq> Greater \<and> compare t u \<noteq> Greater \<longrightarrow> compare s u \<noteq> Greater)"
  by (auto simp: compare_key cmp_def intro: order_key_inj)

lemma of_char_digit: "d < 10 \<Longrightarrow> digit_value (char_of (48 + d :: nat)) = Some d"
  by (simp add: digit_value_def of_char_of)

lemma parse_digits_append:
  "parse_digits acc (s @ t) = Option.bind (parse_digits acc s) (\<lambda>a. parse_digits a t)"
  by (induction s arbitrary: acc) (auto split: option.splits)

lemma parse_digits_show: "n < 2 ^ 64 \<Longrightarrow> parse_digits 0 (show_nat n) = Some n"
proof (induction n rule: show_nat.induct)
  case (1 n)
  show ?case
  proof (cases "n < 10")
    case True
    then show ?thesis by (subst show_nat.simps) (simp add: of_char_digit)
  next
    case False
    then have "parse_digits 0 (show_nat (n div 10)) = Some (n div 10)" using 1 by simp
    moreover have "10 * (n div 10) + n mod 10 = n" by simp
    ultimately show ?thesis using False 1(2)
      by (subst show_nat.simps) (simp add: parse_digits_append of_char_digit)
  qed
qed

lemma show_nat_digits: "c \<in> set (show_nat n) \<Longrightarrow> digit_value c \<noteq> None"
proof (induction n rule: show_nat.induct)
  case (1 n)
  then show ?case
    by (cases "n < 10") (subst (asm) show_nat.simps; auto simp: of_char_digit)+
qed

lemma show_nat_nonempty [simp]: "show_nat n \<noteq> []"
  by (subst show_nat.simps) simp

lemma canonical_number_to_string: "canonical_number (to_string n) = Some n"
proof -
  have digits: "CHR ''+'' \<notin> set (to_string n)"
    using show_nat_digits [of "CHR ''+''" "unat n"]
    by (auto simp: to_string_def digit_value_def)
  obtain c cs where s: "to_string n = c # cs"
    by (cases "to_string n") (auto simp: to_string_def)
  have "parse_digits 0 (to_string n) = Some (unat n)"
    using parse_digits_show [of "unat n"] unsigned_less [of n, where 'a = nat]
    by (simp add: to_string_def)
  then have "parse_u64 (to_string n) = Some n"
    using digits s by (auto simp del: parse_digits.simps)
  then show ?thesis by (simp add: canonical_number_def)
qed

text \<open>A position the agent prints as two canonical decimal numbers is read back as exactly
  those numbers, so cursors of one stream are ordered by generation and then by sequence as
  numbers and not as text.\<close>

lemma decimal_position_roundtrip:
  "decimal_position (to_string g @ CHR '':'' # to_string q) = Some (g, q)"
proof -
  have "CHR '':'' \<notin> set (to_string g)"
    using show_nat_digits [of "CHR '':''" "unat g"] by (auto simp: to_string_def digit_value_def)
  then have "split_once CHR '':'' (to_string g @ CHR '':'' # to_string q) =
      Some (to_string g, to_string q)"
    by (simp add: split_once_Some)
  then show ?thesis by (simp add: decimal_position_def canonical_number_to_string)
qed

end
