(* ===== verification/Job_Reduction.thy ===== *)
theory Job_Reduction
  imports Remote_Jobs
begin

text \<open>
  What one event of the author's stream does to a job and to the subscription that delivered
  it: \<open>slingshot-agent-connection/src/job_event_reducer.rs\<close> and
  \<open>subscription_event_fold.rs\<close>, with the provenance they authenticate
  (\<open>slingshot-agent-protocol/src/wire_contract.rs\<close>, \<open>identity.rs\<close>,
  \<open>slingshot-domain/src/selected_command_contract_identity.rs\<close>).  The two folds are pure.
  The theorems show that a job moves only on the very next event of its own sequence, that a
  stream of events never moves a job backwards or past a gap, and that two accounts of one
  position never move anything.
\<close>

section \<open>Provenance\<close>

record contract_identity = \<comment> \<open>\<open>SelectedCommandContractIdentity\<close> and \<open>WireContractIdentity\<close>\<close>
  argument_schema_digest :: string
  command_contract_limits_digest :: string
  command_semantic_contract_version :: string
  command_wire_name :: string
  result_schema_digest :: string

definition is_the_same_contract_as :: "contract_identity \<Rightarrow> contract_identity \<Rightarrow> bool" where
  "is_the_same_contract_as self other \<longleftrightarrow>
     argument_schema_digest self = argument_schema_digest other \<and>
     command_contract_limits_digest self = command_contract_limits_digest other \<and>
     command_semantic_contract_version self = command_semantic_contract_version other \<and>
     command_wire_name self = command_wire_name other \<and>
     result_schema_digest self = result_schema_digest other"

abbreviation (input) AGENT_FORMAT :: string where "AGENT_FORMAT \<equiv> ''slingshot.agent/1''"

record document_provenance =
  dp_canonical_json_contract_digest :: string
  dp_command_contract :: contract_identity
  dp_format :: string
  dp_transport_contract_digest :: string

datatype wire_refusal =
  NotCanonicalBytes
| FormatDrift string string
| TransportContractDrift string string
| CanonicalContractDrift string string
| CommandContractDrift

record expected_provenance =
  canonical_json_contract_digest :: string
  command_contract :: contract_identity
  transport_contract_digest :: string

definition require_matching ::
  "expected_provenance \<Rightarrow> document_provenance \<Rightarrow> wire_refusal + unit" where
  "require_matching self provenance =
     (if dp_format provenance \<noteq> AGENT_FORMAT
      then Inl (FormatDrift AGENT_FORMAT (dp_format provenance))
      else if dp_transport_contract_digest provenance \<noteq> transport_contract_digest self
      then Inl (TransportContractDrift (transport_contract_digest self)
                  (dp_transport_contract_digest provenance))
      else if dp_canonical_json_contract_digest provenance \<noteq> canonical_json_contract_digest self
      then Inl (CanonicalContractDrift (canonical_json_contract_digest self)
                  (dp_canonical_json_contract_digest provenance))
      else if \<not> is_the_same_contract_as (command_contract self) (dp_command_contract provenance)
      then Inl CommandContractDrift
      else Inr ())"

definition provenance_of :: "expected_provenance \<Rightarrow> document_provenance" where
  "provenance_of self =
     \<lparr>dp_canonical_json_contract_digest = canonical_json_contract_digest self,
      dp_command_contract = command_contract self, dp_format = AGENT_FORMAT,
      dp_transport_contract_digest = transport_contract_digest self\<rparr>"

lemma same_contract_iff [simp]: "is_the_same_contract_as a b \<longleftrightarrow> a = b"
  by (cases a; cases b) (auto simp: is_the_same_contract_as_def)

lemma require_matching_Inr: "require_matching e p = Inr () \<longleftrightarrow> p = provenance_of e"
  by (cases p) (auto simp: require_matching_def provenance_of_def)

lemma require_matching_provenance [simp]: "require_matching e (provenance_of e) = Inr ()"
  by (simp add: require_matching_Inr)

section \<open>Events of one job\<close>

datatype job_event_kind =
  EventAccepted | EventStarted | EventProgress | EventSucceeded | EventFailed

fun kind_is_terminal :: "job_event_kind \<Rightarrow> bool" where
  "kind_is_terminal EventSucceeded = True"
| "kind_is_terminal EventFailed = True"
| "kind_is_terminal _ = False"

record terminal_correlation =
  correlated_provenance :: document_provenance
  correlated_command_digest :: string

datatype job_disposition =
  Applied | ExactReplay | StaleCursorOnly | NeedsSnapshot | IntegrityConflictNeedsReconciliation

fun changed_state :: "job_disposition \<Rightarrow> bool" where
  "changed_state Applied = True"
| "changed_state _ = False"

fun needs_authority :: "job_disposition \<Rightarrow> bool" where
  "needs_authority NeedsSnapshot = True"
| "needs_authority IntegrityConflictNeedsReconciliation = True"
| "needs_authority _ = False"

datatype reducer_refusal =
  AnotherJob
| AnotherRevision string string
| AnotherSubmission
| Provenance wire_refusal
| CorrelationMisplaced
| Job remote_job_failure

record association_binding =
  binding_provenance :: expected_provenance
  binding_environment_revision :: string
  binding_command_digest :: string

record observed_job_event =
  event_attempt :: u64
  event_correlation :: "terminal_correlation option"
  event_kind :: job_event_kind
  event_progress :: u64
  event_environment_revision :: string
  event_sequence :: u64

definition described_state :: "observed_job_event \<Rightarrow> agent_job_state" where
  "described_state e = (case event_kind e of
     EventAccepted \<Rightarrow> JobQueued
   | EventStarted \<Rightarrow> JobRunning
   | EventProgress \<Rightarrow> JobRunning
   | EventSucceeded \<Rightarrow> JobSucceeded
   | EventFailed \<Rightarrow> JobFailed)"

record retained_job =
  observation :: remote_job_observation
  snapshot_watermark :: u64

definition require_bound ::
  "association_binding \<Rightarrow> observed_job_event \<Rightarrow> reducer_refusal + unit" where
  "require_bound binding event =
     (if event_environment_revision event \<noteq> binding_environment_revision binding
      then Inl (AnotherRevision (binding_environment_revision binding)
                  (event_environment_revision event))
      else (case (event_correlation event, kind_is_terminal (event_kind event)) of
              (Some correlation, True) \<Rightarrow>
                (case require_matching (binding_provenance binding)
                        (correlated_provenance correlation) of
                   Inl refusal \<Rightarrow> Inl (Provenance refusal)
                 | Inr _ \<Rightarrow>
                     if correlated_command_digest correlation \<noteq> binding_command_digest binding
                     then Inl AnotherSubmission else Inr ())
            | (None, False) \<Rightarrow> Inr ()
            | (None, True) \<Rightarrow> Inl CorrelationMisplaced
            | (Some _, False) \<Rightarrow> Inl CorrelationMisplaced))"

definition replay_disposition :: "retained_job \<Rightarrow> observed_job_event \<Rightarrow> job_disposition" where
  "replay_disposition retained event =
     (let held = observation retained;
          same = state held = described_state event \<and> attempt held = event_attempt event \<and>
                 progress held = event_progress event
      in if same then ExactReplay else IntegrityConflictNeedsReconciliation)"

definition reduce ::
  "retained_job option \<Rightarrow> association_binding \<Rightarrow> observed_job_event \<Rightarrow>
     reducer_refusal + (job_disposition \<times> remote_job_observation option)" where
  "reduce retained_option binding event =
     (case retained_option of
        None \<Rightarrow> Inr (StaleCursorOnly, None)
      | Some retained \<Rightarrow>
          bindE (require_bound binding event) (\<lambda>_.
            let applied = applied_sequence (observation retained) in
            if event_sequence event = applied then Inr (replay_disposition retained event, None)
            else if \<not> follows (event_sequence event) applied then Inr (StaleCursorOnly, None)
            else if \<not> immediately_follows (event_sequence event) applied
            then Inr (NeedsSnapshot, None)
            else (case advanced (observation retained) (described_state event)
                         (event_sequence event) (event_attempt event) (event_progress event) of
                    Inl failure \<Rightarrow> Inl (Job failure)
                  | Inr observation' \<Rightarrow> Inr (Applied, Some observation'))))"

text \<open>The parts of a decoded event the reducer reads; the decoder that produces it is modelled
  with the event stream.\<close>

record decoded_job_event =
  decoded_generation :: u64
  decoded_operation :: string
  decoded_kind :: job_event_kind
  decoded_sequence :: u64
  decoded_attempt :: "u64 option"
  decoded_progress :: "u64 option"
  decoded_terminal :: "terminal_correlation option"

definition reduce_decoded ::
  "retained_job \<Rightarrow> association_binding \<Rightarrow> u64 \<Rightarrow> string \<Rightarrow> decoded_job_event \<Rightarrow>
     reducer_refusal + (job_disposition \<times> remote_job_observation option)" where
  "reduce_decoded retained binding generation agent_operation_identifier event =
     (if decoded_generation event \<noteq> generation \<or>
         decoded_operation event \<noteq> agent_operation_identifier
      then Inl AnotherJob
      else let observed = \<lparr>
             event_attempt = case_option (attempt (observation retained)) id (decoded_attempt event),
             event_correlation = decoded_terminal event,
             event_kind = decoded_kind event,
             event_progress = case_option (progress (observation retained)) id
                                (decoded_progress event),
             event_environment_revision = binding_environment_revision binding,
             event_sequence = decoded_sequence event\<rparr>
           in reduce (Some retained) binding observed)"

text \<open>What a caller holds after one decoded event: a refusal and a disposition without an
  observation leave the job as it was.\<close>

definition after_event ::
  "association_binding \<Rightarrow> u64 \<Rightarrow> string \<Rightarrow> retained_job \<Rightarrow> decoded_job_event \<Rightarrow>
     reducer_refusal + retained_job" where
  "after_event binding generation operation retained event =
     (case reduce_decoded retained binding generation operation event of
        Inl refusal \<Rightarrow> Inl refusal
      | Inr (_, None) \<Rightarrow> Inr retained
      | Inr (_, Some observation') \<Rightarrow> Inr (retained\<lparr>observation := observation'\<rparr>))"

section \<open>The subscription\<close>

datatype subscription_disposition =
  SubscriptionAdvanced | SubscriptionExactReplay | SubscriptionStale | SubscriptionConflict

fun permits_streaming :: "subscription_disposition \<Rightarrow> bool" where
  "permits_streaming SubscriptionConflict = False"
| "permits_streaming _ = True"

datatype fold_refusal = AnotherSubscription | AnotherGeneration u64 u64

record subscription_fact =
  fact_generation :: u64
  fact_digest :: string
  fact_cursor :: event_stream_cursor
  fact_subscription :: string

record subscription_fold =
  fold_digest :: "string option"
  fold_cursor :: "event_stream_cursor option"
  fold_generation :: u64
  fold_subscription :: string

definition opened :: "string \<Rightarrow> u64 \<Rightarrow> subscription_fold" where
  "opened subscription generation = \<lparr>fold_digest = None, fold_cursor = None,
     fold_generation = generation, fold_subscription = subscription\<rparr>"

definition taking :: "subscription_fold \<Rightarrow> subscription_fact \<Rightarrow> subscription_fold" where
  "taking self given = \<lparr>fold_digest = Some (fact_digest given),
     fold_cursor = Some (fact_cursor given), fold_generation = fold_generation self,
     fold_subscription = fold_subscription self\<rparr>"

definition folded ::
  "subscription_fold \<Rightarrow> subscription_fact \<Rightarrow>
     fold_refusal + (subscription_disposition \<times> subscription_fold)" where
  "folded self given =
     (if fact_subscription given \<noteq> fold_subscription self then Inl AnotherSubscription
      else if fact_generation given \<noteq> fold_generation self
      then Inl (AnotherGeneration (fold_generation self) (fact_generation given))
      else (case fold_cursor self of
              None \<Rightarrow> Inr (SubscriptionAdvanced, taking self given)
            | Some held \<Rightarrow>
                if fact_cursor given > held then Inr (SubscriptionAdvanced, taking self given)
                else if fact_cursor given < held then Inr (SubscriptionStale, self)
                else if fold_digest self = Some (fact_digest given)
                then Inr (SubscriptionExactReplay, self)
                else Inr (SubscriptionConflict, self)))"

definition after_fact ::
  "subscription_fold \<Rightarrow> subscription_fact \<Rightarrow> fold_refusal + subscription_fold" where
  "after_fact self given = map_sum id snd (folded self given)"

section \<open>The job fold\<close>

lemma require_bound_Inr:
  "require_bound binding event = Inr () \<longleftrightarrow>
     event_environment_revision event = binding_environment_revision binding \<and>
     (if kind_is_terminal (event_kind event)
      then event_correlation event =
             Some \<lparr>correlated_provenance = provenance_of (binding_provenance binding),
                   correlated_command_digest = binding_command_digest binding\<rparr>
      else event_correlation event = None)"
  by (cases "event_correlation event")
    (auto simp: require_bound_def require_matching_Inr split: sum.splits bool.splits)

lemma next_sequence:
  "follows q held \<Longrightarrow> immediately_follows q held \<Longrightarrow> unat q = Suc (unat held)"
  by (simp add: follows_def immediately_follows_def saturating_add_one_eq)

lemma reduce_Some:
  assumes "reduce (Some retained) binding event = Inr (d, Some observation')"
  shows "d = Applied \<and> require_bound binding event = Inr () \<and>
    unat (event_sequence event) = Suc (unat (applied_sequence (observation retained))) \<and>
    observation_advances (observation retained) observation' \<and>
    observation' = \<lparr>applied_sequence = event_sequence event, attempt = event_attempt event,
      progress = event_progress event, state = described_state event\<rparr>"
  using assms
  by (auto simp: reduce_def bindE_eq_Inr Let_def advanced_Inr next_sequence
      split: if_splits sum.splits)

lemma reduce_changed_state:
  "reduce retained binding event = Inr (d, x) \<Longrightarrow> changed_state d \<longleftrightarrow> x \<noteq> None"
  by (auto simp: reduce_def bindE_eq_Inr Let_def replay_disposition_def
      split: if_splits sum.splits option.splits)

definition retained_advances :: "retained_job \<Rightarrow> retained_job \<Rightarrow> bool" where
  "retained_advances r r' \<longleftrightarrow>
     observation_advances (observation r) (observation r') \<and>
     applied_sequence (observation r) \<le> applied_sequence (observation r') \<and>
     snapshot_watermark r' = snapshot_watermark r"

lemma after_event_Inr:
  assumes "after_event binding generation operation r event = Inr r'"
  shows "r' = r \<or>
    unat (applied_sequence (observation r')) = Suc (unat (applied_sequence (observation r))) \<and>
    observation_advances (observation r) (observation r') \<and>
    snapshot_watermark r' = snapshot_watermark r"
  using assms
  by (auto simp: after_event_def reduce_decoded_def Let_def split: sum.splits option.splits
      if_splits prod.splits dest: reduce_Some)

interpretation job_fold: guarded_machine "after_event binding generation operation" "\<lambda>_. True"
  retained_advances
  for binding generation operation
proof
  show "retained_advances r r'" if "after_event binding generation operation r event = Inr r'"
    for r r' event
    using after_event_Inr [OF that]
    by (auto simp: retained_advances_def word_le_nat_alt)
qed (auto simp: retained_advances_def intro: observation_advances_trans)

lemma retained_advances_ending:
  "retained_advances r r' \<Longrightarrow> job_is_terminal (state (observation r)) \<Longrightarrow>
     state (observation r') = state (observation r)"
  by (simp add: retained_advances_def observation_advances_def job_terminal_may_become)

text \<open>How many events of a delivery moved the job.\<close>

fun moves ::
  "association_binding \<Rightarrow> u64 \<Rightarrow> string \<Rightarrow> retained_job \<Rightarrow> decoded_job_event list \<Rightarrow> nat" where
  "moves binding generation operation r [] = 0"
| "moves binding generation operation r (e # es) =
     (let r' = offerE (after_event binding generation operation) r e
      in (if observation r' = observation r then 0 else 1) +
           moves binding generation operation r' es)"

section \<open>The subscription fold\<close>

text \<open>The specification: of everything delivered, a subscription sits at the highest position,
  with the first account of it.\<close>

definition relevant :: "string \<Rightarrow> u64 \<Rightarrow> subscription_fact list \<Rightarrow> subscription_fact list" where
  "relevant subscription generation =
     filter (\<lambda>f. fact_subscription f = subscription \<and> fact_generation f = generation)"

definition first_at_highest :: "subscription_fact list \<Rightarrow> subscription_fact option" where
  "first_at_highest fs = find (\<lambda>f. \<forall>g \<in> set fs. fact_cursor g \<le> fact_cursor f) fs"

definition folded_from :: "string \<Rightarrow> u64 \<Rightarrow> subscription_fact list \<Rightarrow> subscription_fold" where
  "folded_from subscription generation fs =
     (case first_at_highest fs of
        None \<Rightarrow> opened subscription generation
      | Some f \<Rightarrow> taking (opened subscription generation) f)"

lemma first_at_highest_Nil [simp]: "first_at_highest [] = None"
  by (simp add: first_at_highest_def)

lemma first_at_highest_Some:
  "first_at_highest fs = Some f \<Longrightarrow> f \<in> set fs \<and> (\<forall>g \<in> set fs. fact_cursor g \<le> fact_cursor f)"
  by (auto simp: first_at_highest_def find_Some_iff in_set_conv_nth)

lemma first_at_highest_ex:
  assumes "fs \<noteq> []" shows "\<exists>f. first_at_highest fs = Some f"
proof -
  have "\<exists>f \<in> set fs. \<forall>g \<in> set fs. fact_cursor g \<le> fact_cursor f"
    using assms
  proof (induction fs rule: list_nonempty_induct)
    case (cons x xs)
    then obtain f where f: "f \<in> set xs" "\<forall>g \<in> set xs. fact_cursor g \<le> fact_cursor f" by blast
    show ?case
      using f by (cases "fact_cursor x \<le> fact_cursor f") (auto intro: order_trans)
  qed simp
  then have "first_at_highest fs \<noteq> None"
    unfolding first_at_highest_def find_None_iff by blast
  then show ?thesis by blast
qed

lemma find_snoc:
  "find P (xs @ [x]) = (case find P xs of None \<Rightarrow> if P x then Some x else None | Some y \<Rightarrow> Some y)"
  by (induction xs) auto

lemma find_cong_set: "(\<And>x. x \<in> set xs \<Longrightarrow> P x = Q x) \<Longrightarrow> find P xs = find Q xs"
  by (induction xs) auto

lemma first_at_highest_snoc:
  "first_at_highest (fs @ [x]) =
     (case first_at_highest fs of None \<Rightarrow> Some x
      | Some f \<Rightarrow> if fact_cursor f < fact_cursor x then Some x else Some f)"
proof (cases "first_at_highest fs")
  case None
  then have "fs = []" using first_at_highest_ex by fastforce
  then show ?thesis by (simp add: first_at_highest_def)
next
  case (Some f)
  note high = first_at_highest_Some [OF Some]
  let ?P = "\<lambda>f. \<forall>g \<in> set (fs @ [x]). fact_cursor g \<le> fact_cursor f"
  show ?thesis
  proof (cases "fact_cursor f < fact_cursor x")
    case True
    then have none: "find ?P fs = None" and px: "?P x"
      using high by (auto simp: find_None_iff intro: order_trans less_imp_le)
    then show ?thesis using Some True by (simp add: first_at_highest_def [of "fs @ [x]"] find_snoc)
  next
    case False
    have "?P h \<longleftrightarrow> (\<forall>g \<in> set fs. fact_cursor g \<le> fact_cursor h)" if "h \<in> set fs" for h
      using high False that by (auto simp: not_less intro: order_trans)
    then have "find ?P fs = find (\<lambda>f. \<forall>g \<in> set fs. fact_cursor g \<le> fact_cursor f) fs"
      by (rule find_cong_set)
    then have "find ?P fs = Some f" using Some by (simp add: first_at_highest_def)
    then show ?thesis using Some False
      by (simp add: first_at_highest_def [of "fs @ [x]"] find_snoc)
  qed
qed

lemma folded_step:
  assumes "fact_subscription x = subscription" "fact_generation x = generation"
  shows "offerE after_fact (folded_from subscription generation fs) x =
    folded_from subscription generation (fs @ [x])"
  using assms
  by (cases "first_at_highest fs")
    (auto simp: offerE_def after_fact_def folded_def folded_from_def first_at_highest_snoc
      opened_def taking_def)

lemma folded_from_identity:
  "fold_subscription (folded_from subscription generation fs) = subscription"
  "fold_generation (folded_from subscription generation fs) = generation"
  by (auto simp: folded_from_def opened_def taking_def split: option.split)

lemma folded_other:
  "\<not> (fact_subscription x = fold_subscription s \<and> fact_generation x = fold_generation s) \<Longrightarrow>
     offerE after_fact s x = s"
  by (auto simp: offerE_def after_fact_def folded_def)

section \<open>Properties\<close>

text \<open>C6: An event moves a job only if everything about it agrees: its revision is the one the
  operation was submitted under, an ending carries the exact provenance and command digest of
  that submission and nothing else carries a correlation, and it is the very next event of the
  job's own sequence.  What the job then becomes is what the event describes, and it is an
  advance: out of no ending, not back to the queue, with counters that do not fall.\<close>

theorem applied_event_is_bound_and_next:
  assumes "reduce (Some retained) binding event = Inr (d, Some observation')"
  shows "event_environment_revision event = binding_environment_revision binding \<and>
    (if kind_is_terminal (event_kind event)
     then event_correlation event =
            Some \<lparr>correlated_provenance = provenance_of (binding_provenance binding),
                  correlated_command_digest = binding_command_digest binding\<rparr>
     else event_correlation event = None) \<and>
    unat (event_sequence event) = Suc (unat (applied_sequence (observation retained))) \<and>
    applied_sequence observation' = event_sequence event \<and>
    state observation' = described_state event \<and>
    observation_advances (observation retained) observation'"
  using reduce_Some [OF assms] by (auto simp: require_bound_Inr)

definition sample_binding :: association_binding where
  "sample_binding = \<lparr>binding_provenance = \<lparr>canonical_json_contract_digest = ''c'',
     command_contract = \<lparr>argument_schema_digest = ''a'', command_contract_limits_digest = ''l'',
       command_semantic_contract_version = ''1'', command_wire_name = ''query_paths'',
       result_schema_digest = ''r''\<rparr>, transport_contract_digest = ''t''\<rparr>,
     binding_environment_revision = ''env'', binding_command_digest = ''d''\<rparr>"

definition sample_event :: observed_job_event where
  "sample_event = \<lparr>event_attempt = 1, event_correlation = None, event_kind = EventStarted,
     event_progress = 0, event_environment_revision = ''env'', event_sequence = 2\<rparr>"

theorem applied_event_is_bound_and_next_witness:
  "reduce (Some \<lparr>observation = accepted, snapshot_watermark = 0\<rparr>) sample_binding sample_event =
     Inr (Applied, Some \<lparr>applied_sequence = 2, attempt = 1, progress = 0, state = JobRunning\<rparr>) \<and>
   unat (event_sequence sample_event) = Suc (unat (applied_sequence accepted))"
proof -
  have r: "reduce (Some \<lparr>observation = accepted, snapshot_watermark = 0\<rparr>) sample_binding
      sample_event =
      Inr (Applied, Some \<lparr>applied_sequence = 2, attempt = 1, progress = 0, state = JobRunning\<rparr>)"
    by (simp add: reduce_def require_bound_def sample_binding_def sample_event_def accepted_def
        follows_def immediately_follows_def saturating_add_def advanced_def
        require_advanceable_def described_state_def)
  have "unat (event_sequence sample_event) =
      Suc (unat (applied_sequence (observation \<lparr>observation = accepted, snapshot_watermark = 0\<rparr>)))"
    using applied_event_is_bound_and_next [OF r] by blast
  then have "unat (event_sequence sample_event) = Suc (unat (applied_sequence accepted))"
    by (simp only: retained_job.simps)
  with r show ?thesis by (rule conjI)
qed

text \<open>C5: However events are delivered - replayed, reordered, with gaps, of other jobs - a job's
  applied sequence is where it started plus one for every event that moved it, so no event of
  the sequence is ever skipped; counters never fall, and a job that has ended keeps its ending.\<close>

theorem job_history_has_no_gap:
  "unat (applied_sequence (observation (history (after_event b g op) r es))) =
     unat (applied_sequence (observation r)) + moves b g op r es \<and>
   retained_advances r (history (after_event b g op) r es) \<and>
   (job_is_terminal (state (observation r)) \<longrightarrow>
      state (observation (history (after_event b g op) r es)) = state (observation r))"
proof -
  have "unat (applied_sequence (observation (history (after_event b g op) r es))) =
     unat (applied_sequence (observation r)) + moves b g op r es"
  proof (induction es arbitrary: r)
    case (Cons e es)
    have "unat (applied_sequence (observation (offerE (after_event b g op) r e))) =
        unat (applied_sequence (observation r)) +
        (if observation (offerE (after_event b g op) r e) = observation r then 0 else 1)"
      using after_event_Inr [of b g op r e] by (fastforce simp: offerE_def split: sum.split)
    with Cons.IH [of "offerE (after_event b g op) r e"] show ?case by (simp add: Let_def)
  qed simp
  moreover have "retained_advances r (history (after_event b g op) r es)"
    using job_fold.history_keeps by blast
  ultimately show ?thesis using retained_advances_ending by blast
qed

definition sample_restart :: decoded_job_event where
  "sample_restart = \<lparr>decoded_generation = 1, decoded_operation = ''op'',
     decoded_kind = EventStarted, decoded_sequence = 2, decoded_attempt = None,
     decoded_progress = None, decoded_terminal = None\<rparr>"

theorem job_history_has_no_gap_witness:
  "state (observation (history (after_event sample_binding 1 ''op'')
     \<lparr>observation = accepted\<lparr>state := JobSucceeded\<rparr>, snapshot_watermark = 0\<rparr>
     [sample_restart])) = JobSucceeded"
  using job_history_has_no_gap [of sample_binding 1 "''op''"
      "\<lparr>observation = accepted\<lparr>state := JobSucceeded\<rparr>, snapshot_watermark = 0\<rparr>"
      "[sample_restart]"]
  by simp

text \<open>C7: Whatever order a subscription's events arrive in, with whatever duplicates, conflicting
  accounts and events of other subscriptions and generations between them, the fold ends
  exactly where the highest delivered position of its own subscription and generation is,
  holding the first account that was delivered of that position.\<close>

theorem subscription_fold_is_highest_first_account:
  "history after_fact (opened subscription generation) facts =
     (case first_at_highest (relevant subscription generation facts) of
        None \<Rightarrow> opened subscription generation
      | Some f \<Rightarrow> taking (opened subscription generation) f)"
proof -
  have "history after_fact (opened subscription generation) facts =
      folded_from subscription generation (relevant subscription generation facts)"
  proof (induction facts rule: rev_induct)
    case Nil
    show ?case by (simp add: folded_from_def relevant_def)
  next
    case (snoc x xs)
    show ?case
    proof (cases "fact_subscription x = subscription \<and> fact_generation x = generation")
      case True
      then show ?thesis using snoc folded_step by (simp add: relevant_def)
    next
      case False
      have "offerE after_fact (folded_from subscription generation
          (relevant subscription generation xs)) x =
          folded_from subscription generation (relevant subscription generation xs)"
        by (rule folded_other) (use False in \<open>simp add: folded_from_identity\<close>)
      moreover have "relevant subscription generation (xs @ [x]) =
          relevant subscription generation xs"
        using False by (auto simp: relevant_def)
      ultimately show ?thesis using snoc by simp
    qed
  qed
  then show ?thesis by (simp add: folded_from_def)
qed

end
