(* ===== verification/Hpack_Integer.thy ===== *)
theory Hpack_Integer
  imports Slingshot_Prelude
begin

unbundle bit_operations_syntax

text \<open>
  The incremental prefix integers of \<open>slingshot-agent-connection/src/selected_author_hpack_integer.rs\<close>.
  The record keeps the fields of \<open>PrefixedInteger\<close> and each method every early return, with the
  state the return leaves behind.  The main theorem says exactly which octets decode and to what
  value, at the full 64 bits, and the round trip shows that every value has an encoding.
\<close>

datatype integer_refusal = IntegerRefusal

record prefixed_integer =
  int_maximum :: u64
  int_value :: u64
  int_shift :: u32
  int_complete :: bool
  int_poisoned :: bool
  int_limit_exceeded :: bool

definition integer_start :: "byte \<Rightarrow> byte \<Rightarrow> u64 \<Rightarrow> integer_refusal + prefixed_integer" where
  "integer_start first prefix_bits maximum =
     (if \<not> (1 \<le> prefix_bits \<and> prefix_bits \<le> 8) then Inl IntegerRefusal
      else let mask = (push_bit (unat prefix_bits) 1 :: u16) - 1;
               value = (ucast (ucast first AND mask) :: u64)
           in if value > maximum then Inl IntegerRefusal
              else Inr \<lparr>int_maximum = maximum, int_value = value, int_shift = 0,
                        int_complete = value < ucast mask, int_poisoned = False,
                        int_limit_exceeded = False\<rparr>)"

definition integer_value :: "prefixed_integer \<Rightarrow> u64 option" where
  "integer_value self =
     (if int_complete self \<and> \<not> int_poisoned self then Some (int_value self) else None)"

text \<open>\<open>1_u64.checked_shl(shift)\<close>.\<close>

definition checked_shl_one :: "u32 \<Rightarrow> u64 option" where
  "checked_shl_one shift = (if shift < 64 then Some (push_bit (unat shift) 1) else None)"

definition integer_push :: "byte \<Rightarrow> (prefixed_integer, integer_refusal, u64 option) receiver" where
  "integer_push byte self =
     (if int_poisoned self \<or> int_complete self
      then (self\<lparr>int_poisoned := True\<rparr>, Inl IntegerRefusal)
      else let self = self\<lparr>int_poisoned := True\<rparr> in
        (case checked_shl_one (int_shift self) of
           None \<Rightarrow> (self, Inl IntegerRefusal)
         | Some scale \<Rightarrow>
        (case checked_mul (ucast (byte AND 0x7f)) scale of
           None \<Rightarrow> (self, Inl IntegerRefusal)
         | Some increment \<Rightarrow>
        (case checked_add (int_value self) increment of
           None \<Rightarrow> (self, Inl IntegerRefusal)
         | Some value \<Rightarrow>
           if value > int_maximum self
           then (self\<lparr>int_limit_exceeded := True\<rparr>, Inl IntegerRefusal)
           else let self = self\<lparr>int_value := value, int_complete := byte AND 0x80 = 0\<rparr> in
             if int_complete self
             then let self = self\<lparr>int_poisoned := False\<rparr> in (self, Inr (integer_value self))
             else (case checked_add (int_shift self) 7 of
                     None \<Rightarrow> (self, Inl IntegerRefusal)
                   | Some shift \<Rightarrow>
                       if shift < 64
                       then let self = self\<lparr>int_shift := shift, int_poisoned := False\<rparr>
                            in (self, Inr (integer_value self))
                       else (self, Inl IntegerRefusal))))))"

definition integer_finish :: "prefixed_integer \<Rightarrow> integer_refusal + u64" where
  "integer_finish self = (case integer_value self of None \<Rightarrow> Inl IntegerRefusal | Some v \<Rightarrow> Inr v)"

text \<open>A whole representation: the first octet, then the continuation octets one at a time, then
  the end of the representation.\<close>

definition decode_integer :: "byte \<Rightarrow> byte \<Rightarrow> u64 \<Rightarrow> byte list \<Rightarrow> integer_refusal + u64" where
  "decode_integer first prefix_bits maximum bytes =
     bindE (integer_start first prefix_bits maximum) (\<lambda>integer.
       case feed integer_push integer bytes of
         (_, Inl refusal) \<Rightarrow> Inl refusal
       | (integer', Inr _) \<Rightarrow> integer_finish integer')"

section \<open>What a representation means\<close>

text \<open>The value of continuation octets that start at one bit position, as RFC 7541 section 5.1
  gives it, over unbounded numbers.\<close>

fun tail_value :: "nat \<Rightarrow> byte list \<Rightarrow> nat" where
  "tail_value k [] = 0"
| "tail_value k (b # bs) = (unat b mod 128) * 2 ^ k + tail_value (k + 7) bs"

text \<open>Every octet but the last announces another, and the last does not.\<close>

fun terminated :: "byte list \<Rightarrow> bool" where
  "terminated [] = False"
| "terminated [b] = (unat b < 128)"
| "terminated (b # bs) = (128 \<le> unat b \<and> terminated bs)"

fun encode_tail :: "nat \<Rightarrow> byte list" where
  "encode_tail n =
     (if n < 128 then [of_nat n] else of_nat (n mod 128 + 128) # encode_tail (n div 128))"

declare encode_tail.simps [simp del]

text \<open>The encoder of RFC 7541: the bits of the first octet outside the prefix are zero.\<close>

definition encode_integer :: "nat \<Rightarrow> u64 \<Rightarrow> byte \<times> byte list" where
  "encode_integer n v =
     (if unat v < 2 ^ n - 1 then (of_nat (unat v), [])
      else (of_nat (2 ^ n - 1), encode_tail (unat v - (2 ^ n - 1))))"

section \<open>The machine over unbounded numbers\<close>

lemma unat_and_7f: "unat (b AND 0x7f) = unat b mod 128" for b :: byte
proof -
  have "b AND 0x7f = take_bit 7 b"
    by (simp add: take_bit_eq_mask mask_numeral)
  then have "b AND 0x7f = b mod 128" by (simp add: take_bit_eq_mod)
  then show ?thesis by (simp add: unat_mod)
qed

lemma and_80_zero: "(b AND 0x80 = 0) \<longleftrightarrow> unat b < 128" for b :: byte
proof -
  have "b AND 0x80 = 0 \<longleftrightarrow> \<not> bit b 7"
    using and_exp_eq_0_iff_not_bit [of b 7] by simp
  moreover have "bit b 7 \<longleftrightarrow> bit (unat b) 7" by (simp add: bit_unsigned_iff)
  moreover have "bit (unat b) 7 \<longleftrightarrow> odd (unat b div 128)" by (simp add: bit_iff_odd)
  moreover have "unat b div 128 = 1" if "128 \<le> unat b"
    using that unsigned_less [of b, where 'a = nat] by (intro div_nat_eqI) simp_all
  ultimately show ?thesis by (cases "unat b < 128") simp_all
qed

lemma unat_ucast_7f: "unat (ucast (b AND 0x7f :: byte) :: u64) = unat b mod 128"
  by (simp add: unsigned_ucast_eq take_bit_eq_mod unat_and_7f)

lemma unat_exp_u64: "k < 64 \<Longrightarrow> unat ((2::u64) ^ k) = 2 ^ k"
proof -
  assume "k < 64"
  then have "2 ^ k mod 2 ^ LENGTH(64) = (2::nat) ^ k"
    by (intro mod_less power_strict_increasing) simp_all
  moreover have "unat (of_nat (2 ^ k) :: u64) = 2 ^ k mod 2 ^ LENGTH(64)" by (rule unat_of_nat)
  ultimately show ?thesis by simp
qed

lemma of_nat_eqI: "unat w = n \<Longrightarrow> of_nat n = w"
  by auto

text \<open>One continuation octet, on the reader's live states.\<close>

lemma integer_push_live:
  fixes b :: byte and p :: prefixed_integer
  defines "v \<equiv> \<lambda>k. unat (int_value p) + (unat b mod 128) * 2 ^ k"
  assumes live: "\<not> int_poisoned p" "\<not> int_complete p" "unat (int_shift p) = k" "k < 64"
  shows "if v k \<le> unat (int_maximum p) \<and> (unat b < 128 \<or> k + 7 < 64)
    then integer_push b p =
      (p\<lparr>int_value := of_nat (v k), int_complete := unat b < 128,
         int_shift := if unat b < 128 then int_shift p else int_shift p + 7\<rparr>,
       Inr (if unat b < 128 then Some (of_nat (v k)) else None))
    else \<not> is_ok (snd (integer_push b p))"
proof -
  let ?inc = "(unat b mod 128) * 2 ^ k"
  have shl: "checked_shl_one (int_shift p) = Some (2 ^ k)"
    using live by (simp add: checked_shl_one_def word_less_nat_alt)
  have small: "unat (int_maximum p) < 2 ^ 64"
    using unsigned_less [of "int_maximum p", where 'a = nat] by simp
  have sh: "unat (int_shift p + 7) = k + 7" and shok: "checked_add (int_shift p) 7 = Some (int_shift p + 7)"
    using live(3,4) by (simp_all add: unat_word_ariths checked_add_def)
  have mul: "checked_mul (ucast (b AND 0x7f)) ((2::u64) ^ k) =
      (if ?inc < 2 ^ 64 then Some (of_nat ?inc) else None)"
  proof -
    have "ucast (b AND 0x7f) * (2::u64) ^ k = of_nat ?inc"
      by (subst word_arith_nat_mult) (simp only: unat_ucast_7f unat_exp_u64 [OF live(4)])
    then show ?thesis
      by (simp add: checked_mul_def unat_ucast_7f unat_exp_u64 [OF live(4)] del: of_nat_mult)
  qed
  have add: "checked_add (int_value p) (of_nat ?inc) =
      (if v k < 2 ^ 64 then Some (of_nat (v k)) else None)" if "?inc < 2 ^ 64"
  proof -
    have inc: "unat (of_nat ?inc :: u64) = ?inc" using that by (simp add: unat_of_nat del: of_nat_mult)
    have "int_value p + of_nat ?inc = of_nat (v k)"
      by (subst word_arith_nat_add) (simp only: inc v_def)
    then show ?thesis by (simp add: checked_add_def inc v_def del: of_nat_mult of_nat_add)
  qed
  have gt: "(of_nat (v k) > int_maximum p) \<longleftrightarrow> v k > unat (int_maximum p)" if "v k < 2 ^ 64"
    using that by (simp add: word_less_nat_alt unat_of_nat)
  consider (big_inc) "\<not> ?inc < 2 ^ 64" | (big) "?inc < 2 ^ 64" "\<not> v k < 2 ^ 64" | (fits) "?inc < 2 ^ 64" "v k < 2 ^ 64"
    by blast
  then show ?thesis
  proof cases
    case big_inc
    then have "\<not> v k \<le> unat (int_maximum p)" using small by (simp add: v_def)
    then show ?thesis using live big_inc by (simp add: integer_push_def Let_def shl mul)
  next
    case big
    then have "\<not> v k \<le> unat (int_maximum p)" using small by simp
    then show ?thesis using live big by (simp add: integer_push_def Let_def shl mul add del: of_nat_mult)
  next
    case fits
    have un: "unat (of_nat (v k) :: u64) = v k"
      using fits by (simp add: unat_of_nat del: of_nat_add of_nat_mult)
    have sm: "unat (int_shift p + 7) < 64 \<longleftrightarrow> k + 7 < 64" by (simp only: sh)
    show ?thesis using live fits
      by (simp add: integer_push_def Let_def shl mul add gt [OF fits(2)] and_80_zero shok
          integer_value_def word_less_nat_alt sm un del: of_nat_add of_nat_mult)
  qed
qed

text \<open>The end of a representation, after its continuation octets.\<close>

definition finish_after :: "prefixed_integer \<Rightarrow> byte list \<Rightarrow> integer_refusal + u64" where
  "finish_after p bs =
     (case feed integer_push p bs of (_, Inl e) \<Rightarrow> Inl e | (p', Inr _) \<Rightarrow> integer_finish p')"

lemma finish_after_Cons:
  "finish_after p (b # bs) =
     (case integer_push b p of (_, Inl e) \<Rightarrow> Inl e | (p', Inr _) \<Rightarrow> finish_after p' bs)"
  by (auto simp: finish_after_def split: prod.splits sum.splits)

lemma finish_after_complete:
  "int_complete p \<Longrightarrow> \<not> int_poisoned p \<Longrightarrow>
     finish_after p bs = Inr w \<longleftrightarrow> bs = [] \<and> w = int_value p"
  by (cases bs)
    (auto simp: finish_after_def integer_push_def integer_finish_def integer_value_def)

lemma tail_value_mono: "unat b mod 128 * 2 ^ k \<le> tail_value k (b # bs)"
  by simp

lemma finish_after_live:
  assumes "\<not> int_poisoned p" "\<not> int_complete p" "unat (int_shift p) = k" "k < 64"
  shows "finish_after p bs = Inr w \<longleftrightarrow>
    terminated bs \<and> k + 7 * length bs < 71 \<and>
    unat w = unat (int_value p) + tail_value k bs \<and> w \<le> int_maximum p"
  using assms
proof (induction bs arbitrary: p k)
  case Nil
  then show ?case by (simp add: finish_after_def integer_finish_def integer_value_def)
next
  case (Cons b bs)
  let ?v = "unat (int_value p) + (unat b mod 128) * 2 ^ k"
  note step = integer_push_live [OF Cons.prems, of b]
  show ?case
  proof (cases "?v \<le> unat (int_maximum p) \<and> (unat b < 128 \<or> k + 7 < 64)")
    case False
    have "\<not> is_ok (snd (integer_push b p))" using step unfolding if_not_P [OF False] by blast
    then have "finish_after p (b # bs) \<noteq> Inr w"
      by (auto simp: finish_after_Cons split: prod.splits sum.splits)
    moreover have "\<not> (terminated (b # bs) \<and> k + 7 * length (b # bs) < 71 \<and>
        unat w = unat (int_value p) + tail_value k (b # bs) \<and> w \<le> int_maximum p)"
      using False by (cases bs) (auto simp: word_le_nat_alt)
    ultimately show ?thesis by blast
  next
    case True
    define q where "q = p\<lparr>int_value := of_nat ?v, int_complete := unat b < 128,
         int_shift := if unat b < 128 then int_shift p else int_shift p + 7\<rparr>"
    have push: "integer_push b p = (q, Inr (if unat b < 128 then Some (of_nat ?v) else None))"
      using step True unfolding q_def by (simp only: if_True split: if_splits)
    have "?v < 2 ^ 64"
      using True unsigned_less [of "int_maximum p", where 'a = nat] by simp
    then have un: "unat (of_nat ?v :: u64) = ?v"
      by (simp add: unat_of_nat del: of_nat_add of_nat_mult)
    have q: "\<not> int_poisoned q" "int_complete q = (unat b < 128)" "int_maximum q = int_maximum p"
      "unat (int_value q) = ?v"
      using Cons.prems(1) un by (simp_all add: q_def del: of_nat_add of_nat_mult)
    show ?thesis
    proof (cases "unat b < 128")
      case small: True
      have "finish_after p (b # bs) = Inr w \<longleftrightarrow> bs = [] \<and> w = int_value q"
        using finish_after_complete [of q bs w] q small by (simp add: finish_after_Cons push)
      also have "\<dots> \<longleftrightarrow> bs = [] \<and> unat w = ?v" using q(4) by (metis word_unat_eq_iff)
      finally show ?thesis
        using small True Cons.prems(4) by (cases bs) (auto simp: word_le_nat_alt)
    next
      case big: False
      then have k: "k + 7 < 64" using True by simp
      have "unat (int_shift q) = k + 7"
        using Cons.prems(3) k big by (simp add: q_def unat_word_ariths)
      then have "finish_after q bs = Inr w \<longleftrightarrow>
          terminated bs \<and> (k + 7) + 7 * length bs < 71 \<and>
          unat w = ?v + tail_value (k + 7) bs \<and> w \<le> int_maximum p"
        using Cons.IH [of q "k + 7"] q big k by simp
      then show ?thesis
        using big by (cases bs) (auto simp: finish_after_Cons push)
    qed
  qed
qed

lemma unat_exp_minus_1: "k \<le> LENGTH('a) \<Longrightarrow> unat ((2 :: 'a::len word) ^ k - 1) = 2 ^ k - 1"
proof -
  assume "k \<le> LENGTH('a)"
  then have "(2::nat) ^ k \<le> 2 ^ LENGTH('a)" by (intro power_increasing) simp_all
  moreover have "0 < (2::nat) ^ k" by simp
  ultimately have "unat (of_nat (2 ^ k - 1) :: 'a word) = 2 ^ k - 1"
    unfolding unat_of_nat by (intro mod_less) linarith
  then show ?thesis by (simp add: of_nat_diff)
qed

lemma integer_mask:
  fixes n first :: byte
  assumes "1 \<le> n" "n \<le> 8"
  defines "m \<equiv> (push_bit (unat n) 1 :: u16) - 1"
  shows "unat (ucast (ucast first AND m) :: u64) = unat first mod 2 ^ unat n"
    and "unat (ucast m :: u64) = 2 ^ unat n - 1"
proof -
  let ?n = "unat n"
  have n: "?n \<le> 8" using assms(2) by (simp add: word_le_nat_alt)
  have m: "m = mask ?n" by (simp add: m_def mask_eq_exp_minus_1)
  have small: "(2::nat) ^ ?n \<le> 2 ^ 8" using n by (intro power_increasing) simp_all
  show "unat (ucast (ucast first AND m) :: u64) = unat first mod 2 ^ ?n"
    using n by (simp add: m flip: take_bit_eq_mask)
      (simp add: unsigned_ucast_eq unsigned_take_bit_eq min_def, simp add: take_bit_eq_mod)
  show "unat (ucast m :: u64) = 2 ^ ?n - 1"
    using n small by (simp add: m_def unsigned_ucast_eq unat_exp_minus_1 take_bit_eq_mod)
qed

lemma decode_integer_meaning:
  "decode_integer first n maximum bytes = Inr v \<longleftrightarrow>
     1 \<le> n \<and> n \<le> 8 \<and>
     unat v = unat first mod 2 ^ unat n + tail_value 0 bytes \<and> v \<le> maximum \<and>
     (if unat first mod 2 ^ unat n < 2 ^ unat n - 1 then bytes = []
      else terminated bytes \<and> length bytes \<le> 10)"
proof (cases "1 \<le> n \<and> n \<le> 8")
  case False
  then show ?thesis by (auto simp: decode_integer_def integer_start_def)
next
  case True
  define m :: u64 where "m = ucast ((push_bit (unat n) 1 :: u16) - 1)"
  define u where "u = (ucast (ucast first AND (push_bit (unat n) 1 :: u16) - 1) :: u64)"
  have un: "unat u = unat first mod 2 ^ unat n" and mn: "unat (m :: u64) = 2 ^ unat n - 1"
    using integer_mask [of n] True unfolding u_def m_def by blast+
  let ?p = "\<lparr>int_maximum = maximum, int_value = u, int_shift = 0, int_complete = u < m,
    int_poisoned = False, int_limit_exceeded = False\<rparr>"
  have full: "u < m \<longleftrightarrow> unat first mod 2 ^ unat n < 2 ^ unat n - 1"
    unfolding word_less_nat_alt un mn ..
  have start: "decode_integer first n maximum bytes =
      (if u > maximum then Inl IntegerRefusal else finish_after ?p bytes)"
    using True unfolding decode_integer_def integer_start_def finish_after_def Let_def u_def m_def
    by simp
  show ?thesis
  proof (cases "u < m")
    case complete: True
    have "finish_after ?p bytes = Inr v \<longleftrightarrow> bytes = [] \<and> unat v = unat u"
      using finish_after_complete [of ?p bytes v] complete by (auto simp: word_unat_eq_iff)
    then show ?thesis
      using True full complete unfolding start un [symmetric]
      by (auto simp: word_le_nat_alt word_less_nat_alt)
  next
    case live: False
    have "finish_after ?p bytes = Inr v \<longleftrightarrow> terminated bytes \<and> length bytes \<le> 10 \<and>
        unat v = unat u + tail_value 0 bytes \<and> v \<le> maximum"
      using finish_after_live [of ?p 0 bytes v] live by auto
    then show ?thesis
      using True full live unfolding start un [symmetric]
      by (auto simp: word_le_nat_alt word_less_nat_alt)
  qed
qed

text \<open>Exactly which octets are a prefix integer of HPACK, and of which value.  A first octet, a
  prefix length and continuation octets decode to \<open>v\<close> just when the prefix has between one and
  eight bits, the value RFC 7541 gives to the octets (computed without bound) is \<open>v\<close> and within
  the use's maximum, and the continuation octets are absent when the prefix holds the value and
  otherwise are at most ten octets of which exactly the last has its high bit clear.\<close>

lemma decode_integer_iff:
  "decode_integer first n maximum bytes = Inr v \<longleftrightarrow>
     1 \<le> n \<and> n \<le> 8 \<and>
     unat v = unat first mod 2 ^ unat n + tail_value 0 bytes \<and> v \<le> maximum \<and>
     (if unat first mod 2 ^ unat n < 2 ^ unat n - 1 then bytes = []
      else terminated bytes \<and> length bytes \<le> 10)"
  by (rule decode_integer_meaning)

section \<open>Every value has an encoding\<close>

lemma encode_tail_simps:
  "n < 128 \<Longrightarrow> encode_tail n = [of_nat n]"
  "128 \<le> n \<Longrightarrow> encode_tail n = of_nat (n mod 128 + 128) # encode_tail (n div 128)"
  by (subst encode_tail.simps, simp)+

lemma unat_of_nat_byte: "n < 256 \<Longrightarrow> unat (of_nat n :: byte) = n"
  by (simp add: unat_of_nat)

lemma encode_tail_ne [simp]: "encode_tail n \<noteq> []"
  by (subst encode_tail.simps) simp

lemma terminated_encode_tail: "terminated (encode_tail n)"
proof (induction n rule: encode_tail.induct)
  case (1 n)
  show ?case
  proof (cases "n < 128")
    case False
    then obtain c cs where "encode_tail (n div 128) = c # cs" by (meson encode_tail_ne neq_Nil_conv)
    with 1 False show ?thesis by (simp add: encode_tail_simps unat_of_nat_byte del: of_nat_add)
  qed (simp add: encode_tail_simps unat_of_nat_byte)
qed

lemma tail_value_encode_tail: "tail_value k (encode_tail n) = n * 2 ^ k"
proof (induction n arbitrary: k rule: encode_tail.induct)
  case (1 n)
  show ?case
  proof (cases "n < 128")
    case False
    then have "tail_value k (encode_tail n) =
        n mod 128 * 2 ^ k + tail_value (k + 7) (encode_tail (n div 128))"
      by (simp add: encode_tail_simps unat_of_nat_byte del: of_nat_add)
    also have "\<dots> = n mod 128 * 2 ^ k + n div 128 * 2 ^ (k + 7)" by (simp only: 1 [OF False])
    also have "\<dots> = (n mod 128 + n div 128 * 128) * 2 ^ k"
      by (simp only: power_add add_mult_distrib) (simp add: algebra_simps)
    also have "\<dots> = n * 2 ^ k" by (simp only: mod_div_mult_eq)
    finally show ?thesis .
  qed (simp add: encode_tail_simps unat_of_nat_byte)
qed

lemma length_encode_tail: "0 < j \<Longrightarrow> n < 2 ^ (7 * j) \<Longrightarrow> length (encode_tail n) \<le> j"
proof (induction j arbitrary: n)
  case (Suc j)
  show ?case
  proof (cases "n < 128")
    case False
    have n: "n < 128 * 2 ^ (7 * j)" using Suc.prems(2) by (simp add: power_add)
    then have "0 < j" using False by (cases j) auto
    moreover have "n div 128 < 2 ^ (7 * j)" using n by (simp add: less_mult_imp_div_less mult.commute)
    ultimately show ?thesis using Suc.IH False by (simp add: encode_tail_simps)
  qed (simp add: encode_tail_simps)
qed simp

lemma integer_encodes:
  assumes "1 \<le> n" "n \<le> 8" "v \<le> maximum"
    and "encode_integer (unat n) v = (first, bytes)"
    and "unat octet mod 2 ^ unat n = unat first"
  shows "decode_integer octet n maximum bytes = Inr v"
proof -
  let ?n = "unat n"
  have "?n \<le> 8" using assms(2) by (simp add: word_le_nat_alt)
  then have "(2::nat) ^ ?n \<le> 2 ^ 8" by (intro power_increasing) simp_all
  then have small: "(2::nat) ^ ?n \<le> 256" by simp
  have pos: "0 < (2::nat) ^ ?n" by simp
  have v: "unat v < 2 ^ 64" using unsigned_less [of v, where 'a = nat] by simp
  moreover have "(2::nat) ^ 64 < 2 ^ (7 * 10)" by (rule power_strict_increasing) simp_all
  ultimately have "unat v - (2 ^ ?n - 1) < 2 ^ (7 * 10)" by linarith
  then have len: "length (encode_tail (unat v - (2 ^ ?n - 1))) \<le> 10"
    by (intro length_encode_tail) simp_all
  show ?thesis
  proof (cases "unat v < 2 ^ ?n - 1")
    case True
    then have "unat first = unat v" "bytes = []"
      using assms(4) small unat_of_nat_byte [of "unat v"] by (auto simp: encode_integer_def)
    then show ?thesis using assms True by (simp add: decode_integer_meaning)
  next
    case False
    then have "unat first = 2 ^ ?n - 1" "bytes = encode_tail (unat v - (2 ^ ?n - 1))"
      using assms(4) \<open>?n \<le> 8\<close> by (auto simp: encode_integer_def unat_exp_minus_1)
    then show ?thesis
      using assms False len by (simp add: decode_integer_meaning terminated_encode_tail tail_value_encode_tail)
  qed
qed

text \<open>Round trip of prefix integers.  For every prefix length from one to eight bits, every 64-bit
  value within the use's maximum decodes from its RFC 7541 encoding, whatever bits of the
  enclosing instruction stand above the prefix in the first octet.\<close>

lemma integer_roundtrip:
  assumes "1 \<le> n" "n \<le> 8" "v \<le> maximum"
    and "encode_integer (unat n) v = (first, bytes)"
    and "unat octet mod 2 ^ unat n = unat first"
  shows "decode_integer octet n maximum bytes = Inr v"
  using assms by (rule integer_encodes)

section \<open>A refused integer stays refused\<close>

interpretation integer: closing_decoder integer_push int_poisoned
proof
  fix i s s' e
  assume "integer_push i s = (s', Inl e)"
  then show "int_poisoned s'"
    by (auto simp: integer_push_def Let_def split: if_splits option.splits)
next
  fix i s s' and r :: "integer_refusal + u64 option"
  assume "int_poisoned s" "integer_push i s = (s', r)"
  then show "\<not> is_ok r" by (auto simp: integer_push_def)
qed

end
