(* ===== verification/Hpack_Codes.thy ===== *)
theory Hpack_Codes
  imports Slingshot_Prelude "HOL-Library.Sublist"
begin

text \<open>
  The HPACK Huffman codebook of \<open>slingshot-agent-connection/src/selected_author_hpack_codes.rs\<close>,
  in symbol order: the length of each code and its value, for the 256 octets and, at index 256,
  the end-of-string symbol.  The table is stated in two halves.
\<close>

definition CODES_low :: "(byte \<times> u32) list" where
  "CODES_low = [
    (13, 0x1ff8), (23, 0x7fffd8), (28, 0xfffffe2), (28, 0xfffffe3), (28, 0xfffffe4),
    (28, 0xfffffe5), (28, 0xfffffe6), (28, 0xfffffe7), (28, 0xfffffe8), (24, 0xffffea),
    (30, 0x3ffffffc), (28, 0xfffffe9), (28, 0xfffffea), (30, 0x3ffffffd), (28, 0xfffffeb),
    (28, 0xfffffec), (28, 0xfffffed), (28, 0xfffffee), (28, 0xfffffef), (28, 0xffffff0),
    (28, 0xffffff1), (28, 0xffffff2), (30, 0x3ffffffe), (28, 0xffffff3), (28, 0xffffff4),
    (28, 0xffffff5), (28, 0xffffff6), (28, 0xffffff7), (28, 0xffffff8), (28, 0xffffff9),
    (28, 0xffffffa), (28, 0xffffffb), (6, 0x14), (10, 0x3f8), (10, 0x3f9), (12, 0xffa),
    (13, 0x1ff9), (6, 0x15), (8, 0xf8), (11, 0x7fa), (10, 0x3fa), (10, 0x3fb), (8, 0xf9),
    (11, 0x7fb), (8, 0xfa), (6, 0x16), (6, 0x17), (6, 0x18), (5, 0x0), (5, 0x1), (5, 0x2),
    (6, 0x19), (6, 0x1a), (6, 0x1b), (6, 0x1c), (6, 0x1d), (6, 0x1e), (6, 0x1f), (7, 0x5c),
    (8, 0xfb), (15, 0x7ffc), (6, 0x20), (12, 0xffb), (10, 0x3fc), (13, 0x1ffa), (6, 0x21),
    (7, 0x5d), (7, 0x5e), (7, 0x5f), (7, 0x60), (7, 0x61), (7, 0x62), (7, 0x63), (7, 0x64),
    (7, 0x65), (7, 0x66), (7, 0x67), (7, 0x68), (7, 0x69), (7, 0x6a), (7, 0x6b), (7, 0x6c),
    (7, 0x6d), (7, 0x6e), (7, 0x6f), (7, 0x70), (7, 0x71), (7, 0x72), (8, 0xfc), (7, 0x73),
    (8, 0xfd), (13, 0x1ffb), (19, 0x7fff0), (13, 0x1ffc), (14, 0x3ffc), (6, 0x22), (15, 0x7ffd),
    (5, 0x3), (6, 0x23), (5, 0x4), (6, 0x24), (5, 0x5), (6, 0x25), (6, 0x26), (6, 0x27),
    (5, 0x6), (7, 0x74), (7, 0x75), (6, 0x28), (6, 0x29), (6, 0x2a), (5, 0x7), (6, 0x2b),
    (7, 0x76), (6, 0x2c), (5, 0x8), (5, 0x9), (6, 0x2d), (7, 0x77), (7, 0x78), (7, 0x79),
    (7, 0x7a), (7, 0x7b), (15, 0x7ffe), (11, 0x7fc), (14, 0x3ffd), (13, 0x1ffd), (28, 0xffffffc),
    (20, 0xfffe6)]"

definition CODES_high :: "(byte \<times> u32) list" where
  "CODES_high = [
    (22, 0x3fffd2), (20, 0xfffe7), (20, 0xfffe8), (22, 0x3fffd3), (22, 0x3fffd4), (22, 0x3fffd5),
    (23, 0x7fffd9), (22, 0x3fffd6), (23, 0x7fffda), (23, 0x7fffdb), (23, 0x7fffdc),
    (23, 0x7fffdd), (23, 0x7fffde), (24, 0xffffeb), (23, 0x7fffdf), (24, 0xffffec),
    (24, 0xffffed), (22, 0x3fffd7), (23, 0x7fffe0), (24, 0xffffee), (23, 0x7fffe1),
    (23, 0x7fffe2), (23, 0x7fffe3), (23, 0x7fffe4), (21, 0x1fffdc), (22, 0x3fffd8),
    (23, 0x7fffe5), (22, 0x3fffd9), (23, 0x7fffe6), (23, 0x7fffe7), (24, 0xffffef),
    (22, 0x3fffda), (21, 0x1fffdd), (20, 0xfffe9), (22, 0x3fffdb), (22, 0x3fffdc),
    (23, 0x7fffe8), (23, 0x7fffe9), (21, 0x1fffde), (23, 0x7fffea), (22, 0x3fffdd),
    (22, 0x3fffde), (24, 0xfffff0), (21, 0x1fffdf), (22, 0x3fffdf), (23, 0x7fffeb),
    (23, 0x7fffec), (21, 0x1fffe0), (21, 0x1fffe1), (22, 0x3fffe0), (21, 0x1fffe2),
    (23, 0x7fffed), (22, 0x3fffe1), (23, 0x7fffee), (23, 0x7fffef), (20, 0xfffea),
    (22, 0x3fffe2), (22, 0x3fffe3), (22, 0x3fffe4), (23, 0x7ffff0), (22, 0x3fffe5),
    (22, 0x3fffe6), (23, 0x7ffff1), (26, 0x3ffffe0), (26, 0x3ffffe1), (20, 0xfffeb),
    (19, 0x7fff1), (22, 0x3fffe7), (23, 0x7ffff2), (22, 0x3fffe8), (25, 0x1ffffec),
    (26, 0x3ffffe2), (26, 0x3ffffe3), (26, 0x3ffffe4), (27, 0x7ffffde), (27, 0x7ffffdf),
    (26, 0x3ffffe5), (24, 0xfffff1), (25, 0x1ffffed), (19, 0x7fff2), (21, 0x1fffe3),
    (26, 0x3ffffe6), (27, 0x7ffffe0), (27, 0x7ffffe1), (26, 0x3ffffe7), (27, 0x7ffffe2),
    (24, 0xfffff2), (21, 0x1fffe4), (21, 0x1fffe5), (26, 0x3ffffe8), (26, 0x3ffffe9),
    (28, 0xffffffd), (27, 0x7ffffe3), (27, 0x7ffffe4), (27, 0x7ffffe5), (20, 0xfffec),
    (24, 0xfffff3), (20, 0xfffed), (21, 0x1fffe6), (22, 0x3fffe9), (21, 0x1fffe7),
    (21, 0x1fffe8), (23, 0x7ffff3), (22, 0x3fffea), (22, 0x3fffeb), (25, 0x1ffffee),
    (25, 0x1ffffef), (24, 0xfffff4), (24, 0xfffff5), (26, 0x3ffffea), (23, 0x7ffff4),
    (26, 0x3ffffeb), (27, 0x7ffffe6), (26, 0x3ffffec), (26, 0x3ffffed), (27, 0x7ffffe7),
    (27, 0x7ffffe8), (27, 0x7ffffe9), (27, 0x7ffffea), (27, 0x7ffffeb), (28, 0xffffffe),
    (27, 0x7ffffec), (27, 0x7ffffed), (27, 0x7ffffee), (27, 0x7ffffef), (27, 0x7fffff0),
    (26, 0x3ffffee), (30, 0x3fffffff)]"

definition CODES :: "(byte \<times> u32) list" where
  "CODES = CODES_low @ CODES_high"

section \<open>Codes as bits\<close>

text \<open>The last \<open>n\<close> bits of a number, most significant first.\<close>

fun bits_of :: "nat \<Rightarrow> nat \<Rightarrow> bool list" where
  "bits_of 0 c = []"
| "bits_of (Suc n) c = odd (c div 2 ^ n) # bits_of n c"

definition code_bits :: "byte \<times> u32 \<Rightarrow> bool list" where
  "code_bits = (\<lambda>(length, code). bits_of (unat length) (unat code))"

lemma length_bits_of [simp]: "length (bits_of n c) = n"
  by (induction n) simp_all

section \<open>A trie that holds a prefix-free set of codes\<close>

text \<open>A proof device: inserting into the trie succeeds exactly when the new code neither extends
  nor begins a code that is already there.\<close>

datatype trie = Tip | Leaf | Fork trie trie

fun trie_insert :: "bool list \<Rightarrow> trie \<Rightarrow> trie option" where
  "trie_insert [] t = (if t = Tip then Some Leaf else None)"
| "trie_insert (b # bs) t =
     (case t of
        Leaf \<Rightarrow> None
      | Tip \<Rightarrow> map_option (\<lambda>s. if b then Fork Tip s else Fork s Tip) (trie_insert bs Tip)
      | Fork l r \<Rightarrow>
          if b then map_option (Fork l) (trie_insert bs r)
          else map_option (\<lambda>s. Fork s r) (trie_insert bs l))"

fun trie_nodes :: "trie \<Rightarrow> nat" where
  "trie_nodes Tip = 0"
| "trie_nodes Leaf = 1"
| "trie_nodes (Fork l r) = Suc (trie_nodes l + trie_nodes r)"

fun trie_build :: "bool list list \<Rightarrow> trie \<Rightarrow> trie option" where
  "trie_build [] t = Some t"
| "trie_build (c # cs) t = (case trie_insert c t of None \<Rightarrow> None | Some t' \<Rightarrow> trie_build cs t')"

fun trie_at :: "trie \<Rightarrow> bool list \<Rightarrow> trie" where
  "trie_at t [] = t"
| "trie_at (Fork l r) (b # bs) = trie_at (if b then r else l) bs"
| "trie_at _ (b # bs) = Tip"

lemma trie_at_Tip [simp]: "trie_at Tip bs = Tip"
  by (cases bs) simp_all

lemma trie_insert_not_Tip [simp]: "trie_insert c t \<noteq> Some Tip"
  by (cases c; cases t) (auto split: if_splits)

lemma trie_insert_gap:
  "trie_insert c t = Some t' \<Longrightarrow> trie_at t' bs = Tip \<longleftrightarrow> trie_at t bs = Tip \<and> \<not> prefix bs c"
proof (induction c arbitrary: t t' bs)
  case Nil
  then show ?case by (cases bs) (auto split: if_splits)
next
  case (Cons b c)
  then show ?case by (cases t; cases bs) (auto split: if_splits)
qed

lemma trie_insert_node:
  "trie_insert c t = Some t' \<Longrightarrow> trie_at t' bs \<noteq> Tip \<longleftrightarrow> trie_at t bs \<noteq> Tip \<or> prefix bs c"
  by (simp add: trie_insert_gap)

lemma trie_insert_leaf:
  "trie_insert c t = Some t' \<Longrightarrow> trie_at t' bs = Leaf \<longleftrightarrow> trie_at t bs = Leaf \<or> bs = c"
proof (induction c arbitrary: t t' bs)
  case Nil
  then show ?case by (cases bs) (auto split: if_splits)
next
  case (Cons b c)
  then show ?case by (cases t; cases bs) (force split: if_splits)+
qed

lemma trie_insert_fresh:
  "trie_insert c t = Some t' \<Longrightarrow> trie_at t c = Tip \<and> (\<forall>p. prefix p c \<longrightarrow> trie_at t p \<noteq> Leaf)"
proof (induction c arbitrary: t t')
  case Nil
  then show ?case by (auto split: if_splits)
next
  case (Cons b c)
  then show ?case by (cases t) (auto simp: prefix_Cons split: if_splits)
qed

lemma trie_build_fresh:
  "trie_build cs t = Some t' \<Longrightarrow>
     (\<forall>bs. trie_at t' bs \<noteq> Tip \<longleftrightarrow> trie_at t bs \<noteq> Tip \<or> (\<exists>c \<in> set cs. prefix bs c)) \<and>
     (\<forall>c \<in> set cs. trie_at t c = Tip \<and> (\<forall>p. prefix p c \<longrightarrow> trie_at t p \<noteq> Leaf)) \<and>
     (\<forall>j < length cs. \<forall>i < j. \<not> prefix (cs ! i) (cs ! j) \<and> \<not> prefix (cs ! j) (cs ! i))"
proof (induction cs arbitrary: t)
  case (Cons c cs)
  obtain t1 where i: "trie_insert c t = Some t1" and b: "trie_build cs t1 = Some t'"
    using Cons.prems by (auto split: option.splits)
  note ih = Cons.IH [OF b]
  have fresh: "\<not> prefix d c \<and> \<not> prefix c d" if "d \<in> set cs" for d
    using ih that trie_insert_node [OF i, of d] trie_insert_leaf [OF i, of c] by metis
  have "\<not> prefix ((c # cs) ! i) ((c # cs) ! j) \<and> \<not> prefix ((c # cs) ! j) ((c # cs) ! i)"
    if "j < length (c # cs)" "i < j" for i j
    using that ih fresh by (cases i; cases j) simp_all
  moreover have "trie_at t d = Tip \<and> (\<forall>p. prefix p d \<longrightarrow> trie_at t p \<noteq> Leaf)" if "d \<in> set (c # cs)" for d
    using that ih trie_insert_fresh [OF i] trie_insert_node [OF i, of d] trie_insert_leaf [OF i]
    by (metis set_ConsD)
  moreover have "trie_at t' bs \<noteq> Tip \<longleftrightarrow> trie_at t bs \<noteq> Tip \<or> (\<exists>d \<in> set (c # cs). prefix bs d)" for bs
    using ih trie_insert_node [OF i, of bs] by auto
  ultimately show ?case by blast
qed simp

lemma finite_trie: "finite {bs. trie_at t bs \<noteq> Tip} \<and> card {bs. trie_at t bs \<noteq> Tip} = trie_nodes t"
proof (induction t)
  case Leaf
  have "{bs. trie_at Leaf bs \<noteq> Tip} = {[]}"
  proof (intro set_eqI)
    show "bs \<in> {bs. trie_at Leaf bs \<noteq> Tip} \<longleftrightarrow> bs \<in> {[]}" for bs by (cases bs) simp_all
  qed
  then show ?case by simp
next
  case (Fork l r)
  let ?L = "{bs. trie_at l bs \<noteq> Tip}" and ?R = "{bs. trie_at r bs \<noteq> Tip}"
  have "{bs. trie_at (Fork l r) bs \<noteq> Tip} = insert [] ((#) False ` ?L \<union> (#) True ` ?R)"
  proof (intro set_eqI)
    show "bs \<in> {bs. trie_at (Fork l r) bs \<noteq> Tip} \<longleftrightarrow> bs \<in> insert [] ((#) False ` ?L \<union> (#) True ` ?R)"
      for bs by (cases bs) auto
  qed
  moreover have "card ((#) False ` ?L \<union> (#) True ` ?R) = trie_nodes l + trie_nodes r"
    using Fork by (subst card_Un_disjoint) (auto simp: card_image)
  moreover have "[] \<notin> (#) False ` ?L \<union> (#) True ` ?R" by auto
  ultimately show ?case using Fork by simp
qed simp

section \<open>Evaluating the codebook\<close>

text \<open>The bits of a code, read from the numeral that spells it.\<close>

fun nbits :: "nat \<Rightarrow> num option \<Rightarrow> bool list \<Rightarrow> bool list" where
  "nbits 0 c acc = acc"
| "nbits (Suc n) None acc = nbits n None (False # acc)"
| "nbits (Suc n) (Some num.One) acc = nbits n None (True # acc)"
| "nbits (Suc n) (Some (num.Bit0 k)) acc = nbits n (Some k) (False # acc)"
| "nbits (Suc n) (Some (num.Bit1 k)) acc = nbits n (Some k) (True # acc)"

definition num_of_int :: "int \<Rightarrow> num option" where
  "num_of_int i = (if i \<le> 0 then None else Some (num_of_nat (nat i)))"

lemma num_of_int_code [code]:
  "num_of_int 0 = None" "num_of_int (Int.Pos k) = Some k" "num_of_int (Int.Neg k) = None"
  by (auto simp: num_of_int_def num_of_nat_numeral_eq)

lemma bits_of_snoc: "bits_of (Suc n) c = bits_of n (c div 2) @ [odd c]"
  by (induction n) (simp_all flip: div_mult2_eq)

lemma nbits_bits_of: "nbits n k acc = bits_of n (case k of None \<Rightarrow> 0 | Some k \<Rightarrow> numeral k) @ acc"
proof (induction n k acc rule: nbits.induct)
  case (4 n k acc)
  have "(numeral (num.Bit0 k) :: nat) div 2 = numeral k" by simp
  with 4 show ?case by (simp only: nbits.simps bits_of_snoc option.case) simp
next
  case (5 n k acc)
  have "(numeral (num.Bit1 k) :: nat) div 2 = numeral k" by simp
  with 5 show ?case by (simp only: nbits.simps bits_of_snoc option.case) simp
qed (simp_all only: nbits.simps bits_of_snoc option.case bits_of.simps, simp_all)

lemma code_bits_code: "code_bits = (\<lambda>(l, c). nbits (nat (uint l)) (num_of_int (uint c)) [])"
proof (intro ext, clarify)
  fix l :: byte and c :: u32
  have "(case num_of_int (uint c) of None \<Rightarrow> 0 | Some k \<Rightarrow> numeral k) = unat c"
    by (cases "c = 0") (auto simp: num_of_int_def numeral_num_of_nat word_greater_zero_iff unat_gt_0
        uint_0_iff)
  then show "code_bits (l, c) = nbits (nat (uint l)) (num_of_int (uint c)) []"
    by (simp add: code_bits_def nbits_bits_of)
qed

definition huffman_codes :: "bool list list" where
  "huffman_codes = map code_bits CODES"

lemma codes_trie: "map_option trie_nodes (trie_build huffman_codes (Fork Tip Tip)) = Some 513"
  unfolding huffman_codes_def code_bits_code by code_simp

lemma length_CODES [simp]: "length CODES = 257"
  by code_simp

lemma length_huffman_codes [simp]: "length huffman_codes = 257"
  by (simp add: huffman_codes_def)

lemma nth_huffman_codes: "i < 257 \<Longrightarrow> huffman_codes ! i = code_bits (CODES ! i)"
  by (simp add: huffman_codes_def)

lemma code_256: "huffman_codes ! 256 = replicate 30 True"
  unfolding huffman_codes_def code_bits_code by code_simp

text \<open>No code begins another.\<close>

lemma codes_prefix_free:
  assumes "i < 257" "j < 257" "i \<noteq> j"
  shows "\<not> prefix (huffman_codes ! i) (huffman_codes ! j)"
proof -
  obtain t where "trie_build huffman_codes (Fork Tip Tip) = Some t" using codes_trie by auto
  from trie_build_fresh [OF this] show ?thesis
    using assms by (metis length_huffman_codes linorder_neqE_nat)
qed

text \<open>The positions of the codebook's tree: the beginnings of its codes.\<close>

definition code_paths :: "bool list set" where
  "code_paths = {bs. \<exists>c \<in> set huffman_codes. prefix bs c}"

lemma card_code_paths: "finite code_paths \<and> card code_paths = 513"
proof -
  obtain t where t: "trie_build huffman_codes (Fork Tip Tip) = Some t" "trie_nodes t = 513"
    using codes_trie by auto
  have "trie_at (Fork Tip Tip) bs \<noteq> Tip \<longleftrightarrow> bs = []" for bs by (cases bs) simp_all
  moreover have "\<exists>c \<in> set huffman_codes. prefix [] c"
    using nth_mem [of 0 huffman_codes] Nil_prefix by (metis length_huffman_codes zero_less_numeral)
  ultimately have "code_paths = {bs. trie_at t bs \<noteq> Tip}"
    using conjunct1 [OF trie_build_fresh [OF t(1)]] unfolding code_paths_def
    by (intro Collect_cong) metis
  then show ?thesis using finite_trie [of t] t(2) by simp
qed

lemma code_paths_butlast: "bs @ [b] \<in> code_paths \<Longrightarrow> bs \<in> code_paths"
  by (auto simp: code_paths_def intro: append_prefixD)

end
