(* ===== verification/Hpack_Huffman.thy ===== *)
theory Hpack_Huffman
  imports Hpack_Codes
begin

unbundle bit_operations_syntax

text \<open>
  The streaming Huffman strings of
  \<open>slingshot-agent-connection/src/selected_author_hpack_huffman.rs\<close>.  The tree is built as the
  constant function of the source builds it, in an array of 513 nodes with every assertion of the
  source, and the development proves that the assertions hold.  The decoder walks that array one
  bit at a time and passes each decoded octet to a sink that may refuse.  The main theorem says
  which octets decode: the codes of the output followed by at most seven one bits.
\<close>

section \<open>The tree\<close>

definition NO_SYMBOL :: u16 where
  "NO_SYMBOL = - 1"

record node =
  children :: "nat \<times> nat"
  symbol :: u16

definition child :: "bool \<Rightarrow> node \<Rightarrow> nat" where
  "child branch n = (if branch then snd (children n) else fst (children n))"

definition set_child :: "bool \<Rightarrow> nat \<Rightarrow> node \<Rightarrow> node" where
  "set_child branch v n =
     n\<lparr>children := (if branch then (fst (children n), v) else (v, snd (children n)))\<rparr>"

definition blank_node :: node where
  "blank_node = \<lparr>children = (0, 0), symbol = NO_SYMBOL\<rparr>"

text \<open>The walk of one code from the root, most significant bit first: the loop over \<open>bit\<close>.  A
  failed assertion, which stops the compiler, is \<open>None\<close>.\<close>

fun place_code :: "node list \<Rightarrow> nat \<Rightarrow> nat \<Rightarrow> nat \<Rightarrow> u32 \<Rightarrow> (node list \<times> nat \<times> nat) option" where
  "place_code nodes used position 0 code = Some (nodes, used, position)"
| "place_code nodes used position (Suc i) code =
     (if symbol (nodes ! position) \<noteq> NO_SYMBOL then None
      else let branch = ((drop_bit i code) AND 1 = 1) in
        if child branch (nodes ! position) = 0
        then if \<not> used < length nodes then None
             else let nodes = nodes[position := set_child branch used (nodes ! position)]
                  in place_code nodes (used + 1) (child branch (nodes ! position)) i code
        else place_code nodes used (child branch (nodes ! position)) i code)"

text \<open>The loop over the symbols, from one symbol on.\<close>

fun place_codes :: "node list \<Rightarrow> nat \<Rightarrow> nat \<Rightarrow> (byte \<times> u32) list \<Rightarrow> (node list \<times> nat) option" where
  "place_codes nodes used symb [] = Some (nodes, used)"
| "place_codes nodes used symb ((len, code) # codes) =
     (case place_code nodes used 0 (unat len) code of
        None \<Rightarrow> None
      | Some (nodes, used, position) \<Rightarrow>
          if symbol (nodes ! position) \<noteq> NO_SYMBOL then None
          else if \<not> (child False (nodes ! position) = 0 \<and> child True (nodes ! position) = 0) then None
          else place_codes (nodes[position := (nodes ! position)\<lparr>symbol := of_nat symb\<rparr>])
                 used (symb + 1) codes)"

definition tree :: "node list option" where
  "tree =
     (case place_codes (replicate 513 blank_node) 1 0 CODES of
        None \<Rightarrow> None
      | Some (nodes, used) \<Rightarrow> if used = length nodes then Some nodes else None)"

definition TREE :: "node list" where
  "TREE = (case tree of None \<Rightarrow> [] | Some nodes \<Rightarrow> nodes)"

section \<open>The decoder\<close>

datatype huffman_refusal = HuffmanRefusal

record huffman_string =
  position :: nat
  pending_bits :: byte
  pending_ones :: bool
  huffman_poisoned :: bool

definition huffman_new :: huffman_string where
  "huffman_new = \<lparr>position = 0, pending_bits = 0, pending_ones = True, huffman_poisoned = False\<rparr>"

text \<open>The loop of \<open>push\<close> over the bits of one octet below position \<open>i\<close>, with the sink \<open>emit\<close> and its
  state.\<close>

fun huffman_bits :: "(byte \<Rightarrow> ('k, 'e, unit) receiver) \<Rightarrow> byte \<Rightarrow> nat \<Rightarrow>
    (huffman_string \<times> 'k, huffman_refusal, unit) receiver" where
  "huffman_bits emit byte 0 (self, sink) = ((self, sink), Inr ())"
| "huffman_bits emit byte (Suc i) (self, sink) =
     (let branch = ((drop_bit i byte) AND 1 = 1);
          self = self\<lparr>position := child branch (TREE ! position self)\<rparr>
      in if position self = 0 then ((self, sink), Inl HuffmanRefusal)
         else let self = self\<lparr>pending_bits := pending_bits self + 1,
                              pending_ones := (pending_ones self \<and> branch)\<rparr>;
                  symb = symbol (TREE ! position self)
              in if symb = 256 then ((self, sink), Inl HuffmanRefusal)
                 else if symb \<noteq> NO_SYMBOL
                 then (case emit (ucast symb) sink of
                         (sink, Inl _) \<Rightarrow> ((self, sink), Inl HuffmanRefusal)
                       | (sink, Inr _) \<Rightarrow>
                           huffman_bits emit byte i
                             (self\<lparr>position := 0, pending_bits := 0, pending_ones := True\<rparr>, sink))
                 else huffman_bits emit byte i (self, sink))"

definition huffman_push :: "(byte \<Rightarrow> ('k, 'e, unit) receiver) \<Rightarrow> byte \<Rightarrow>
    (huffman_string \<times> 'k, huffman_refusal, unit) receiver" where
  "huffman_push emit byte = (\<lambda>(self, sink).
     if huffman_poisoned self then ((self, sink), Inl HuffmanRefusal)
     else (case huffman_bits emit byte 8 (self\<lparr>huffman_poisoned := True\<rparr>, sink) of
             ((self, sink), Inl refusal) \<Rightarrow> ((self, sink), Inl refusal)
           | ((self, sink), Inr _) \<Rightarrow> ((self\<lparr>huffman_poisoned := False\<rparr>, sink), Inr ())))"

definition huffman_finish :: "huffman_string \<Rightarrow> huffman_refusal + unit" where
  "huffman_finish self =
     (if huffman_poisoned self \<or> pending_bits self > 7 \<or> \<not> pending_ones self
      then Inl HuffmanRefusal else Inr ())"

text \<open>A sink that collects the octets, and a whole string decoded into it.\<close>

definition collect :: "byte \<Rightarrow> (byte list, huffman_refusal, unit) receiver" where
  "collect byte output = (output @ [byte], Inr ())"

definition huffman_decode :: "byte list \<Rightarrow> huffman_refusal + byte list" where
  "huffman_decode bytes =
     (case feed (huffman_push collect) (huffman_new, []) bytes of
        (_, Inl refusal) \<Rightarrow> Inl refusal
      | ((decoder, output), Inr _) \<Rightarrow> bindE (huffman_finish decoder) (\<lambda>_. Inr output))"

section \<open>The tree is the codebook\<close>

lemma branch_odd: "((drop_bit i w) AND 1 = 1) \<longleftrightarrow> odd (unat w div 2 ^ i)" for w :: "'a::len word"
proof -
  have "(drop_bit i w) AND 1 = 1 \<longleftrightarrow> bit w i"
    by (simp add: and_one_eq odd_iff_mod_2_eq_one [symmetric] bit_iff_odd_drop_bit mod_2_eq_odd)
  also have "\<dots> \<longleftrightarrow> bit (unat w) i" by (simp add: bit_unsigned_iff)
  finally show ?thesis by (simp add: bit_iff_odd)
qed

lemma child_set_child [simp]:
  "child b (set_child b' v n) = (if b = b' then v else child b n)"
  "symbol (set_child b v n) = symbol n"
  "child b (n\<lparr>symbol := s\<rparr>) = child b n"
  by (auto simp: child_def set_child_def)

lemma blank_node_simps [simp]: "child b blank_node = 0" "symbol blank_node = NO_SYMBOL"
  by (simp_all add: blank_node_def child_def)

text \<open>An array holds the bit strings of a prefix-closed set, at one position each.\<close>

definition holds_paths :: "node list \<Rightarrow> nat \<Rightarrow> bool list set \<Rightarrow> (bool list \<Rightarrow> nat) \<Rightarrow>
    (bool list \<Rightarrow> u16) \<Rightarrow> bool" where
  "holds_paths nodes used P pos symb \<longleftrightarrow>
     length nodes = 513 \<and> [] \<in> P \<and> pos [] = 0 \<and>
     (\<forall>bs b. bs @ [b] \<in> P \<longrightarrow> bs \<in> P) \<and>
     bij_betw pos P {0..<used} \<and> used \<le> 513 \<and>
     (\<forall>bs \<in> P. \<forall>b. child b (nodes ! pos bs) = (if bs @ [b] \<in> P then pos (bs @ [b]) else 0)) \<and>
     (\<forall>bs \<in> P. symbol (nodes ! pos bs) = symb bs) \<and>
     (\<forall>p. used \<le> p \<longrightarrow> p < 513 \<longrightarrow> nodes ! p = blank_node)"

lemma holds_paths_simps:
  assumes "holds_paths nodes used P pos symb"
  shows "length nodes = 513" "[] \<in> P" "pos [] = 0" "used \<le> 513" "bij_betw pos P {0..<used}"
    "bs @ [b] \<in> P \<Longrightarrow> bs \<in> P"
    "bs \<in> P \<Longrightarrow> child b (nodes ! pos bs) = (if bs @ [b] \<in> P then pos (bs @ [b]) else 0)"
    "bs \<in> P \<Longrightarrow> symbol (nodes ! pos bs) = symb bs"
    "used \<le> p \<Longrightarrow> p < 513 \<Longrightarrow> nodes ! p = blank_node"
    "bs \<in> P \<Longrightarrow> pos bs < used"
    "bs \<in> P \<Longrightarrow> cs \<in> P \<Longrightarrow> pos bs = pos cs \<longleftrightarrow> bs = cs"
    "card P = used"
proof -
  show bij: "bij_betw pos P {0..<used}" using assms unfolding holds_paths_def by blast
  show "pos bs < used" if "bs \<in> P" using bij_betwE [OF bij] that by simp
  show "pos bs = pos cs \<longleftrightarrow> bs = cs" if "bs \<in> P" "cs \<in> P"
    using bij_betw_imp_inj_on [OF bij] that by (rule inj_on_eq_iff)
  show "card P = used" using bij_betw_same_card [OF bij] by simp
qed (use assms in \<open>unfold holds_paths_def, blast+\<close>)

lemma holds_paths_extend:
  assumes h: "holds_paths nodes used P pos symb" and bs: "bs \<in> P" and new: "bs @ [b] \<notin> P"
    and room: "used < 513" and blank: "symb (bs @ [b]) = NO_SYMBOL"
  shows "holds_paths (nodes[pos bs := set_child b used (nodes ! pos bs)]) (Suc used)
    (insert (bs @ [b]) P) (pos(bs @ [b] := used)) symb"
proof -
  note s = holds_paths_simps [OF h]
  let ?nodes = "nodes[pos bs := set_child b used (nodes ! pos bs)]"
  let ?pos = "pos(bs @ [b] := used)"
  have old: "?pos cs = pos cs" if "cs \<in> P" for cs using that new by auto
  have lt: "pos cs < 513" "pos cs \<noteq> used" if "cs \<in> P" for cs using s(4,10) that room by fastforce+
  have at: "?nodes ! pos cs = (if cs = bs then set_child b used (nodes ! pos bs) else nodes ! pos cs)"
    if "cs \<in> P" for cs
    using that bs s(1,11) lt by (auto simp: nth_list_update)
  have at_new: "?nodes ! used = blank_node" using s(9) [of used] room lt(2) [OF bs] by simp
  have bij: "bij_betw ?pos (insert (bs @ [b]) P) {0..<Suc used}"
  proof -
    have "?pos ` P = pos ` P" using old by (intro image_cong) simp_all
    then have img: "?pos ` insert (bs @ [b]) P = insert used {0..<used}"
      using s(5) unfolding image_insert bij_betw_def by simp
    have "inj_on ?pos (insert (bs @ [b]) P)"
      using s(11) old new lt(2) by (auto simp: inj_on_def)
    then show ?thesis
      unfolding bij_betw_def img by (simp add: atLeast0_lessThan_Suc)
  qed
  have ch: "child c (?nodes ! ?pos cs) = (if cs @ [c] \<in> insert (bs @ [b]) P then ?pos (cs @ [c]) else 0)"
    if "cs \<in> insert (bs @ [b]) P" for cs c
  proof (cases "cs = bs @ [b]")
    case True
    have "cs @ [c] \<notin> P" using s(6) [of cs c] new True by blast
    then show ?thesis using True at_new by simp
  next
    case False
    then have "cs \<in> P" using that by simp
    then show ?thesis using at old s(7) bs new by auto
  qed
  have sy: "symbol (?nodes ! ?pos cs) = symb cs" if "cs \<in> insert (bs @ [b]) P" for cs
    using that at old s(8) at_new blank bs by (cases "cs = bs @ [b]") auto
  have rest: "?nodes ! p = blank_node" if "Suc used \<le> p" "p < 513" for p
    using s(9) [of p] s(10) [OF bs] that by simp
  show ?thesis
    unfolding holds_paths_def
    using s(1,2,3,6) bs new room bij ch sy rest by auto
qed

lemma bits_of_word: "place_code nodes used p (Suc n) code =
   (if symbol (nodes ! p) \<noteq> NO_SYMBOL then None
    else let b = odd (unat code div 2 ^ n) in
      if child b (nodes ! p) = 0
      then if \<not> used < length nodes then None
           else let nodes = nodes[p := set_child b used (nodes ! p)]
                in place_code nodes (used + 1) (child b (nodes ! p)) n code
      else place_code nodes used (child b (nodes ! p)) n code)"
  by (simp add: branch_odd)

declare place_code.simps(2) [simp del]

lemma place_code_holds:
  assumes "holds_paths nodes used P pos symb" and "bs \<in> P"
    and "finite Q" "card Q \<le> 513" "P \<subseteq> Q" "{p. prefix p (bs @ bits_of n (unat code))} \<subseteq> Q"
    and "\<And>p. strict_prefix p (bs @ bits_of n (unat code)) \<Longrightarrow> symb p = NO_SYMBOL"
    and "symb (bs @ bits_of n (unat code)) = NO_SYMBOL"
  shows "\<exists>nodes' used' pos'.
    place_code nodes used (pos bs) n code = Some (nodes', used', pos' (bs @ bits_of n (unat code))) \<and>
    holds_paths nodes' used' (P \<union> {p. prefix p (bs @ bits_of n (unat code))}) pos' symb"
  using assms
proof (induction n arbitrary: nodes used P pos bs)
  case 0
  have "p \<in> P" if "prefix p bs" for p
    using that 0(2)
  proof (induction bs rule: rev_induct)
    case (snoc b bs)
    then show ?case using holds_paths_simps(6) [OF 0(1)] by (metis prefix_snoc)
  qed simp
  then have "P \<union> {p. prefix p bs} = P" by auto
  then show ?case using 0(1) by auto
next
  case (Suc n)
  note s = holds_paths_simps [OF Suc.prems(1)]
  let ?b = "odd (unat code div 2 ^ n)"
  let ?full = "bs @ bits_of (Suc n) (unat code)"
  have full: "(bs @ [?b]) @ bits_of n (unat code) = ?full" by simp
  have "strict_prefix bs ?full" by (simp add: strict_prefix_def)
  then have blank: "symbol (nodes ! pos bs) = NO_SYMBOL" using Suc.prems(2,7) s(8) by simp
  have inQ: "bs @ [?b] \<in> Q" using Suc.prems(6) by (auto simp: prefix_def)
  show ?case
  proof (cases "bs @ [?b] \<in> P")
    case True
    have "pos (bs @ [?b]) \<noteq> 0" using s(11) [OF True s(2)] s(3) by simp
    then have "place_code nodes used (pos bs) (Suc n) code = place_code nodes used (pos (bs @ [?b])) n code"
      using blank s(7) [OF Suc.prems(2), of ?b] True by (simp add: bits_of_word Let_def)
    with Suc.IH [of nodes used P pos "bs @ [?b]"] Suc.prems True full show ?thesis by simp
  next
    case False
    let ?nodes = "nodes[pos bs := set_child ?b used (nodes ! pos bs)]"
    let ?pos = "pos(bs @ [?b] := used)"
    have "card P < card Q" using Suc.prems(3,5) inQ False by (intro psubset_card_mono) auto
    then have room: "used < 513" using s(12) Suc.prems(4) by simp
    have "symb (bs @ [?b]) = NO_SYMBOL"
      using Suc.prems(7) [of "bs @ [?b]"] Suc.prems(8) full
      by (cases "bits_of n (unat code) = []") (auto simp: strict_prefix_def)
    note h = holds_paths_extend [OF Suc.prems(1,2) False room this]
    have "pos bs < 513" using s(4,10) Suc.prems(2) by fastforce
    then have "place_code nodes used (pos bs) (Suc n) code =
        place_code ?nodes (Suc used) (?pos (bs @ [?b])) n code"
      using blank s(1) s(7) [OF Suc.prems(2), of ?b] False room by (simp add: bits_of_word Let_def)
    moreover have "insert (bs @ [?b]) P \<union> {p. prefix p ?full} = P \<union> {p. prefix p ?full}"
      by (auto simp: prefix_def)
    ultimately show ?thesis
      using Suc.IH [OF h, of "bs @ [?b]", unfolded full] Suc.prems(3-8) inQ by simp
  qed
qed

text \<open>The symbols of the codes before one index.\<close>

definition symbol_at :: "nat \<Rightarrow> bool list \<Rightarrow> u16" where
  "symbol_at k p = (if p \<in> set (take k huffman_codes)
     then of_nat (length (takeWhile (\<lambda>c. c \<noteq> p) huffman_codes)) else NO_SYMBOL)"

lemma distinct_codes: "distinct huffman_codes"
  unfolding distinct_conv_nth using codes_prefix_free by (metis length_huffman_codes prefix_order.refl)

lemma takeWhile_nth_distinct:
  "distinct xs \<Longrightarrow> k < length xs \<Longrightarrow> length (takeWhile (\<lambda>x. x \<noteq> xs ! k) xs) = k"
proof (induction xs arbitrary: k)
  case (Cons x xs)
  then show ?case by (cases k) auto
qed simp

lemma symbol_at_code:
  assumes "i < k" "k \<le> 257"
  shows "symbol_at k (huffman_codes ! i) = of_nat i"
proof -
  have "take k huffman_codes ! i \<in> set (take k huffman_codes)" using assms by (intro nth_mem) simp
  then have "huffman_codes ! i \<in> set (take k huffman_codes)" using assms by simp
  then show ?thesis
    unfolding symbol_at_def using takeWhile_nth_distinct [OF distinct_codes, of i] assms by simp
qed

lemma symbol_at_other: "p \<notin> set (take k huffman_codes) \<Longrightarrow> symbol_at k p = NO_SYMBOL"
  by (simp add: symbol_at_def)

lemma symbol_at_Suc:
  "k < 257 \<Longrightarrow> symbol_at (Suc k) = (symbol_at k)(huffman_codes ! k := of_nat k)"
  using symbol_at_code [of k "Suc k"]
  by (intro ext) (auto simp: symbol_at_def take_Suc_conv_app_nth)

definition paths_upto :: "nat \<Rightarrow> bool list set" where
  "paths_upto k = insert [] {p. \<exists>c \<in> set (take k huffman_codes). prefix p c}"

lemma paths_upto_Suc:
  "k < 257 \<Longrightarrow> paths_upto (Suc k) = paths_upto k \<union> {p. prefix p (huffman_codes ! k)}"
  by (auto simp: paths_upto_def take_Suc_conv_app_nth)

lemma paths_upto_all: "paths_upto 257 = code_paths"
proof -
  obtain c where "c \<in> set huffman_codes"
    by (metis length_huffman_codes nth_mem zero_less_numeral)
  then have "[] \<in> code_paths" unfolding code_paths_def by (intro CollectI bexI [of _ c] Nil_prefix)
  then show ?thesis by (auto simp: paths_upto_def code_paths_def)
qed

lemma paths_upto_subset: "k \<le> 257 \<Longrightarrow> paths_upto k \<subseteq> code_paths"
  unfolding paths_upto_all [symmetric] paths_upto_def
  using set_take_subset_set_take [of k 257 huffman_codes] by blast

lemma code_fresh:
  assumes "k < 257"
  shows "strict_prefix p (huffman_codes ! k) \<Longrightarrow> symbol_at k p = NO_SYMBOL"
    and "huffman_codes ! k \<notin> paths_upto k" and "symbol_at k (huffman_codes ! k) = NO_SYMBOL"
proof -
  have earlier: "\<not> prefix c (huffman_codes ! k) \<and> \<not> prefix (huffman_codes ! k) c"
    if mem: "c \<in> set (take k huffman_codes)" for c
  proof -
    obtain i where "i < k" "c = huffman_codes ! i"
      using mem [unfolded in_set_conv_nth] assms by fastforce
    then show ?thesis using codes_prefix_free [of i k] codes_prefix_free [of k i] assms by simp
  qed
  show "symbol_at k p = NO_SYMBOL" if "strict_prefix p (huffman_codes ! k)"
    using that earlier [of p] by (intro symbol_at_other) (auto simp: strict_prefix_def)
  show "symbol_at k (huffman_codes ! k) = NO_SYMBOL"
    using earlier [of "huffman_codes ! k"] by (intro symbol_at_other) auto
  obtain j where "j < 257" "j \<noteq> k" using that [of 0] that [of 1] by fastforce
  then have "huffman_codes ! k \<noteq> []" using codes_prefix_free [of k j] assms by auto
  then show "huffman_codes ! k \<notin> paths_upto k" using earlier by (auto simp: paths_upto_def)
qed

lemma holds_symbol:
  assumes "holds_paths nodes used P pos symb" "c \<in> P"
  shows "holds_paths (nodes[pos c := (nodes ! pos c)\<lparr>symbol := s\<rparr>]) used P pos (symb(c := s))"
proof -
  note h = holds_paths_simps [OF assms(1)]
  have "pos c < 513" using h(4,10) assms(2) by fastforce
  then have "nodes[pos c := (nodes ! pos c)\<lparr>symbol := s\<rparr>] ! pos d =
      (if d = c then (nodes ! pos c)\<lparr>symbol := s\<rparr> else nodes ! pos d)" if "d \<in> P" for d
    using that h(1,11) assms(2) by (auto simp: nth_list_update)
  moreover have "pos c < used" using h(10) assms(2) .
  ultimately show ?thesis using assms unfolding holds_paths_def by auto
qed

lemma place_codes_holds:
  assumes "k \<le> 257" "holds_paths nodes used (paths_upto k) pos (symbol_at k)"
  shows "\<exists>nodes' used' pos'. place_codes nodes used k (drop k CODES) = Some (nodes', used') \<and>
    holds_paths nodes' used' code_paths pos' (symbol_at 257)"
  using assms
proof (induction "257 - k" arbitrary: k nodes used pos)
  case 0
  then have "k = 257" by simp
  then show ?case using 0 by (auto simp: paths_upto_all)
next
  case (Suc m)
  then have k: "k < 257" by simp
  obtain l c where lc: "CODES ! k = (l, c)" by fastforce
  have bits: "huffman_codes ! k = bits_of (unat l) (unat c)" using lc k by (simp add: nth_huffman_codes code_bits_def)
  have "drop k CODES = (l, c) # drop (Suc k) CODES" using k lc by (metis Cons_nth_drop_Suc length_CODES)
  moreover have root: "[] \<in> paths_upto k" "pos [] = 0" using holds_paths_simps [OF Suc.prems(2)] by simp_all
  have "{p. prefix p (huffman_codes ! k)} \<subseteq> code_paths"
    using paths_upto_subset [of "Suc k"] k by (simp add: paths_upto_Suc)
  with place_code_holds [OF Suc.prems(2) root(1), of code_paths "unat l" c] root
  obtain nodes' used' pos' where
    p: "place_code nodes used 0 (unat l) c = Some (nodes', used', pos' (huffman_codes ! k))"
    and h: "holds_paths nodes' used' (paths_upto (Suc k)) pos' (symbol_at k)"
    using card_code_paths paths_upto_subset [of k] code_fresh [OF k] k
    by (auto simp: bits [symmetric] paths_upto_Suc)
  have mem: "huffman_codes ! k \<in> paths_upto (Suc k)" using k by (simp add: paths_upto_Suc)
  have "huffman_codes ! k @ [b] \<notin> paths_upto (Suc k)" for b
    using k code_fresh(2) [OF k] holds_paths_simps(6) [OF Suc.prems(2)]
    by (auto simp: paths_upto_Suc dest: prefix_length_le)
  then have "symbol (nodes' ! pos' (huffman_codes ! k)) = NO_SYMBOL"
    "child b (nodes' ! pos' (huffman_codes ! k)) = 0" for b
    using holds_paths_simps(7,8) [OF h mem] code_fresh(3) [OF k] by simp_all
  moreover have "holds_paths (nodes'[pos' (huffman_codes ! k) :=
      (nodes' ! pos' (huffman_codes ! k))\<lparr>symbol := of_nat k\<rparr>]) used' (paths_upto (Suc k)) pos'
      (symbol_at (Suc k))"
    using holds_symbol [OF h mem, of "of_nat k"] symbol_at_Suc [OF k] by simp
  note Suc.hyps(1) [OF _ _ this]
  ultimately show ?case using Suc.hyps(2) k p by simp
qed

text \<open>Every assertion of the builder holds, and the tree holds exactly the codebook.\<close>

lemma TREE_holds: "tree = Some TREE \<and> (\<exists>pos. holds_paths TREE 513 code_paths pos (symbol_at 257))"
proof -
  have "holds_paths (replicate 513 blank_node) 1 (paths_upto 0) (\<lambda>_. 0) (symbol_at 0)"
    by (auto simp: holds_paths_def paths_upto_def symbol_at_def bij_betw_def)
  from place_codes_holds [OF _ this] obtain nodes used pos where
    n: "place_codes (replicate 513 blank_node) 1 0 CODES = Some (nodes, used)"
    and h: "holds_paths nodes used code_paths pos (symbol_at 257)" by auto
  have "used = 513" using holds_paths_simps(12) [OF h] card_code_paths by simp
  then show ?thesis using n h holds_paths_simps(1) [OF h] by (auto simp: TREE_def tree_def)
qed

section \<open>What a Huffman string means\<close>

definition encode_bits :: "byte list \<Rightarrow> bool list" where
  "encode_bits output = concat (map (\<lambda>s. huffman_codes ! unat s) output)"

definition bits_of_bytes :: "byte list \<Rightarrow> bool list" where
  "bits_of_bytes bytes = concat (map (\<lambda>b. bits_of 8 (unat b)) bytes)"

lemma encode_bits_simps [simp]:
  "encode_bits [] = []" "encode_bits (s # ss) = huffman_codes ! unat s @ encode_bits ss"
  by (simp_all add: encode_bits_def)

lemma bits_of_bytes_simps [simp]:
  "bits_of_bytes [] = []" "bits_of_bytes (b # bs) = bits_of 8 (unat b) @ bits_of_bytes bs"
  by (simp_all add: bits_of_bytes_def)

lemma path_from_code: "p \<in> code_paths \<longleftrightarrow> (\<exists>i < 257. prefix p (huffman_codes ! i))"
  by (simp add: code_paths_def set_conv_nth) blast

lemma code_in_path: "p \<in> code_paths \<Longrightarrow> i < 257 \<Longrightarrow> prefix (huffman_codes ! i) p \<Longrightarrow> p = huffman_codes ! i"
  unfolding path_from_code by (metis codes_prefix_free prefix_order.antisym prefix_order.trans)

lemma path_closed: "p @ q \<in> code_paths \<Longrightarrow> p \<in> code_paths"
  unfolding path_from_code by (blast intro: append_prefixD)

lemma symbol_cases:
  obtains i where "i < 257" "p = huffman_codes ! i" "symbol_at 257 p = of_nat i"
  | "p \<notin> set huffman_codes" "symbol_at 257 p = NO_SYMBOL"
proof (cases "p \<in> set huffman_codes")
  case True
  then obtain i where "i < 257" "p = huffman_codes ! i"
    by (metis in_set_conv_nth length_huffman_codes)
  then show ?thesis using that(1) symbol_at_code [of i 257] by simp
next
  case False
  then show ?thesis using that(2) by (simp add: symbol_at_other)
qed

lemma of_nat_u16: "i < 257 \<Longrightarrow> unat (of_nat i :: u16) = i"
  by (simp add: unat_of_nat)

lemma of_nat_symbol:
  assumes "i < 257"
  shows "(of_nat i :: u16) \<noteq> NO_SYMBOL" "(of_nat i :: u16) = 256 \<longleftrightarrow> i = 256"
    "i < 256 \<Longrightarrow> unat (ucast (of_nat i :: u16) :: byte) = i"
  using of_nat_u16 [OF assms] assms
  by (auto simp: NO_SYMBOL_def word_unat_eq_iff unsigned_ucast_eq take_bit_eq_mod
      unsigned_minus_1_eq_mask mask_eq_exp_minus_1)

text \<open>The decoder over bit lists, from bits already read of a code.\<close>

fun dec :: "bool list \<Rightarrow> bool list \<Rightarrow> (byte list \<times> bool list) option" where
  "dec bs [] = Some ([], bs)"
| "dec bs (b # rest) =
     (let cs = bs @ [b]; s = symbol_at 257 cs in
      if cs \<notin> code_paths \<or> s = 256 then None
      else if s \<noteq> NO_SYMBOL
      then map_option (\<lambda>(out, left). (ucast s # out, left)) (dec [] rest)
      else dec cs rest)"

lemma dec_append:
  "dec bs (xs @ ys) =
     (case dec bs xs of None \<Rightarrow> None
      | Some (out, left) \<Rightarrow> map_option (\<lambda>(out', left'). (out @ out', left')) (dec left ys))"
  by (induction bs xs rule: dec.induct)
    (auto simp: Let_def option.map_comp comp_def split_def map_option.id [unfolded id_def]
      split: option.splits)

abbreviation pending :: "bool list \<Rightarrow> bool" where
  "pending bs \<equiv> bs \<in> code_paths \<and> bs \<notin> set huffman_codes"

lemma pending_no_code: "pending bs \<Longrightarrow> i < 257 \<Longrightarrow> \<not> prefix (huffman_codes ! i) bs"
  using code_in_path by (metis length_huffman_codes nth_mem)

lemma pending_Nil: "pending []"
proof -
  have "[] \<in> code_paths" unfolding path_from_code using Nil_prefix zero_less_numeral by blast
  moreover have "huffman_codes ! i \<noteq> []" if "i < 257" for i
    using code_fresh(2) [OF that] by (auto simp: paths_upto_def)
  ultimately show ?thesis by (metis in_set_conv_nth length_huffman_codes)
qed

text \<open>A bit added to the beginning of a code either begins the next code of the input or, when the
  output is over, is left over.\<close>

lemma next_code_begins:
  assumes "pending bs" "bs @ b # rest = encode_bits (s # out) @ left"
  shows "prefix (bs @ [b]) (huffman_codes ! unat s)"
proof -
  have "prefix (huffman_codes ! unat s) ((bs @ [b]) @ rest)" using assms(2) by (simp add: prefix_def)
  moreover have "\<not> prefix (huffman_codes ! unat s) bs"
    using pending_no_code [OF assms(1), of "unat s"] unsigned_less [of s, where 'a = nat] by simp
  moreover have "prefix (bs @ [b]) ((bs @ [b]) @ rest)" by simp
  ultimately show ?thesis by (metis prefix_same_cases prefix_snoc prefix_order.refl)
qed

lemma no_reading:
  assumes "pending bs" "bs @ [b] \<notin> code_paths \<or> bs @ [b] = huffman_codes ! 256"
  shows "\<not> (bs @ b # rest = encode_bits out @ left \<and> pending left)"
proof
  assume h: "bs @ b # rest = encode_bits out @ left \<and> pending left"
  show False
  proof (cases out)
    case Nil
    then have "left = (bs @ [b]) @ rest" using h by simp
    then have "bs @ [b] \<in> code_paths" "\<not> prefix (huffman_codes ! 256) ((bs @ [b]) @ rest)"
      using h path_closed [of "bs @ [b]" rest] pending_no_code [of left 256] by simp_all
    then show False using assms(2) by (metis prefixI)
  next
    case (Cons s out')
    have s: "unat s < 256" using unsigned_less [of s, where 'a = nat] by simp
    have p: "prefix (bs @ [b]) (huffman_codes ! unat s)"
      using next_code_begins [OF assms(1)] h Cons by blast
    then have "bs @ [b] \<in> code_paths" unfolding path_from_code
      using s by (intro exI [of _ "unat s"]) simp
    then show False using assms(2) p codes_prefix_free [of 256 "unat s"] s by auto
  qed
qed

lemma reads_code:
  assumes "pending bs" "i < 256" "bs @ [b] = huffman_codes ! i" "unat s = i"
    and "bs @ b # rest = encode_bits out @ left" "pending left"
  shows "\<exists>out'. out = s # out'"
proof (cases out)
  case Nil
  then have "left = (bs @ [b]) @ rest" using assms(5) by simp
  then have "prefix (bs @ [b]) left" by simp
  then show ?thesis using assms(2,3) pending_no_code [OF assms(6), of i] by simp
next
  case (Cons s' out')
  have "unat s' < 257" using unsigned_less [of s', where 'a = nat] by simp
  moreover have "prefix (huffman_codes ! i) (huffman_codes ! unat s')"
    using next_code_begins [OF assms(1), of b rest s' out'] assms(3,5) Cons by simp
  ultimately have "unat s' = i" using codes_prefix_free [of i "unat s'"] assms(2) by fastforce
  then show ?thesis using Cons assms(4) by (metis word_unat_eq_iff)
qed

lemma dec_iff:
  "pending bs \<Longrightarrow> dec bs xs = Some (out, left) \<longleftrightarrow> bs @ xs = encode_bits out @ left \<and> pending left"
proof (induction xs arbitrary: bs out)
  case Nil
  then show ?case
  proof (cases out)
    case (Cons s out')
    have "bs \<noteq> encode_bits out @ left"
      using pending_no_code [OF Nil, of "unat s"] unsigned_less [of s, where 'a = nat] Cons by auto
    then show ?thesis using Cons by simp
  qed auto
next
  case (Cons b rest)
  let ?cs = "bs @ [b]"
  note none = no_reading [OF Cons.prems, of b rest out left]
  show ?case
  proof (cases rule: symbol_cases [of ?cs])
    case (1 i)
    show ?thesis
    proof (cases "i = 256")
      case True
      then show ?thesis using none 1 of_nat_symbol(2) [of i] by (simp add: Let_def)
    next
      case False
      then have i: "i < 256" using 1 by simp
      define s where "s = (ucast (of_nat i :: u16) :: byte)"
      have us: "unat s = i" using of_nat_symbol(3) [of i] i by (simp add: s_def)
      have path: "?cs \<in> code_paths" unfolding path_from_code using 1 by auto
      have d: "dec bs (b # rest) = map_option (\<lambda>(out, left). (s # out, left)) (dec [] rest)"
        using 1 of_nat_symbol(1,2) [of i] False path by (simp add: Let_def s_def)
      have eq: "bs @ b # rest = huffman_codes ! i @ rest" unfolding 1(2) [symmetric] by simp
      have "dec bs (b # rest) = Some (out, left) \<longleftrightarrow>
          (\<exists>out'. out = s # out' \<and> rest = encode_bits out' @ left \<and> pending left)"
        unfolding d using Cons.IH [OF pending_Nil] by auto
      also have "\<dots> \<longleftrightarrow> bs @ b # rest = encode_bits out @ left \<and> pending left"
        using reads_code [OF Cons.prems i 1(2) us, of rest out left, unfolded eq] unfolding eq
        by (auto simp: us)
      finally show ?thesis .
    qed
  next
    case 2
    have "NO_SYMBOL \<noteq> 256" by (simp add: NO_SYMBOL_def)
    then show ?thesis
      using 2 none Cons.IH [of ?cs] by (cases "?cs \<in> code_paths") (simp_all add: Let_def)
  qed
qed

section \<open>The machine follows the bits\<close>

definition reads_pending :: "(bool list \<Rightarrow> nat) \<Rightarrow> huffman_string \<Rightarrow> bool list \<Rightarrow> bool" where
  "reads_pending pos self bs \<longleftrightarrow>
     position self = pos bs \<and> pending_bits self = of_nat (length bs) \<and>
     pending_ones self = (\<forall>b \<in> set bs. b)"

text \<open>How a machine with a sink answers when the bits mean \<open>d\<close>: the sink receives exactly the
  decoded octets in order, and the machine keeps what was left over.\<close>

definition follows_decoding :: "(bool list \<Rightarrow> nat) \<Rightarrow> bool \<Rightarrow> (byte \<Rightarrow> ('k, 'e, unit) receiver) \<Rightarrow> 'k \<Rightarrow>
    (byte list \<times> bool list) option \<Rightarrow> (huffman_string \<times> 'k) \<times> (huffman_refusal + 'b) \<Rightarrow> bool" where
  "follows_decoding pos poisoned emit sink d result =
     (case d of
        None \<Rightarrow> \<not> is_ok (snd result)
      | Some (out, left) \<Rightarrow>
          (case feed emit sink out of
             (_, Inl _) \<Rightarrow> \<not> is_ok (snd result)
           | (sink', Inr _) \<Rightarrow> is_ok (snd result) \<and> snd (fst result) = sink' \<and>
               reads_pending pos (fst (fst result)) left \<and>
               huffman_poisoned (fst (fst result)) = poisoned))"

lemma huffman_bits_follow:
  assumes tree: "holds_paths TREE 513 code_paths pos (symbol_at 257)"
  shows "bs \<in> code_paths \<Longrightarrow> reads_pending pos self bs \<Longrightarrow>
    follows_decoding pos (huffman_poisoned self) emit sink (dec bs (bits_of n (unat byte)))
      (huffman_bits emit byte n (self, sink))"
proof (induction n arbitrary: self bs sink)
  case 0
  then show ?case by (simp add: follows_decoding_def)
next
  case (Suc n)
  note s = holds_paths_simps [OF tree]
  let ?b = "odd (unat byte div 2 ^ n)"
  let ?cs = "bs @ [?b]"
  have at: "position self = pos bs" "pending_bits self = of_nat (length bs)"
    "pending_ones self = (\<forall>b \<in> set bs. b)"
    using Suc.prems(2) by (simp_all add: reads_pending_def)
  have step: "child ?b (TREE ! pos bs) = (if ?cs \<in> code_paths then pos ?cs else 0)"
    using s(7) [OF Suc.prems(1)] .
  show ?case
  proof (cases "?cs \<in> code_paths")
    case False
    then show ?thesis using at step by (simp add: follows_decoding_def branch_odd Let_def)
  next
    case True
    have nz: "pos ?cs \<noteq> 0" using s(11) [OF True s(2)] s(3) by simp
    have sy: "symbol (TREE ! pos ?cs) = symbol_at 257 ?cs" using s(8) [OF True] .
    let ?self = "self\<lparr>position := pos ?cs, pending_bits := pending_bits self + 1,
      pending_ones := (pending_ones self \<and> ?b)\<rparr>"
    have next_: "reads_pending pos ?self ?cs" using at by (auto simp: reads_pending_def)
    let ?fresh = "self\<lparr>position := 0, pending_bits := 0, pending_ones := True\<rparr>"
    have fresh: "reads_pending pos ?fresh []" using s(3) by (simp add: reads_pending_def)
    have ih0: "follows_decoding pos (huffman_poisoned self) emit sink' (dec [] (bits_of n (unat byte)))
        (huffman_bits emit byte n (?fresh, sink'))" for sink'
      using Suc.IH [OF s(2) fresh, of sink'] by simp
    have ih1: "follows_decoding pos (huffman_poisoned self) emit sink (dec ?cs (bits_of n (unat byte)))
        (huffman_bits emit byte n (?self, sink))"
      using Suc.IH [OF True next_, of sink] by simp
    consider "symbol_at 257 ?cs = 256" | "symbol_at 257 ?cs = NO_SYMBOL" "symbol_at 257 ?cs \<noteq> 256"
      | (code) "symbol_at 257 ?cs \<noteq> 256" "symbol_at 257 ?cs \<noteq> NO_SYMBOL" by blast
    then show ?thesis
    proof cases
      case code
      let ?s = "symbol_at 257 ?cs"
      have d: "dec bs (bits_of (Suc n) (unat byte)) =
          map_option (\<lambda>(out, left). (ucast ?s # out, left)) (dec [] (bits_of n (unat byte)))"
        using code True by (simp add: Let_def)
      obtain sink' r where e: "emit (ucast ?s) sink = (sink', r)" by fastforce
      have m: "huffman_bits emit byte (Suc n) (self, sink) =
          (case r of Inl _ \<Rightarrow> ((?self, sink'), Inl HuffmanRefusal)
           | Inr _ \<Rightarrow> huffman_bits emit byte n (?fresh, sink'))"
        using code at(1) step True nz sy by (simp add: branch_odd Let_def e)
      show ?thesis
        unfolding d m using ih0 [of sink']
        by (cases r; cases "dec [] (bits_of n (unat byte))")
          (auto simp: follows_decoding_def e split: prod.splits sum.splits)
    qed (use at step True nz sy ih1 in \<open>simp_all add: follows_decoding_def branch_odd Let_def\<close>)
  qed
qed

lemma huffman_push_follows:
  assumes tree: "holds_paths TREE 513 code_paths pos (symbol_at 257)"
    and "bs \<in> code_paths" "reads_pending pos self bs" "\<not> huffman_poisoned self"
  shows "follows_decoding pos False emit sink (dec bs (bits_of 8 (unat byte)))
    (huffman_push emit byte (self, sink))"
proof -
  let ?r = "huffman_bits emit byte 8 (self\<lparr>huffman_poisoned := True\<rparr>, sink)"
  have "reads_pending pos (self\<lparr>huffman_poisoned := True\<rparr>) bs"
    using assms(3) by (simp add: reads_pending_def)
  from huffman_bits_follow [OF tree assms(2) this, of emit sink 8 byte]
  have "follows_decoding pos True emit sink (dec bs (bits_of 8 (unat byte))) ?r" by simp
  moreover obtain self' sink' a where r: "?r = ((self', sink'), a)" by (metis surj_pair)
  moreover have "huffman_push emit byte (self, sink) =
      (case a of Inl e \<Rightarrow> ((self', sink'), Inl e)
       | Inr _ \<Rightarrow> ((self'\<lparr>huffman_poisoned := False\<rparr>, sink'), Inr ()))"
    using assms(4) r by (simp add: huffman_push_def split: sum.split)
  ultimately show ?thesis
    by (auto simp: follows_decoding_def reads_pending_def
        split: option.splits prod.splits sum.splits)
qed

lemma dec_paths: "bs \<in> code_paths \<Longrightarrow> dec bs xs = Some (out, left) \<Longrightarrow> left \<in> code_paths"
proof (induction bs xs arbitrary: out rule: dec.induct)
  case (2 bs b rest)
  then show ?case using pending_Nil by (auto simp: Let_def split: if_splits)
qed simp

lemma huffman_feed_follows:
  assumes tree: "holds_paths TREE 513 code_paths pos (symbol_at 257)"
  shows "bs \<in> code_paths \<Longrightarrow> reads_pending pos self bs \<Longrightarrow> \<not> huffman_poisoned self \<Longrightarrow>
    follows_decoding pos False emit sink (dec bs (bits_of_bytes bytes))
      (feed (huffman_push emit) (self, sink) bytes)"
proof (induction bytes arbitrary: bs self sink)
  case Nil
  then show ?case by (simp add: follows_decoding_def)
next
  case (Cons byte bytes)
  note push = huffman_push_follows [OF tree Cons.prems, of emit sink byte]
  obtain self' sink' a where r: "huffman_push emit byte (self, sink) = ((self', sink'), a)"
    by (metis surj_pair)
  show ?case
  proof (cases "dec bs (bits_of 8 (unat byte))")
    case None
    then obtain e where "a = Inl e" using push r by (cases a) (auto simp: follows_decoding_def)
    then show ?thesis using None r by (simp add: follows_decoding_def dec_append)
  next
    case (Some d)
    obtain out left where d: "dec bs (bits_of 8 (unat byte)) = Some (out, left)"
      using Some by (cases d) auto
    have left: "left \<in> code_paths" using dec_paths [OF Cons.prems(1) d] .
    obtain sink1 f where f: "feed emit sink out = (sink1, f)" by fastforce
    show ?thesis
    proof (cases f)
      case (Inl e)
      then obtain e' where "a = Inl e'" using push r d f by (cases a) (auto simp: follows_decoding_def)
      then show ?thesis
        using r d f Inl
        by (auto simp: follows_decoding_def dec_append feed_append split: option.splits)
    next
      case (Inr as)
      then obtain x where a: "a = Inr x" "sink' = sink1" "reads_pending pos self' left"
        "\<not> huffman_poisoned self'"
        using push r d f by (cases a) (auto simp: follows_decoding_def)
      show ?thesis
        using Cons.IH [OF left a(3,4), of sink'] r d f Inr a
        by (auto simp: follows_decoding_def dec_append feed_append split: option.splits prod.splits sum.splits)
    qed
  qed
qed

lemma padding_pending:
  assumes "length pad \<le> 7" "\<forall>b \<in> set pad. b"
  shows "pending pad"
proof -
  have "huffman_codes ! 256 = replicate (length pad) True @ replicate (30 - length pad) True"
    using assms(1) by (simp add: code_256 flip: replicate_add)
  moreover have "pad = replicate (length pad) True" using assms(2) by (auto intro!: replicate_eqI)
  ultimately have p: "prefix pad (huffman_codes ! 256)" by (metis prefixI)
  then have "pad \<in> code_paths" unfolding path_from_code by (intro exI [of _ 256]) simp
  moreover have "pad \<noteq> huffman_codes ! j" if "j < 257" for j
  proof
    assume j: "pad = huffman_codes ! j"
    then have "j = 256" using p codes_prefix_free [of j 256] that by auto
    then show False using j assms(1) by (simp add: code_256)
  qed
  ultimately show ?thesis by (metis in_set_conv_nth length_huffman_codes)
qed

text \<open>C22: Exactly which octets are a Huffman string, and of which text.  The tree walk of the decoder
  accepts a list of octets and yields \<open>out\<close> just when their bits are the RFC 7541 codes of
  \<open>out\<close> one after another followed by at most seven padding bits, all of them ones; every
  other input (an end-of-string symbol, longer padding, a zero in the padding) is refused.  In
  particular no two texts share an encoding.\<close>

theorem huffman_decode_iff:
  "huffman_decode bytes = Inr out \<longleftrightarrow>
     (\<exists>n. n \<le> 7 \<and> bits_of_bytes bytes = encode_bits out @ replicate n True)"
proof -
  obtain pos where tree: "holds_paths TREE 513 code_paths pos (symbol_at 257)" using TREE_holds by blast
  have "reads_pending pos huffman_new []"
    using holds_paths_simps(3) [OF tree] by (simp add: reads_pending_def huffman_new_def)
  note follow = huffman_feed_follows [OF tree conjunct1 [OF pending_Nil] this, of collect "[]" bytes]
  have sink: "feed collect acc ss = (acc @ ss, Inr (replicate (length ss) ()))" for acc ss
    by (induction ss arbitrary: acc) (simp_all add: collect_def)
  have small: "length left < 256" if left: "left \<in> code_paths" for left
  proof -
    obtain i where "i < 257" "prefix left (huffman_codes ! i)" using left path_from_code by blast
    then have "length left \<le> length (code_bits (CODES ! i))"
      using prefix_length_le nth_huffman_codes by metis
    also have "\<dots> < 256"
      using unsigned_less [of "fst (CODES ! i)", where 'a = nat] by (simp add: code_bits_def split_def)
    finally show ?thesis .
  qed
  have "huffman_decode bytes = Inr out \<longleftrightarrow>
      (\<exists>pad. dec [] (bits_of_bytes bytes) = Some (out, pad) \<and> length pad \<le> 7 \<and> (\<forall>b \<in> set pad. b))"
  proof (cases "dec [] (bits_of_bytes bytes)")
    case None
    then show ?thesis
      using follow by (auto simp: huffman_new_def follows_decoding_def huffman_decode_def
          split: prod.splits sum.splits)
  next
    case (Some d)
    obtain o' pad where d: "dec [] (bits_of_bytes bytes) = Some (o', pad)" using Some by (cases d) auto
    have len: "length pad < 256" using small dec_paths pending_Nil d by blast
    obtain self bs where f: "feed (huffman_push collect) (huffman_new, []) bytes = ((self, o'), Inr bs)"
      and at: "reads_pending pos self pad" "\<not> huffman_poisoned self"
      using follow d sink [of "[]" o']
      by (cases "feed (huffman_push collect) (huffman_new, []) bytes")
        (auto simp: huffman_new_def follows_decoding_def is_ok_iff)
    have "unat (of_nat (length pad) :: byte) = length pad" using len by (simp add: unat_of_nat)
    then show ?thesis
      using f d at by (auto simp: huffman_decode_def huffman_finish_def reads_pending_def word_less_nat_alt)
  qed
  also have "\<dots> \<longleftrightarrow> (\<exists>pad. bits_of_bytes bytes = encode_bits out @ pad \<and> length pad \<le> 7 \<and> (\<forall>b \<in> set pad. b))"
  proof -
    have "pending pad" if "length pad \<le> 7" "\<forall>b \<in> set pad. b" for pad
      using padding_pending that by blast
    then show ?thesis using dec_iff [OF pending_Nil, of "bits_of_bytes bytes" out] by auto
  qed
  also have "\<dots> \<longleftrightarrow> (\<exists>n. n \<le> 7 \<and> bits_of_bytes bytes = encode_bits out @ replicate n True)"
  proof -
    have "(\<forall>b \<in> set pad. b) \<longleftrightarrow> pad = replicate (length pad) True" for pad
      by (induction pad) auto
    then show ?thesis by (metis length_replicate)
  qed
  finally show ?thesis .
qed

section \<open>A refused string stays refused\<close>

interpretation huffman: closing_decoder "huffman_push emit" "\<lambda>(self, sink). huffman_poisoned self"
  for emit :: "byte \<Rightarrow> ('k, 'e, unit) receiver"
proof
  have keeps: "huffman_poisoned (fst (fst (huffman_bits emit byte n (self, sink)))) = huffman_poisoned self"
    for byte n self and sink :: 'k
    by (induction n arbitrary: self sink) (auto simp: Let_def split: prod.splits sum.splits)
  fix i s s' e
  assume "huffman_push emit i s = (s', Inl e)"
  then show "case s' of (self, sink) \<Rightarrow> huffman_poisoned self"
    using keeps [of i 8 "fst s\<lparr>huffman_poisoned := True\<rparr>" "snd s"]
    by (auto simp: huffman_push_def split: prod.splits if_splits sum.splits)
next
  fix i s s' and r :: "huffman_refusal + unit"
  assume "case s of (self, sink) \<Rightarrow> huffman_poisoned self" "huffman_push emit i s = (s', r)"
  then show "\<not> is_ok r" by (auto simp: huffman_push_def split: prod.splits)
qed

end
