(* ===== verification/Hpack_String.thy ===== *)
theory Hpack_String
  imports Hpack_Integer Hpack_Huffman
begin

unbundle bit_operations_syntax

text \<open>
  The length-delimited literal strings of
  \<open>slingshot-agent-connection/src/selected_author_hpack_string.rs\<close>: a prefix integer that counts
  encoded octets, then that many octets, raw or Huffman coded, passed to a sink.  The theorem
  composes the meaning of prefix integers and of Huffman strings.
\<close>

datatype string_refusal = StringRefusal

record literal_string =
  str_length :: prefixed_integer
  str_remaining :: "u64 option"
  str_huffman :: "huffman_string option"
  str_poisoned :: bool

definition literal_start :: "byte \<Rightarrow> u64 \<Rightarrow> string_refusal + literal_string" where
  "literal_start first maximum_encoded_bytes =
     (case integer_start first 7 maximum_encoded_bytes of
        Inl _ \<Rightarrow> Inl StringRefusal
      | Inr len \<Rightarrow>
          Inr \<lparr>str_length = len, str_remaining = integer_value len,
               str_huffman = (if first AND 0x80 \<noteq> 0 then Some huffman_new else None),
               str_poisoned = False\<rparr>)"

definition literal_is_complete :: "literal_string \<Rightarrow> bool" where
  "literal_is_complete self \<longleftrightarrow> \<not> str_poisoned self \<and> str_remaining self = Some 0"

definition encoded_limit_exceeded :: "literal_string \<Rightarrow> bool" where
  "encoded_limit_exceeded self = int_limit_exceeded (str_length self)"

definition remaining_encoded_bytes :: "literal_string \<Rightarrow> u64 option" where
  "remaining_encoded_bytes self = str_remaining self"

text \<open>The end of a data octet: one octet less is owed, and the last one closes a Huffman string.\<close>

definition literal_counted :: "u64 \<Rightarrow> literal_string \<Rightarrow> literal_string \<times> (string_refusal + unit)" where
  "literal_counted remaining self =
     (let self = self\<lparr>str_remaining := Some (remaining - 1)\<rparr> in
      case str_huffman self of
        Some decoder \<Rightarrow>
          if remaining = 1
          then let self = self\<lparr>str_huffman := None\<rparr> in
            (case huffman_finish decoder of
               Inl _ \<Rightarrow> (self, Inl StringRefusal)
             | Inr _ \<Rightarrow> (self\<lparr>str_poisoned := False\<rparr>, Inr ()))
          else (self\<lparr>str_poisoned := False\<rparr>, Inr ())
      | None \<Rightarrow> (self\<lparr>str_poisoned := False\<rparr>, Inr ()))"

definition literal_push :: "(byte \<Rightarrow> ('k, 'e, unit) receiver) \<Rightarrow> byte \<Rightarrow>
    (literal_string \<times> 'k, string_refusal, unit) receiver" where
  "literal_push emit byte = (\<lambda>(self, sink).
     if str_poisoned self \<or> literal_is_complete self
     then ((self\<lparr>str_poisoned := True\<rparr>, sink), Inl StringRefusal)
     else let self = self\<lparr>str_poisoned := True\<rparr> in
       case str_remaining self of
         Some remaining \<Rightarrow>
           (case str_huffman self of
              Some decoder \<Rightarrow>
                (case huffman_push emit byte (decoder, sink) of
                   ((decoder, sink), Inl _) \<Rightarrow>
                     ((self\<lparr>str_huffman := Some decoder\<rparr>, sink), Inl StringRefusal)
                 | ((decoder, sink), Inr _) \<Rightarrow>
                     (case literal_counted remaining (self\<lparr>str_huffman := Some decoder\<rparr>) of
                        (self, r) \<Rightarrow> ((self, sink), r)))
            | None \<Rightarrow>
                (case emit byte sink of
                   (sink, Inl _) \<Rightarrow> ((self, sink), Inl StringRefusal)
                 | (sink, Inr _) \<Rightarrow>
                     (case literal_counted remaining self of (self, r) \<Rightarrow> ((self, sink), r))))
       | None \<Rightarrow>
           (case integer_push byte (str_length self) of
              (len, Inl _) \<Rightarrow> ((self\<lparr>str_length := len\<rparr>, sink), Inl StringRefusal)
            | (len, Inr value) \<Rightarrow>
                ((self\<lparr>str_length := len, str_remaining := value, str_poisoned := False\<rparr>, sink),
                 Inr ())))"

definition literal_finish :: "literal_string \<Rightarrow> string_refusal + unit" where
  "literal_finish self =
     (if \<not> literal_is_complete self then Inl StringRefusal
      else case str_huffman self of
        Some decoder \<Rightarrow> (case huffman_finish decoder of Inl _ \<Rightarrow> Inl StringRefusal | Inr _ \<Rightarrow> Inr ())
      | None \<Rightarrow> Inr ())"

text \<open>A whole string into a collecting sink.\<close>

definition literal_after :: "literal_string \<Rightarrow> byte list \<Rightarrow> byte list \<Rightarrow> string_refusal + byte list" where
  "literal_after self acc bytes =
     (case feed (literal_push collect) (self, acc) bytes of
        (_, Inl refusal) \<Rightarrow> Inl refusal
      | ((self, acc), Inr _) \<Rightarrow> bindE (literal_finish self) (\<lambda>_. Inr acc))"

definition literal_decode :: "byte \<Rightarrow> u64 \<Rightarrow> byte list \<Rightarrow> string_refusal + byte list" where
  "literal_decode first maximum bytes =
     bindE (literal_start first maximum) (\<lambda>self. literal_after self [] bytes)"

section \<open>The data octets\<close>

lemma literal_after_Cons:
  "literal_after self acc (b # bs) =
     (case literal_push collect b (self, acc) of
        (_, Inl refusal) \<Rightarrow> Inl refusal
      | ((self, acc), Inr _) \<Rightarrow> literal_after self acc bs)"
  by (auto simp: literal_after_def split: prod.splits sum.splits)

lemma literal_after_complete:
  "literal_is_complete self \<Longrightarrow> str_huffman self = None \<Longrightarrow>
     literal_after self acc bs = Inr out \<longleftrightarrow> bs = [] \<and> out = acc"
  by (cases bs) (auto simp: literal_after_def literal_push_def literal_finish_def)

lemma unat_minus_one_word: "r \<noteq> 0 \<Longrightarrow> unat (r - 1 :: u64) = unat r - 1"
  using unat_sub [of 1 r] by (simp add: word_le_nat_alt unat_gt_0 [symmetric] Suc_le_eq)

lemma literal_raw:
  "\<not> str_poisoned self \<Longrightarrow> str_remaining self = Some r \<Longrightarrow> str_huffman self = None \<Longrightarrow>
     literal_after self acc bs = Inr out \<longleftrightarrow> length bs = unat r \<and> out = acc @ bs"
proof (induction bs arbitrary: self r acc)
  case Nil
  then show ?case
    by (auto simp: literal_after_def literal_finish_def literal_is_complete_def unat_eq_zero)
next
  case (Cons b bs)
  show ?case
  proof (cases "r = 0")
    case True
    then show ?thesis using Cons.prems literal_after_complete [of self acc "b # bs"]
      by (auto simp: literal_is_complete_def)
  next
    case False
    let ?self = "self\<lparr>str_poisoned := False, str_remaining := Some (r - 1)\<rparr>"
    have "literal_push collect b (self, acc) = ((?self, acc @ [b]), Inr ())"
      using Cons.prems False
      by (simp add: literal_push_def literal_is_complete_def Let_def collect_def literal_counted_def)
    then show ?thesis
      using Cons.IH [of ?self "r - 1" "acc @ [b]"] Cons.prems False unat_minus_one_word [OF False]
      by (auto simp: literal_after_Cons unat_gt_0 [symmetric])
  qed
qed

definition huffman_after :: "huffman_string \<Rightarrow> byte list \<Rightarrow> byte list \<Rightarrow> huffman_refusal + byte list" where
  "huffman_after decoder acc bytes =
     (case feed (huffman_push collect) (decoder, acc) bytes of
        (_, Inl refusal) \<Rightarrow> Inl refusal
      | ((decoder, acc), Inr _) \<Rightarrow> bindE (huffman_finish decoder) (\<lambda>_. Inr acc))"

lemma huffman_after_Cons:
  "huffman_after decoder acc (b # bs) =
     (case huffman_push collect b (decoder, acc) of
        (_, Inl refusal) \<Rightarrow> Inl refusal
      | ((decoder, acc), Inr _) \<Rightarrow> huffman_after decoder acc bs)"
  by (auto simp: huffman_after_def split: prod.splits sum.splits)

lemma literal_huffman:
  "\<not> str_poisoned self \<Longrightarrow> str_remaining self = Some r \<Longrightarrow> str_huffman self = Some decoder \<Longrightarrow>
     literal_after self acc bs = Inr out \<longleftrightarrow>
     length bs = unat r \<and> huffman_after decoder acc bs = Inr out"
proof (induction bs arbitrary: self r decoder acc)
  case Nil
  then show ?case
    by (auto simp: literal_after_def literal_finish_def literal_is_complete_def huffman_after_def
        unat_eq_zero split: sum.splits)
next
  case (Cons b bs)
  show ?case
  proof (cases "r = 0")
    case True
    then show ?thesis using Cons.prems
      by (auto simp: literal_is_complete_def literal_after_Cons literal_push_def)
  next
    case False
    obtain d' out' a where p: "huffman_push collect b (decoder, acc) = ((d', out'), a)"
      by (metis surj_pair)
    let ?self = "self\<lparr>str_poisoned := False, str_huffman := Some d', str_remaining := Some (r - 1)\<rparr>"
    consider (refused) e where "a = Inl e" | (last) x where "a = Inr x" "r = 1"
      | (more) x where "a = Inr x" "r \<noteq> 1" by (cases a) auto
    then show ?thesis
    proof cases
      case refused
      then show ?thesis using Cons.prems False p
        by (simp add: literal_after_Cons literal_push_def literal_is_complete_def huffman_after_Cons Let_def)
    next
      case last
      then show ?thesis using Cons.prems p
        by (cases bs)
          (auto simp: literal_after_def literal_finish_def literal_push_def literal_is_complete_def
            huffman_after_def literal_counted_def Let_def split: sum.splits)
    next
      case more
      have "literal_push collect b (self, acc) = ((?self, out'), Inr ())"
        using Cons.prems False p more
        by (simp add: literal_push_def literal_is_complete_def Let_def literal_counted_def)
      then show ?thesis
        using Cons.IH [of ?self "r - 1" d' out'] False p more unat_minus_one_word [OF False]
        by (auto simp: literal_after_Cons huffman_after_Cons unat_gt_0 [symmetric])
    qed
  qed
qed

section \<open>The length octets\<close>

lemma integer_push_Inr:
  "integer_push b p = (p', Inr v) \<Longrightarrow> v = integer_value p' \<and> \<not> int_poisoned p'"
  by (auto simp: integer_push_def Let_def integer_value_def split: if_splits option.splits)

lemma integer_value_complete:
  "integer_value p = Some n \<Longrightarrow> finish_after p bs = Inr w \<longleftrightarrow> bs = [] \<and> w = n"
  using finish_after_complete [of p bs w] by (auto simp: integer_value_def split: if_splits)

text \<open>What the data octets give once the length is known.\<close>

definition data_decodes :: "huffman_string option \<Rightarrow> byte list \<Rightarrow> byte list \<Rightarrow> byte list \<Rightarrow> bool" where
  "data_decodes h acc payload out =
     (case h of None \<Rightarrow> out = acc @ payload | Some d \<Rightarrow> huffman_after d acc payload = Inr out)"

lemma literal_data:
  "\<not> str_poisoned self \<Longrightarrow> str_remaining self = Some r \<Longrightarrow>
     literal_after self acc bs = Inr out \<longleftrightarrow>
     length bs = unat r \<and> data_decodes (str_huffman self) acc bs out"
  by (cases "str_huffman self") (simp_all add: literal_raw literal_huffman data_decodes_def)

lemma literal_length:
  "\<not> str_poisoned self \<Longrightarrow> str_remaining self = integer_value (str_length self) \<Longrightarrow>
     literal_after self acc bytes = Inr out \<longleftrightarrow>
     (\<exists>len_bytes payload n. bytes = len_bytes @ payload \<and>
        finish_after (str_length self) len_bytes = Inr n \<and> length payload = unat n \<and>
        data_decodes (str_huffman self) acc payload out)"
proof (induction bytes arbitrary: self)
  case Nil
  show ?case
  proof (cases "str_remaining self")
    case None
    then show ?thesis using Nil
      by (auto simp: literal_after_def literal_finish_def literal_is_complete_def finish_after_def
          integer_finish_def)
  next
    case (Some r)
    then show ?thesis using Nil literal_data [of self r acc "[]" out] integer_value_complete by auto
  qed
next
  case (Cons b bs)
  show ?case
  proof (cases "str_remaining self")
    case (Some r)
    then show ?thesis using Cons.prems literal_data [of self r acc "b # bs" out] integer_value_complete
      by auto
  next
    case None
    obtain p' a where p: "integer_push b (str_length self) = (p', a)" by fastforce
    have nofin: "finish_after (str_length self) [] \<noteq> Inr n" for n
      using None Cons.prems by (simp add: finish_after_def integer_finish_def)
    have split: "(\<exists>len_bytes payload n. b # bs = len_bytes @ payload \<and>
        finish_after (str_length self) len_bytes = Inr n \<and> Q payload n) \<longleftrightarrow>
      (\<exists>len_bytes payload n. bs = len_bytes @ payload \<and>
        finish_after (str_length self) (b # len_bytes) = Inr n \<and> Q payload n)" for Q
      using nofin by (auto simp: Cons_eq_append_conv)
    show ?thesis
    proof (cases a)
      case (Inl e)
      then show ?thesis unfolding split using p Cons.prems None
        by (simp add: literal_after_Cons literal_push_def literal_is_complete_def Let_def finish_after_Cons)
    next
      case (Inr v)
      let ?self = "self\<lparr>str_poisoned := False, str_length := p', str_remaining := v\<rparr>"
      have "literal_push collect b (self, acc) = ((?self, acc), Inr ())"
        using p Inr Cons.prems None by (simp add: literal_push_def literal_is_complete_def Let_def)
      then have "literal_after self acc (b # bs) = literal_after ?self acc bs"
        by (simp add: literal_after_Cons)
      moreover have "v = integer_value p'" using integer_push_Inr [of b "str_length self" p' v] p Inr by simp
      ultimately show ?thesis
        unfolding split using Cons.IH [of ?self] p Inr by (simp add: finish_after_Cons)
    qed
  qed
qed

text \<open>What a literal string of HPACK means.  A first octet and the octets after it decode to
  \<open>out\<close> just when they split into the continuation of a 7-bit prefix integer of value \<open>n\<close>
  within the encoded bound and exactly \<open>n\<close> octets of data, which are \<open>out\<close> itself or, when
  the first octet has its high bit set, a Huffman string of \<open>out\<close>.\<close>

lemma literal_decode_iff:
  "literal_decode first maximum bytes = Inr out \<longleftrightarrow>
     (\<exists>len_bytes payload n. bytes = len_bytes @ payload \<and>
        decode_integer first 7 maximum len_bytes = Inr n \<and> unat n = length payload \<and>
        (if first AND 0x80 \<noteq> 0 then huffman_decode payload = Inr out else out = payload))"
proof (cases "integer_start first 7 maximum")
  case (Inl e)
  then show ?thesis by (simp add: literal_decode_def literal_start_def decode_integer_def)
next
  case (Inr p)
  define self where "self = \<lparr>str_length = p, str_remaining = integer_value p,
    str_huffman = (if first AND 0x80 \<noteq> 0 then Some huffman_new else None), str_poisoned = False\<rparr>"
  have "literal_decode first maximum bytes = literal_after self [] bytes"
    using Inr by (simp add: literal_decode_def literal_start_def self_def)
  moreover have "decode_integer first 7 maximum bs = finish_after p bs" for bs
    using Inr by (simp add: decode_integer_def finish_after_def)
  moreover have "data_decodes (str_huffman self) [] payload out \<longleftrightarrow>
      (if first AND 0x80 \<noteq> 0 then huffman_decode payload = Inr out else out = payload)" for payload
    by (simp add: self_def data_decodes_def huffman_decode_def huffman_after_def)
  moreover have "str_length self = p" "str_remaining self = integer_value p" "\<not> str_poisoned self"
    by (simp_all add: self_def)
  ultimately show ?thesis
    using literal_length [of self "[]" bytes out] by metis
qed

section \<open>A refused string stays refused\<close>

lemma literal_counted_refusal:
  "literal_counted r self = (self', Inl e) \<Longrightarrow> str_poisoned self \<Longrightarrow> str_poisoned self'"
  by (auto simp: literal_counted_def Let_def split: option.splits if_splits sum.splits)

interpretation literal: closing_decoder "literal_push emit" "\<lambda>(self, sink). str_poisoned self"
  for emit :: "byte \<Rightarrow> ('k, 'e, unit) receiver"
proof
  fix i s s' e
  assume "literal_push emit i s = (s', Inl e)"
  then show "case s' of (self, sink) \<Rightarrow> str_poisoned self"
    by (cases s; cases "str_remaining (fst s)"; cases "str_huffman (fst s)")
      (auto simp: literal_push_def Let_def dest: literal_counted_refusal
        split: prod.splits if_splits sum.splits)
next
  fix i s s' and r :: "string_refusal + unit"
  assume "case s of (self, sink) \<Rightarrow> str_poisoned self" "literal_push emit i s = (s', r)"
  then show "\<not> is_ok r" by (auto simp: literal_push_def split: prod.splits)
qed

end
