(* ===== verification/Hpack_Table.thy ===== *)
theory Hpack_Table
  imports Slingshot_Prelude
begin

text \<open>
  The static and dynamic tables of \<open>slingshot-agent-connection/src/selected_author_hpack_table.rs\<close>.
  The dynamic table is modelled with its own byte account, its eviction loop and the panic that
  would follow from a wrong account (\<open>None\<close>).  The refinement theorem shows that the panic is
  unreachable and that the table is, after any operations, the table RFC 7541 section 4
  describes: the longest run of newest entries that fits the capacity.
\<close>

abbreviation ascii :: "string \<Rightarrow> byte list" where
  "ascii \<equiv> map of_char"

definition MAXIMUM_DYNAMIC_TABLE_BYTES :: u64 where
  "MAXIMUM_DYNAMIC_TABLE_BYTES = 4096"

definition STATIC :: "(byte list \<times> byte list) list" where
  "STATIC = [
    (ascii '':authority'', ascii ''''),
    (ascii '':method'', ascii ''GET''),
    (ascii '':method'', ascii ''POST''),
    (ascii '':path'', ascii ''/''),
    (ascii '':path'', ascii ''/index.html''),
    (ascii '':scheme'', ascii ''http''),
    (ascii '':scheme'', ascii ''https''),
    (ascii '':status'', ascii ''200''),
    (ascii '':status'', ascii ''204''),
    (ascii '':status'', ascii ''206''),
    (ascii '':status'', ascii ''304''),
    (ascii '':status'', ascii ''400''),
    (ascii '':status'', ascii ''404''),
    (ascii '':status'', ascii ''500''),
    (ascii ''accept-charset'', ascii ''''),
    (ascii ''accept-encoding'', ascii ''gzip, deflate''),
    (ascii ''accept-language'', ascii ''''),
    (ascii ''accept-ranges'', ascii ''''),
    (ascii ''accept'', ascii ''''),
    (ascii ''access-control-allow-origin'', ascii ''''),
    (ascii ''age'', ascii ''''),
    (ascii ''allow'', ascii ''''),
    (ascii ''authorization'', ascii ''''),
    (ascii ''cache-control'', ascii ''''),
    (ascii ''content-disposition'', ascii ''''),
    (ascii ''content-encoding'', ascii ''''),
    (ascii ''content-language'', ascii ''''),
    (ascii ''content-length'', ascii ''''),
    (ascii ''content-location'', ascii ''''),
    (ascii ''content-range'', ascii ''''),
    (ascii ''content-type'', ascii ''''),
    (ascii ''cookie'', ascii ''''),
    (ascii ''date'', ascii ''''),
    (ascii ''etag'', ascii ''''),
    (ascii ''expect'', ascii ''''),
    (ascii ''expires'', ascii ''''),
    (ascii ''from'', ascii ''''),
    (ascii ''host'', ascii ''''),
    (ascii ''if-match'', ascii ''''),
    (ascii ''if-modified-since'', ascii ''''),
    (ascii ''if-none-match'', ascii ''''),
    (ascii ''if-range'', ascii ''''),
    (ascii ''if-unmodified-since'', ascii ''''),
    (ascii ''last-modified'', ascii ''''),
    (ascii ''link'', ascii ''''),
    (ascii ''location'', ascii ''''),
    (ascii ''max-forwards'', ascii ''''),
    (ascii ''proxy-authenticate'', ascii ''''),
    (ascii ''proxy-authorization'', ascii ''''),
    (ascii ''range'', ascii ''''),
    (ascii ''referer'', ascii ''''),
    (ascii ''refresh'', ascii ''''),
    (ascii ''retry-after'', ascii ''''),
    (ascii ''server'', ascii ''''),
    (ascii ''set-cookie'', ascii ''''),
    (ascii ''strict-transport-security'', ascii ''''),
    (ascii ''transfer-encoding'', ascii ''''),
    (ascii ''user-agent'', ascii ''''),
    (ascii ''vary'', ascii ''''),
    (ascii ''via'', ascii ''''),
    (ascii ''www-authenticate'', ascii '''')]"

datatype table_refusal = TableRefusal

record table_entry =
  entry_name :: "byte list"
  entry_value :: "byte list"
  entry_charged :: u64

record header_table =
  entries :: "table_entry list"
  charged_bytes :: u64
  table_maximum :: u64

definition table_new :: header_table where
  "table_new = \<lparr>entries = [], charged_bytes = 0, table_maximum = MAXIMUM_DYNAMIC_TABLE_BYTES\<rparr>"

text \<open>\<open>u64::try_from\<close> of a length.\<close>

definition u64_of_len :: "nat \<Rightarrow> u64 option" where
  "u64_of_len n = (if n < 2 ^ 64 then Some (of_nat n) else None)"

definition table_lookup :: "u64 \<Rightarrow> header_table \<Rightarrow> table_refusal + (byte list \<times> byte list)" where
  "table_lookup index self =
     (if index = 0 then Inl TableRefusal
      else if index \<le> of_nat (length STATIC) then Inr (STATIC ! (unat index - 1))
      else let offset = unat (index - of_nat (length STATIC) - 1) in
        if offset < length (entries self)
        then Inr (entry_name (entries self ! offset), entry_value (entries self ! offset))
        else Inl TableRefusal)"

text \<open>The eviction loop over the entries, newest first, and the account.  The \<open>expect\<close> on an empty
  deque is \<open>None\<close>.\<close>

function evict :: "u64 \<Rightarrow> table_entry list \<Rightarrow> u64 \<Rightarrow> (table_entry list \<times> u64) option" where
  "evict maximum es charged =
     (if \<not> charged > maximum then Some (es, charged)
      else if es = [] then None
      else evict maximum (butlast es) (charged - entry_charged (last es)))"
  by auto
termination by (relation "measure (\<lambda>(_, es, _). length es)") auto

declare evict.simps [simp del]

definition evict_to :: "u64 \<Rightarrow> header_table \<Rightarrow> header_table option" where
  "evict_to maximum self =
     (case evict maximum (entries self) (charged_bytes self) of
        None \<Rightarrow> None
      | Some (es, charged) \<Rightarrow> Some (self\<lparr>entries := es, charged_bytes := charged\<rparr>))"

definition table_resize :: "u64 \<Rightarrow> header_table \<Rightarrow> (header_table \<times> (table_refusal + unit)) option" where
  "table_resize maximum self =
     (if maximum > MAXIMUM_DYNAMIC_TABLE_BYTES then Some (self, Inl TableRefusal)
      else case evict_to maximum (self\<lparr>table_maximum := maximum\<rparr>) of
        None \<Rightarrow> None
      | Some self \<Rightarrow> Some (self, Inr ()))"

definition entry_size :: "byte list \<Rightarrow> byte list \<Rightarrow> u64 option" where
  "entry_size name val =
     Option.bind (Option.bind (u64_of_len (length name)) (\<lambda>n.
       Option.bind (u64_of_len (length val)) (\<lambda>v. checked_add n v)))
       (\<lambda>sz. checked_add sz 32)"

definition table_insert :: "byte list \<Rightarrow> byte list \<Rightarrow> header_table \<Rightarrow>
    (header_table \<times> (table_refusal + unit)) option" where
  "table_insert name val self =
     (case entry_size name val of
        None \<Rightarrow> Some (self, Inl TableRefusal)
      | Some sz \<Rightarrow>
          if sz > table_maximum self
          then (case evict_to 0 self of None \<Rightarrow> None | Some self \<Rightarrow> Some (self, Inr ()))
          else (case evict_to (table_maximum self - sz) self of
                  None \<Rightarrow> None
                | Some self \<Rightarrow>
                    Some (self\<lparr>entries := \<lparr>entry_name = name, entry_value = val, entry_charged = sz\<rparr>
                                 # entries self,
                               charged_bytes := charged_bytes self + sz\<rparr>, Inr ())))"

definition table_clear :: "header_table \<Rightarrow> header_table option" where
  "table_clear self = evict_to 0 self"

section \<open>The table RFC 7541 describes\<close>

type_synonym header_field = "byte list \<times> byte list"

definition field_size :: "header_field \<Rightarrow> nat" where
  "field_size f = length (fst f) + length (snd f) + 32"

text \<open>The longest run of newest fields within a capacity.\<close>

fun fitting :: "nat \<Rightarrow> header_field list \<Rightarrow> header_field list" where
  "fitting cap [] = []"
| "fitting cap (f # fs) = (if field_size f \<le> cap then f # fitting (cap - field_size f) fs else [])"

definition total_size :: "header_field list \<Rightarrow> nat" where
  "total_size fs = sum_list (map field_size fs)"

lemma total_size_simps [simp]:
  "total_size [] = 0" "total_size (f # fs) = field_size f + total_size fs"
  "total_size (xs @ ys) = total_size xs + total_size ys"
  by (simp_all add: total_size_def)

lemma fitting_total: "total_size (fitting cap fs) \<le> cap"
  by (induction cap fs rule: fitting.induct) auto

lemma fitting_all: "total_size fs \<le> cap \<Longrightarrow> fitting cap fs = fs"
  by (induction cap fs rule: fitting.induct) auto

lemma fitting_butlast: "cap < total_size fs \<Longrightarrow> fitting cap fs = fitting cap (butlast fs)"
  by (induction cap fs rule: fitting.induct) (auto simp: not_le)

lemma fitting_0: "fitting 0 fs = []"
  by (cases fs) (simp_all add: field_size_def)

section \<open>The account is exact\<close>

abbreviation entry_field :: "table_entry \<Rightarrow> header_field" where
  "entry_field e \<equiv> (entry_name e, entry_value e)"

definition table_fields :: "header_table \<Rightarrow> header_field list" where
  "table_fields self = map entry_field (entries self)"

definition account_ok :: "header_table \<Rightarrow> bool" where
  "account_ok self \<longleftrightarrow>
     (\<forall>e \<in> set (entries self). unat (entry_charged e) = field_size (entry_field e)) \<and>
     unat (charged_bytes self) = total_size (table_fields self)"

definition table_ok :: "header_table \<Rightarrow> bool" where
  "table_ok self \<longleftrightarrow> account_ok self \<and>
     charged_bytes self \<le> table_maximum self \<and> table_maximum self \<le> MAXIMUM_DYNAMIC_TABLE_BYTES"

lemma evict_exact:
  assumes "\<forall>e \<in> set es. unat (entry_charged e) = field_size (entry_field e)"
    and "unat charged = total_size (map entry_field es)"
  shows "\<exists>es' charged'. evict maximum es charged = Some (es', charged') \<and> set es' \<subseteq> set es \<and>
    map entry_field es' = fitting (unat maximum) (map entry_field es) \<and>
    unat charged' = total_size (map entry_field es')"
  using assms
proof (induction "length es" arbitrary: es charged)
  case 0
  then show ?case by (auto simp: evict.simps [of maximum "[]"] word_less_nat_alt)
next
  case (Suc n)
  show ?case
  proof (cases "charged > maximum")
    case False
    then show ?thesis
      using Suc.prems by (auto simp: evict.simps [of maximum es] word_less_nat_alt fitting_all)
  next
    case True
    obtain xs x where es: "es = xs @ [x]" using Suc.hyps(2) by (cases es rule: rev_cases) auto
    have "total_size (map entry_field es) = total_size (map entry_field xs) + unat (entry_charged x)"
      using Suc.prems(1) es by simp
    then have c: "unat (charged - entry_charged x) = total_size (map entry_field xs)"
      using Suc.prems(2) by (simp add: unat_sub word_le_nat_alt)
    have "evict maximum es charged = evict maximum xs (charged - entry_charged x)"
      using True es by (subst evict.simps) simp
    moreover have "fitting (unat maximum) (map entry_field es) = fitting (unat maximum) (map entry_field xs)"
      using fitting_butlast [of "unat maximum" "map entry_field es"] True Suc.prems(2) es
      by (simp add: word_less_nat_alt map_butlast [symmetric])
    ultimately show ?thesis
      using Suc.hyps(1) [of xs "charged - entry_charged x"] Suc.hyps(2) Suc.prems(1) es c by auto
  qed
qed

lemma evict_to_exact:
  assumes "account_ok self"
  obtains self' where "evict_to maximum self = Some self'"
    "table_fields self' = fitting (unat maximum) (table_fields self)"
    "table_maximum self' = table_maximum self" "account_ok self'" "charged_bytes self' \<le> maximum"
proof -
  have h: "\<forall>e \<in> set (entries self). unat (entry_charged e) = field_size (entry_field e)"
    "unat (charged_bytes self) = total_size (map entry_field (entries self))"
    using assms by (simp_all add: account_ok_def table_fields_def)
  from evict_exact [OF this, of maximum] obtain es charged where
    e: "evict maximum (entries self) (charged_bytes self) = Some (es, charged)" "set es \<subseteq> set (entries self)"
      "map entry_field es = fitting (unat maximum) (map entry_field (entries self))"
      "unat charged = total_size (map entry_field es)" by blast
  have "charged \<le> maximum" using e(3,4) fitting_total by (simp add: word_le_nat_alt)
  with e h(1) show thesis
    by (intro that [of "self\<lparr>entries := es, charged_bytes := charged\<rparr>"])
      (auto simp: evict_to_def table_fields_def account_ok_def)
qed

lemma entry_size_exact:
  "entry_size name val = Some sz \<Longrightarrow> unat sz = field_size (name, val)"
  by (auto simp: entry_size_def u64_of_len_def field_size_def bind_eq_Some_conv unat_of_nat
      split: if_splits dest!: checked_add_Some)

lemma table_resize_exact:
  assumes "table_ok self" "maximum \<le> MAXIMUM_DYNAMIC_TABLE_BYTES"
  obtains self' where "table_resize maximum self = Some (self', Inr ())" "table_ok self'"
    "table_maximum self' = maximum" "table_fields self' = fitting (unat maximum) (table_fields self)"
proof -
  let ?self = "self\<lparr>table_maximum := maximum\<rparr>"
  have "account_ok ?self" using assms(1) by (simp add: table_ok_def account_ok_def table_fields_def)
  then obtain self' where s: "evict_to maximum ?self = Some self'"
    "table_fields self' = fitting (unat maximum) (table_fields ?self)"
    "table_maximum self' = table_maximum ?self" "account_ok self'" "charged_bytes self' \<le> maximum"
    by (rule evict_to_exact)
  then show thesis using assms(2)
    by (intro that [of self']) (auto simp: table_resize_def table_ok_def table_fields_def)
qed

lemma table_clear_exact:
  assumes "table_ok self"
  obtains self' where "table_clear self = Some self'" "table_ok self'"
    "table_maximum self' = table_maximum self" "table_fields self' = []"
proof -
  have "account_ok self" using assms by (simp add: table_ok_def)
  then obtain self' where "evict_to 0 self = Some self'"
    "table_fields self' = fitting (unat (0::u64)) (table_fields self)"
    "table_maximum self' = table_maximum self" "account_ok self'" "charged_bytes self' \<le> 0"
    by (rule evict_to_exact)
  then show thesis using assms
    by (intro that [of self']) (auto simp: table_clear_def table_ok_def fitting_0)
qed

lemma table_insert_exact:
  assumes "table_ok self" "entry_size name val = Some sz"
  obtains self' where "table_insert name val self = Some (self', Inr ())" "table_ok self'"
    "table_maximum self' = table_maximum self"
    "table_fields self' = fitting (unat (table_maximum self)) ((name, val) # table_fields self)"
proof (cases "sz > table_maximum self")
  case True
  then have "fitting (unat (table_maximum self)) ((name, val) # table_fields self) = []"
    using entry_size_exact [OF assms(2)] by (simp add: word_less_nat_alt)
  moreover obtain self' where "table_clear self = Some self'" "table_ok self'"
    "table_maximum self' = table_maximum self" "table_fields self' = []"
    using assms(1) by (rule table_clear_exact)
  ultimately show thesis
    using True assms(2) by (intro that [of self']) (simp_all add: table_insert_def table_clear_def)
next
  case False
  have sz: "unat sz = field_size (name, val)" using entry_size_exact [OF assms(2)] .
  let ?room = "table_maximum self - sz"
  have room: "unat ?room = unat (table_maximum self) - field_size (name, val)"
    "unat ?room + unat sz = unat (table_maximum self)"
    using False sz by (simp_all add: unat_sub word_le_nat_alt not_less)
  have "account_ok self" using assms(1) by (simp add: table_ok_def)
  then obtain s where s: "evict_to ?room self = Some s"
    "table_fields s = fitting (unat ?room) (table_fields self)"
    "table_maximum s = table_maximum self" "account_ok s" "charged_bytes s \<le> ?room"
    by (rule evict_to_exact)
  have add: "unat (charged_bytes s + sz) = unat (charged_bytes s) + unat sz"
    using s(5) room(2) unsigned_less [of "table_maximum self", where 'a = nat]
    by (simp add: word_le_nat_alt unat_word_ariths)
  let ?s = "s\<lparr>entries := \<lparr>entry_name = name, entry_value = val, entry_charged = sz\<rparr> # entries s,
    charged_bytes := charged_bytes s + sz\<rparr>"
  have "table_insert name val self = Some (?s, Inr ())"
    using assms(2) False s(1) by (simp add: table_insert_def)
  moreover have "table_fields ?s = (name, val) # table_fields s" by (simp add: table_fields_def)
  moreover have "table_ok ?s"
    using s(3,4,5) assms(1) sz add room(2)
    by (auto simp: table_ok_def account_ok_def table_fields_def word_le_nat_alt)
  ultimately show thesis
    using s(2,3) False sz room(1) by (intro that [of ?s]) (auto simp: word_le_nat_alt not_less)
qed

section \<open>Any sequence of operations\<close>

datatype table_operation = CallResize u64 | CallInsert "byte list" "byte list" | CallClear

text \<open>One call of the block decoder on its table; \<open>None\<close> is a panic.\<close>

definition table_call :: "header_table \<Rightarrow> table_operation \<Rightarrow> header_table option" where
  "table_call self op =
     (case op of
        CallResize maximum \<Rightarrow> map_option fst (table_resize maximum self)
      | CallInsert name val \<Rightarrow> map_option fst (table_insert name val self)
      | CallClear \<Rightarrow> table_clear self)"

fun table_calls :: "header_table \<Rightarrow> table_operation list \<Rightarrow> header_table option" where
  "table_calls self [] = Some self"
| "table_calls self (op # ops) =
     (case table_call self op of None \<Rightarrow> None | Some self' \<Rightarrow> table_calls self' ops)"

text \<open>The same call on the table RFC 7541 describes: a capacity and the fields, newest first.  An
  entry whose size no 64-bit counter holds is refused.\<close>

definition rfc_call :: "nat \<times> header_field list \<Rightarrow> table_operation \<Rightarrow> nat \<times> header_field list" where
  "rfc_call = (\<lambda>(cap, fs) op.
     case op of
       CallResize maximum \<Rightarrow> if unat maximum > 4096 then (cap, fs) else (unat maximum, fitting (unat maximum) fs)
     | CallInsert name val \<Rightarrow>
         if field_size (name, val) < 2 ^ 64 then (cap, fitting cap ((name, val) # fs)) else (cap, fs)
     | CallClear \<Rightarrow> (cap, []))"

definition table_view :: "header_table \<Rightarrow> nat \<times> header_field list" where
  "table_view self = (unat (table_maximum self), table_fields self)"

lemma entry_size_None: "entry_size name val = None \<longleftrightarrow> \<not> field_size (name, val) < 2 ^ 64"
  by (auto simp: entry_size_def u64_of_len_def field_size_def checked_add_def unat_of_nat unat_word_ariths
      split: if_splits)

lemma table_call_refines:
  assumes "table_ok self"
  shows "\<exists>self'. table_call self op = Some self' \<and> table_ok self' \<and>
    table_view self' = rfc_call (table_view self) op"
proof (cases op)
  case (CallResize maximum)
  show ?thesis
  proof (cases "maximum \<le> MAXIMUM_DYNAMIC_TABLE_BYTES")
    case True
    then show ?thesis
      using CallResize by - (rule table_resize_exact [OF assms True],
        auto simp: table_call_def rfc_call_def table_view_def MAXIMUM_DYNAMIC_TABLE_BYTES_def word_le_nat_alt)
  next
    case False
    then show ?thesis using CallResize assms
      by (auto simp: table_call_def table_resize_def rfc_call_def table_view_def
          MAXIMUM_DYNAMIC_TABLE_BYTES_def word_le_nat_alt word_less_nat_alt)
  qed
next
  case (CallInsert name val)
  show ?thesis
  proof (cases "entry_size name val")
    case None
    then show ?thesis using CallInsert assms entry_size_None [of name val]
      by (auto simp: table_call_def table_insert_def rfc_call_def table_view_def)
  next
    case (Some sz)
    then have "field_size (name, val) < 2 ^ 64" using entry_size_None [of name val] by auto
    then show ?thesis
      using CallInsert by - (rule table_insert_exact [OF assms Some],
        auto simp: table_call_def rfc_call_def table_view_def simp del: fitting.simps)
  qed
next
  case CallClear
  then show ?thesis
    by - (rule table_clear_exact [OF assms], auto simp: table_call_def rfc_call_def table_view_def)
qed

lemma table_ops_total:
  assumes "table_ok self"
  obtains s1 s2 r2 s3 r3 where "table_clear self = Some s1" "table_ok s1"
    "table_insert name val self = Some (s2, r2)" "table_ok s2"
    "table_resize maximum self = Some (s3, r3)" "table_ok s3"
  using table_call_refines [OF assms, of CallClear] table_call_refines [OF assms, of "CallInsert name val"]
    table_call_refines [OF assms, of "CallResize maximum"] that
  by (auto simp: table_call_def)

lemma table_calls_refine:
  "table_ok self \<Longrightarrow> \<exists>self'. table_calls self ops = Some self' \<and> table_ok self' \<and>
     table_view self' = foldl rfc_call (table_view self) ops"
proof (induction ops arbitrary: self)
  case (Cons op ops)
  obtain s where s: "table_call self op = Some s" "table_ok s" "table_view s = rfc_call (table_view self) op"
    using table_call_refines [OF Cons.prems] by blast
  from Cons.IH [OF s(2)] s show ?case by auto
qed simp

lemma length_STATIC [simp]: "length STATIC = 61"
  by (simp add: STATIC_def)

lemma table_lookup_exact:
  "table_lookup index self =
     (if 1 \<le> unat index \<and> unat index \<le> 61 + length (table_fields self)
      then Inr ((STATIC @ table_fields self) ! (unat index - 1)) else Inl TableRefusal)"
proof -
  have zero: "index = 0 \<longleftrightarrow> \<not> 1 \<le> unat index" by (simp add: Suc_le_eq unat_gt_0)
  have static: "index \<le> of_nat (length STATIC) \<longleftrightarrow> unat index \<le> 61" by (simp add: word_le_nat_alt)
  have offset: "unat (index - of_nat (length STATIC) - 1) = unat index - 62" if "\<not> unat index \<le> 61"
  proof -
    have "unat (index - 61) = unat index - 61" using that by (simp add: unat_sub word_le_nat_alt)
    then have "unat (index - 61 - 1) = unat index - 61 - 1"
      using that by (subst unat_sub) (simp_all add: word_le_nat_alt)
    then show ?thesis by simp
  qed
  show ?thesis
  proof (cases "unat index \<le> 61")
    case True
    then show ?thesis using zero static
      by (cases "unat index") (simp_all add: table_lookup_def nth_append)
  next
    case False
    then have "unat index - 1 - 61 = unat index - 62" "\<not> unat index - 1 < 61" by simp_all
    then show ?thesis using zero static offset False
      by (simp add: table_lookup_def Let_def nth_append table_fields_def) linarith
  qed
qed

text \<open>C23: The header table refines the table of RFC 7541.  After any sequence of capacity updates,
  insertions and clears the table has not panicked, its capacity and its fields are those of the
  abstract table (on insertion the longest run of newest fields that fits, so an entry larger
  than the capacity empties it), the fields' sizes add up to at most the capacity and that to at
  most 4096, and an index resolves to the static entries first and then to the newest fields,
  every other index being refused.\<close>

theorem header_table_refines_rfc:
  "\<exists>self cap fields. table_calls table_new ops = Some self \<and>
     (cap, fields) = foldl rfc_call (4096, []) ops \<and> table_view self = (cap, fields) \<and>
     total_size fields \<le> cap \<and> cap \<le> 4096 \<and>
     (\<forall>index. table_lookup index self =
        (if 1 \<le> unat index \<and> unat index \<le> length STATIC + length fields
         then Inr ((STATIC @ fields) ! (unat index - 1)) else Inl TableRefusal))"
proof -
  have "table_ok table_new" "table_view table_new = (4096, [])"
    by (simp_all add: table_ok_def account_ok_def table_new_def table_fields_def table_view_def
        MAXIMUM_DYNAMIC_TABLE_BYTES_def)
  with table_calls_refine [of table_new ops] obtain self where
    s: "table_calls table_new ops = Some self" "table_ok self" "table_view self = foldl rfc_call (4096, []) ops"
    by auto
  moreover have "total_size (table_fields self) \<le> unat (table_maximum self)" "unat (table_maximum self) \<le> 4096"
    using s(2) by (simp_all add: table_ok_def account_ok_def MAXIMUM_DYNAMIC_TABLE_BYTES_def word_le_nat_alt)
  ultimately show ?thesis
    by (intro exI [of _ self] exI [of _ "unat (table_maximum self)"] exI [of _ "table_fields self"])
      (simp add: table_view_def table_lookup_exact)
qed

end
