(* ===== verification/Response_Head.thy ===== *)
theory Response_Head
  imports Transport_Contract Hpack_Table
begin

text \<open>
  The decoded response head of \<open>slingshot-agent-connection/src/selected_author_http2_headers.rs\<close>,
  the gate every decoded field octet passes before it is stored.  Status codes, header names,
  header values and the header map belong to the \<open>http\<close> crate and are parameters.  The theorem
  says what an accepted head is: the octets of complete, well-formed fields, \<open>:status\<close> first,
  within the three bounds of the transport contract.
\<close>

record head_bounds =
  field_bytes :: u64
  field_count :: u64
  head_bytes :: u64

definition head_bounds_embedded :: head_bounds where
  "head_bounds_embedded =
     \<lparr>field_bytes = embedded_limit ''maximum_author_response_header_bytes'',
      field_count = embedded_limit ''maximum_author_response_header_count'',
      head_bytes = embedded_limit ''maximum_author_response_head_bytes''\<rparr>"

datatype decoded_head_refusal = DecodedHeadRefusal

text \<open>What the source uses of the \<open>http\<close> crate.\<close>

record ('n, 'v, 'm) http_crate =
  status_from_bytes :: "byte list \<Rightarrow> u16 option"
  is_redirection :: "u16 \<Rightarrow> bool"
  header_name_from_bytes :: "byte list \<Rightarrow> 'n option"
  header_value_from_bytes :: "byte list \<Rightarrow> 'v option"
  header_map_new :: 'm
  header_map_append :: "'n \<Rightarrow> 'v \<Rightarrow> 'm \<Rightarrow> 'm"

record partial_field =
  field_name :: "byte list"
  field_value :: "byte list"
  in_value :: bool

record 'm head_reader =
  bounds :: head_bounds
  head_fields :: u64
  head_read :: u64
  status :: "u16 option"
  headers :: 'm
  current :: "partial_field option"
  head_poisoned :: bool

definition head_with_bounds :: "('n, 'v, 'm) http_crate \<Rightarrow> head_bounds \<Rightarrow> 'm head_reader" where
  "head_with_bounds http bs =
     \<lparr>bounds = bs, head_fields = 0, head_read = 0, status = None, headers = header_map_new http,
      current = None, head_poisoned = False\<rparr>"

definition head_advance :: "('m head_reader, decoded_head_refusal, unit) receiver \<Rightarrow>
    ('m head_reader, decoded_head_refusal, unit) receiver" where
  "head_advance action self =
     (if head_poisoned self then (self, Inl DecodedHeadRefusal)
      else case action (self\<lparr>head_poisoned := True\<rparr>) of
        (self, Inl refusal) \<Rightarrow> (self, Inl refusal)
      | (self, Inr _) \<Rightarrow> (self\<lparr>head_poisoned := False\<rparr>, Inr ()))"

definition head_charge :: "u64 \<Rightarrow> ('m head_reader, decoded_head_refusal, unit) receiver" where
  "head_charge n self =
     (case checked_add (head_read self) n of
        None \<Rightarrow> (self, Inl DecodedHeadRefusal)
      | Some tot \<Rightarrow>
          if tot \<le> head_bytes (bounds self) then (self\<lparr>head_read := tot\<rparr>, Inr ())
          else (self, Inl DecodedHeadRefusal))"

definition begin_field :: "('m head_reader, decoded_head_refusal, unit) receiver" where
  "begin_field = head_advance (\<lambda>reader.
     if current reader \<noteq> None \<or> head_fields reader \<ge> field_count (bounds reader)
     then (reader, Inl DecodedHeadRefusal)
     else case head_charge 4 reader of
       (reader, Inl refusal) \<Rightarrow> (reader, Inl refusal)
     | (reader, Inr _) \<Rightarrow>
         (reader\<lparr>head_fields := head_fields reader + 1,
                 current := Some \<lparr>field_name = [], field_value = [], in_value = False\<rparr>\<rparr>, Inr ()))"

definition name_octet :: "byte \<Rightarrow> byte list \<Rightarrow> bool" where
  "name_octet byte name \<longleftrightarrow>
     of_char CHR ''a'' \<le> byte \<and> byte \<le> of_char CHR ''z'' \<or>
     of_char CHR ''0'' \<le> byte \<and> byte \<le> of_char CHR ''9'' \<or>
     byte \<in> set (ascii ''!#$%&'' @ [0x27] @ ascii ''*+-.^_'' @ [0x60] @ ascii ''|~'') \<or>
     byte = of_char CHR '':'' \<and> name = []"

definition name_byte :: "byte \<Rightarrow> ('m head_reader, decoded_head_refusal, unit) receiver" where
  "name_byte byte = head_advance (\<lambda>reader.
     case current reader of
       None \<Rightarrow> (reader, Inl DecodedHeadRefusal)
     | Some field \<Rightarrow>
         if in_value field \<or> \<not> name_octet byte (field_name field) then (reader, Inl DecodedHeadRefusal)
         else if of_nat (length (field_name field)) \<ge> field_bytes (bounds reader)
         then (reader, Inl DecodedHeadRefusal)
         else case head_charge 1 reader of
           (reader, Inl refusal) \<Rightarrow> (reader, Inl refusal)
         | (reader, Inr _) \<Rightarrow>
             (reader\<lparr>current := Some (field\<lparr>field_name := field_name field @ [byte]\<rparr>)\<rparr>, Inr ()))"

definition begin_value :: "('m head_reader, decoded_head_refusal, unit) receiver" where
  "begin_value = head_advance (\<lambda>reader.
     case current reader of
       None \<Rightarrow> (reader, Inl DecodedHeadRefusal)
     | Some field \<Rightarrow>
         if in_value field \<or> field_name field = [] then (reader, Inl DecodedHeadRefusal)
         else if hd (field_name field) = of_char CHR '':''
         then if field_name field \<noteq> ascii '':status'' \<or> status reader \<noteq> None \<or> head_fields reader \<noteq> 1
              then (reader, Inl DecodedHeadRefusal)
              else (reader\<lparr>current := Some (field\<lparr>in_value := True\<rparr>)\<rparr>, Inr ())
         else if status reader = None then (reader, Inl DecodedHeadRefusal)
         else (reader\<lparr>current := Some (field\<lparr>in_value := True\<rparr>)\<rparr>, Inr ()))"

definition value_octet :: "byte \<Rightarrow> byte list \<Rightarrow> bool" where
  "value_octet byte val \<longleftrightarrow>
     byte \<notin> {0, 0x0d, 0x0a} \<and> \<not> (val = [] \<and> byte \<in> {0x20, 0x09})"

definition value_byte :: "byte \<Rightarrow> ('m head_reader, decoded_head_refusal, unit) receiver" where
  "value_byte byte = head_advance (\<lambda>reader.
     case current reader of
       None \<Rightarrow> (reader, Inl DecodedHeadRefusal)
     | Some field \<Rightarrow>
         if \<not> in_value field \<or> \<not> value_octet byte (field_value field) then (reader, Inl DecodedHeadRefusal)
         else let tot = length (field_name field) + length (field_value field) in
           if \<not> tot < 2 ^ 64 then (reader, Inl DecodedHeadRefusal)
           else if of_nat tot \<ge> field_bytes (bounds reader) then (reader, Inl DecodedHeadRefusal)
           else case head_charge 1 reader of
             (reader, Inl refusal) \<Rightarrow> (reader, Inl refusal)
           | (reader, Inr _) \<Rightarrow>
               (reader\<lparr>current := Some (field\<lparr>field_value := field_value field @ [byte]\<rparr>)\<rparr>, Inr ()))"

definition connection_fields :: "byte list list" where
  "connection_fields = map ascii
     [''connection'', ''proxy-connection'', ''keep-alive'', ''transfer-encoding'', ''te'', ''upgrade'',
      ''trailer'', ''alt-svc'']"

definition end_field :: "('n, 'v, 'm) http_crate \<Rightarrow>
    ('m head_reader, decoded_head_refusal, unit) receiver" where
  "end_field http = head_advance (\<lambda>reader.
     case current reader of
       None \<Rightarrow> (reader, Inl DecodedHeadRefusal)
     | Some field \<Rightarrow> let reader = reader\<lparr>current := None\<rparr> in
         if \<not> in_value field \<or> (field_value field \<noteq> [] \<and> last (field_value field) \<in> {0x20, 0x09})
         then (reader, Inl DecodedHeadRefusal)
         else if field_name field = ascii '':status''
         then (case status_from_bytes http (field_value field) of
                 None \<Rightarrow> (reader, Inl DecodedHeadRefusal)
               | Some code \<Rightarrow>
                   if code < 200 \<or> code \<ge> 600 \<or> is_redirection http code
                   then (reader, Inl DecodedHeadRefusal)
                   else (reader\<lparr>status := Some code\<rparr>, Inr ()))
         else if field_name field \<in> set connection_fields then (reader, Inl DecodedHeadRefusal)
         else (case header_name_from_bytes http (field_name field) of
                 None \<Rightarrow> (reader, Inl DecodedHeadRefusal)
               | Some name \<Rightarrow>
                   (case header_value_from_bytes http (field_value field) of
                      None \<Rightarrow> (reader, Inl DecodedHeadRefusal)
                    | Some val \<Rightarrow>
                        (reader\<lparr>headers := header_map_append http name val (headers reader)\<rparr>, Inr ()))))"

definition head_finish :: "'m head_reader \<Rightarrow> decoded_head_refusal + (u16 \<times> 'm)" where
  "head_finish self =
     (if head_poisoned self \<or> current self \<noteq> None then Inl DecodedHeadRefusal
      else case head_charge 2 self of
        (self, Inl refusal) \<Rightarrow> Inl refusal
      | (self, Inr _) \<Rightarrow>
          (case status self of None \<Rightarrow> Inl DecodedHeadRefusal | Some s \<Rightarrow> Inr (s, headers self)))"

section \<open>What a head is\<close>

datatype head_event = BeginField | NameByte byte | BeginValue | ValueByte byte | EndField

text \<open>One call of the decoder on the reader.\<close>

definition head_event :: "('n, 'v, 'm) http_crate \<Rightarrow> head_event \<Rightarrow>
    ('m head_reader, decoded_head_refusal, unit) receiver" where
  "head_event http e =
     (case e of BeginField \<Rightarrow> begin_field | NameByte b \<Rightarrow> name_byte b | BeginValue \<Rightarrow> begin_value
      | ValueByte b \<Rightarrow> value_byte b | EndField \<Rightarrow> end_field http)"

definition head_read_events :: "('n, 'v, 'm) http_crate \<Rightarrow> head_bounds \<Rightarrow> head_event list \<Rightarrow>
    decoded_head_refusal + (u16 \<times> 'm)" where
  "head_read_events http bs events =
     (case feed (head_event http) (head_with_bounds http bs) events of
        (_, Inl refusal) \<Rightarrow> Inl refusal
      | (reader, Inr _) \<Rightarrow> head_finish reader)"

definition field_events :: "header_field \<Rightarrow> head_event list" where
  "field_events f = BeginField # map NameByte (fst f) @ BeginValue # map ValueByte (snd f) @ [EndField]"

fun name_octets :: "byte list \<Rightarrow> byte list \<Rightarrow> bool" where
  "name_octets before [] = True"
| "name_octets before (b # bs) = (name_octet b before \<and> name_octets (before @ [b]) bs)"

fun value_octets :: "byte list \<Rightarrow> byte list \<Rightarrow> bool" where
  "value_octets before [] = True"
| "value_octets before (b # bs) = (value_octet b before \<and> value_octets (before @ [b]) bs)"

definition field_cost :: "header_field \<Rightarrow> nat" where
  "field_cost f = 4 + length (fst f) + length (snd f)"

definition plain_field :: "head_bounds \<Rightarrow> header_field \<Rightarrow> bool" where
  "plain_field bs f \<longleftrightarrow> fst f \<noteq> [] \<and> name_octets [] (fst f) \<and> value_octets [] (snd f) \<and>
     \<not> (snd f \<noteq> [] \<and> last (snd f) \<in> {0x20, 0x09}) \<and>
     length (fst f) + length (snd f) \<le> unat (field_bytes bs)"

definition regular_field :: "header_field \<Rightarrow> bool" where
  "regular_field f \<longleftrightarrow> hd (fst f) \<noteq> of_char CHR '':'' \<and> fst f \<notin> set connection_fields"

fun append_all :: "('n, 'v, 'm) http_crate \<Rightarrow> 'm \<Rightarrow> header_field list \<Rightarrow> 'm option" where
  "append_all http m [] = Some m"
| "append_all http m (f # fs) =
     Option.bind (header_name_from_bytes http (fst f)) (\<lambda>n.
       Option.bind (header_value_from_bytes http (snd f)) (\<lambda>v.
         append_all http (header_map_append http n v m) fs))"

definition final_status :: "('n, 'v, 'm) http_crate \<Rightarrow> byte list \<Rightarrow> u16 \<Rightarrow> bool" where
  "final_status http val code \<longleftrightarrow> status_from_bytes http val = Some code \<and>
     200 \<le> code \<and> code < 600 \<and> \<not> is_redirection http code"

text \<open>The fields of a head that may be accepted: \<open>:status\<close> first, regular fields after it.\<close>

definition head_fields_ok :: "('n, 'v, 'm) http_crate \<Rightarrow> head_bounds \<Rightarrow> header_field list \<Rightarrow> u16 \<Rightarrow> 'm \<Rightarrow> bool" where
  "head_fields_ok http bs fs code m \<longleftrightarrow>
     (\<forall>f \<in> set fs. plain_field bs f) \<and> length fs \<le> unat (field_count bs) \<and>
     (case fs of
        [] \<Rightarrow> False
      | f # rest \<Rightarrow> fst f = ascii '':status'' \<and> final_status http (snd f) code \<and>
          (\<forall>g \<in> set rest. regular_field g) \<and> append_all http (header_map_new http) rest = Some m)"

section \<open>The reader holds exactly what it was given\<close>

lemma octets_snoc:
  "name_octets before (bs @ [b]) \<longleftrightarrow> name_octets before bs \<and> name_octet b (before @ bs)"
  "value_octets before (bs @ [b]) \<longleftrightarrow> value_octets before bs \<and> value_octet b (before @ bs)"
  by (induction bs arbitrary: before) simp_all

lemma append_all_snoc:
  "append_all http m (fs @ [f]) = Option.bind (append_all http m fs) (\<lambda>m. append_all http m [f])"
  by (induction fs arbitrary: m) (simp_all add: bind_assoc)

definition partial_events :: "partial_field option \<Rightarrow> head_event list" where
  "partial_events c =
     (case c of None \<Rightarrow> []
      | Some c \<Rightarrow> BeginField # map NameByte (field_name c) @
          (if in_value c then BeginValue # map ValueByte (field_value c) else []))"

definition partial_ok :: "head_bounds \<Rightarrow> header_field list \<Rightarrow> partial_field option \<Rightarrow> bool" where
  "partial_ok bs fs c =
     (case c of None \<Rightarrow> True
      | Some c \<Rightarrow> name_octets [] (field_name c) \<and> value_octets [] (field_value c) \<and>
          length (field_name c) + length (field_value c) \<le> unat (field_bytes bs) \<and>
          (if in_value c
           then field_name c \<noteq> [] \<and>
                (if fs = [] then field_name c = ascii '':status''
                 else hd (field_name c) \<noteq> of_char CHR '':'')
           else field_value c = []))"

definition partial_cost :: "partial_field option \<Rightarrow> nat" where
  "partial_cost c = (case c of None \<Rightarrow> 0
     | Some c \<Rightarrow> 4 + length (field_name c) + length (field_value c))"

definition collected :: "('n, 'v, 'm) http_crate \<Rightarrow> 'm head_reader \<Rightarrow> header_field list \<Rightarrow> bool" where
  "collected http r fs =
     (case fs of
        [] \<Rightarrow> status r = None \<and> headers r = header_map_new http
      | f # rest \<Rightarrow> fst f = ascii '':status'' \<and>
          (\<exists>code. status r = Some code \<and> final_status http (snd f) code) \<and>
          (\<forall>g \<in> set rest. regular_field g) \<and>
          append_all http (header_map_new http) rest = Some (headers r))"

definition spells :: "('n, 'v, 'm) http_crate \<Rightarrow> head_bounds \<Rightarrow> 'm head_reader \<Rightarrow> head_event list \<Rightarrow>
    header_field list \<Rightarrow> bool" where
  "spells http bs r events fs \<longleftrightarrow>
     bounds r = bs \<and> \<not> head_poisoned r \<and>
     events = concat (map field_events fs) @ partial_events (current r) \<and>
     unat (head_read r) = sum_list (map field_cost fs) + partial_cost (current r) \<and>
     unat (head_fields r) = length fs + (if current r = None then 0 else 1) \<and>
     head_fields r \<le> field_count bs \<and>
     (\<forall>f \<in> set fs. plain_field bs f) \<and> partial_ok bs fs (current r) \<and> collected http r fs"

lemma head_charge_ok:
  "head_charge n r = (r', Inr x) \<longleftrightarrow>
     (\<exists>tot. r' = r\<lparr>head_read := tot\<rparr> \<and> unat tot = unat (head_read r) + unat n \<and>
        tot \<le> head_bytes (bounds r))"
  by (auto simp: head_charge_def checked_add_Some_iff [symmetric] split: option.splits if_splits)

lemma head_advance_ok:
  "head_advance action r = (r', Inr x) \<longleftrightarrow>
     \<not> head_poisoned r \<and> (\<exists>s y. action (r\<lparr>head_poisoned := True\<rparr>) = (s, Inr y) \<and> r' = s\<lparr>head_poisoned := False\<rparr>)"
  by (auto simp: head_advance_def split: prod.splits sum.splits)

lemmas spells_defs = spells_def partial_events_def partial_ok_def partial_cost_def collected_def

lemma begin_field_spells:
  assumes "spells http bs r events fs" "begin_field r = (r', Inr x)"
  shows "spells http bs r' (events @ [BeginField]) fs"
proof -
  obtain tot where r: "current r = None" "\<not> head_fields r \<ge> field_count (bounds r)"
    "unat tot = unat (head_read r) + 4"
    "r' = r\<lparr>head_poisoned := False, head_read := tot, head_fields := head_fields r + 1,
      current := Some \<lparr>field_name = [], field_value = [], in_value = False\<rparr>\<rparr>"
    using assms(2)
    by (auto simp: begin_field_def head_advance_ok head_charge_ok split: if_splits prod.splits sum.splits)
  have "unat (head_fields r + 1) = unat (head_fields r) + 1"
    using r(2) unsigned_less [of "field_count (bounds r)", where 'a = nat]
    by (simp add: unat_word_ariths word_le_nat_alt)
  then show ?thesis
    using assms(1) r by (auto simp: spells_defs word_le_nat_alt split: list.splits)
qed

lemma name_byte_spells:
  assumes "spells http bs r events fs" "name_byte b r = (r', Inr x)"
  shows "spells http bs r' (events @ [NameByte b]) fs"
proof -
  obtain c tot where r: "current r = Some c" "\<not> in_value c" "name_octet b (field_name c)"
    "\<not> of_nat (length (field_name c)) \<ge> field_bytes (bounds r)" "unat tot = unat (head_read r) + 1"
    "r' = r\<lparr>head_poisoned := False, head_read := tot,
      current := Some (c\<lparr>field_name := field_name c @ [b]\<rparr>)\<rparr>"
    using assms(2)
    by (auto simp: name_byte_def head_advance_ok head_charge_ok
        split: if_splits option.splits prod.splits sum.splits)
  have len: "length (field_name c) \<le> unat (field_bytes bs)" and b: "bounds r = bs"
    using assms(1) r(1,2) by (auto simp: spells_defs)
  then have "unat (of_nat (length (field_name c)) :: u64) = length (field_name c)"
    using unsigned_less [of "field_bytes bs", where 'a = nat] by (simp add: unat_of_nat)
  then have "length (field_name c) < unat (field_bytes bs)" using r(4) b by (simp add: word_le_nat_alt)
  then show ?thesis
    using assms(1) r by (auto simp: spells_defs octets_snoc split: list.splits)
qed

lemma begin_value_spells:
  assumes "spells http bs r events fs" "begin_value r = (r', Inr x)"
  shows "spells http bs r' (events @ [BeginValue]) fs"
proof -
  obtain c where r: "current r = Some c" "\<not> in_value c" "field_name c \<noteq> []"
    "if hd (field_name c) = of_char CHR '':'' then field_name c = ascii '':status'' \<and> status r = None
     else status r \<noteq> None"
    "r' = r\<lparr>head_poisoned := False, current := Some (c\<lparr>in_value := True\<rparr>)\<rparr>"
    using assms(2)
    by (auto simp: begin_value_def head_advance_ok split: if_splits option.splits)
  have "fs = [] \<longleftrightarrow> status r = None" using assms(1) by (auto simp: spells_defs split: list.splits)
  then show ?thesis
    using assms(1) r by (auto simp: spells_defs split: list.splits if_splits)
qed

lemma value_byte_spells:
  assumes "spells http bs r events fs" "value_byte b r = (r', Inr x)"
  shows "spells http bs r' (events @ [ValueByte b]) fs"
proof -
  obtain c tot where r: "current r = Some c" "in_value c" "value_octet b (field_value c)"
    "length (field_name c) + length (field_value c) < 2 ^ 64"
    "\<not> of_nat (length (field_name c) + length (field_value c)) \<ge> field_bytes (bounds r)"
    "unat tot = unat (head_read r) + 1"
    "r' = r\<lparr>head_poisoned := False, head_read := tot,
      current := Some (c\<lparr>field_value := field_value c @ [b]\<rparr>)\<rparr>"
    using assms(2)
    by (auto simp: value_byte_def head_advance_ok head_charge_ok Let_def
        split: if_splits option.splits prod.splits sum.splits)
  have "unat (of_nat (length (field_name c) + length (field_value c)) :: u64) =
      length (field_name c) + length (field_value c)"
    using r(4) by (simp add: unat_of_nat del: of_nat_add)
  then have "length (field_name c) + length (field_value c) < unat (field_bytes bs)"
    using r(5) assms(1) by (simp add: word_le_nat_alt spells_def del: of_nat_add)
  then show ?thesis
    using assms(1) r by (auto simp: spells_defs octets_snoc split: list.splits)
qed

lemma end_field_spells:
  assumes s: "spells http bs r events fs" and e: "end_field http r = (r', Inr x)"
  shows "\<exists>fs'. spells http bs r' (events @ [EndField]) fs'"
proof -
  obtain c where c: "current r = Some c" "in_value c"
    "\<not> (field_value c \<noteq> [] \<and> last (field_value c) \<in> {0x20, 0x09})"
    using e by (auto simp: end_field_def head_advance_ok Let_def split: option.splits if_splits)
  let ?f = "(field_name c, field_value c)"
  have plain: "plain_field bs ?f" using s c by (auto simp: plain_field_def spells_defs)
  show ?thesis
  proof (cases fs)
    case Nil
    have name: "field_name c = ascii '':status''" using s c Nil by (auto simp: spells_defs)
    obtain code where "final_status http (field_value c) code"
      "r' = r\<lparr>head_poisoned := False, current := None, status := Some code\<rparr>"
      using e c name by (auto simp: end_field_def head_advance_ok Let_def final_status_def not_less not_le
          split: option.splits if_splits)
    then have "spells http bs r' (events @ [EndField]) [?f]"
      using s c Nil plain name by (auto simp: spells_defs field_events_def field_cost_def)
    then show ?thesis by blast
  next
    case (Cons g rest)
    have colon: "hd (field_name c) \<noteq> of_char CHR '':''" using s c Cons by (auto simp: spells_defs)
    then have "field_name c \<noteq> ascii '':status''" by auto
    then obtain n v where "field_name c \<notin> set connection_fields"
      "header_name_from_bytes http (field_name c) = Some n"
      "header_value_from_bytes http (field_value c) = Some v"
      "r' = r\<lparr>head_poisoned := False, current := None, headers := header_map_append http n v (headers r)\<rparr>"
      using e c by (auto simp: end_field_def head_advance_ok Let_def split: option.splits if_splits)
    then have "spells http bs r' (events @ [EndField]) (fs @ [?f])"
      using s c Cons plain colon
      by (auto simp: spells_defs field_events_def field_cost_def regular_field_def append_all_snoc)
    then show ?thesis by blast
  qed
qed

lemma event_spells:
  assumes "spells http bs r events fs" "head_event http e r = (r', Inr x)"
  shows "\<exists>fs'. spells http bs r' (events @ [e]) fs'"
proof (cases e)
  case BeginField
  then show ?thesis using assms begin_field_spells by (fastforce simp: head_event_def)
next
  case (NameByte b)
  then show ?thesis using assms name_byte_spells by (fastforce simp: head_event_def)
next
  case BeginValue
  then show ?thesis using assms begin_value_spells by (fastforce simp: head_event_def)
next
  case (ValueByte b)
  then show ?thesis using assms value_byte_spells by (fastforce simp: head_event_def)
next
  case EndField
  then show ?thesis using assms end_field_spells by (fastforce simp: head_event_def)
qed

lemma feed_spells:
  "spells http bs r events fs \<Longrightarrow> feed (head_event http) r later = (r', Inr xs) \<Longrightarrow>
     \<exists>fs'. spells http bs r' (events @ later) fs'"
proof (induction later arbitrary: r events fs xs)
  case (Cons e later)
  obtain s y ys where s: "head_event http e r = (s, Inr y)" "feed (head_event http) s later = (r', Inr ys)"
    using Cons.prems(2) by (auto split: prod.splits sum.splits)
  then show ?case
    using event_spells [OF Cons.prems(1) s(1)] Cons.IH [of s "events @ [e]"] by auto
qed auto

lemma head_sound:
  assumes "head_read_events http bs events = Inr (code, m)"
  shows "\<exists>fs. events = concat (map field_events fs) \<and> head_fields_ok http bs fs code m \<and>
    sum_list (map field_cost fs) + 2 \<le> unat (head_bytes bs)"
proof -
  obtain r xs where f: "feed (head_event http) (head_with_bounds http bs) events = (r, Inr xs)"
    "head_finish r = Inr (code, m)"
    using assms by (auto simp: head_read_events_def split: prod.splits sum.splits)
  have "spells http bs (head_with_bounds http bs) [] []"
    by (simp add: spells_defs head_with_bounds_def)
  from feed_spells [OF this f(1)] obtain fs where s: "spells http bs r events fs" by auto
  obtain tot where "current r = None" "status r = Some code" "headers r = m"
    "unat tot = unat (head_read r) + 2" "tot \<le> head_bytes (bounds r)"
    using f(2) by (auto simp: head_finish_def head_charge_ok split: if_splits prod.splits sum.splits option.splits)
  then show ?thesis
    using s by (intro exI [of _ fs])
      (auto simp: spells_defs head_fields_ok_def word_le_nat_alt split: list.splits)
qed

section \<open>Every well-formed head is read\<close>

lemma head_charge_fits:
  assumes "unat (head_read r) + unat n \<le> unat (head_bytes (bounds r))"
  shows "head_charge n r = (r\<lparr>head_read := head_read r + n\<rparr>, Inr ()) \<and>
    unat (head_read r + n) = unat (head_read r) + unat n"
proof -
  have "unat (head_read r) + unat n < 2 ^ 64"
    using assms unsigned_less [of "head_bytes (bounds r)", where 'a = nat] by simp
  then show ?thesis using assms
    by (simp add: head_charge_def checked_add_def unat_word_ariths word_le_nat_alt)
qed

lemma of_nat_less_word: "n < unat w \<Longrightarrow> \<not> (w :: u64) \<le> of_nat n"
  using unsigned_less [of w, where 'a = nat] by (simp add: word_le_nat_alt unat_of_nat)

lemma feed_names:
  "\<lbrakk>current r = Some c; \<not> in_value c; \<not> head_poisoned r; name_octets (field_name c) ns;
    length (field_name c) + length ns \<le> unat (field_bytes (bounds r));
    unat (head_read r) + length ns \<le> unat (head_bytes (bounds r))\<rbrakk> \<Longrightarrow>
   \<exists>xs tot. feed (head_event http) r (map NameByte ns) =
     (r\<lparr>head_read := tot, current := Some (c\<lparr>field_name := field_name c @ ns\<rparr>)\<rparr>, Inr xs) \<and>
     unat tot = unat (head_read r) + length ns"
proof (induction ns arbitrary: r c)
  case Nil
  then show ?case by (intro exI [of _ "[]"] exI [of _ "head_read r"]) simp
next
  case (Cons b ns)
  let ?c = "c\<lparr>field_name := field_name c @ [b]\<rparr>"
  let ?r = "r\<lparr>head_read := head_read r + 1, current := Some ?c\<rparr>"
  have ch: "head_charge 1 (r\<lparr>head_poisoned := True\<rparr>) =
      (r\<lparr>head_poisoned := True, head_read := head_read r + 1\<rparr>, Inr ())"
    "unat (head_read r + 1) = unat (head_read r) + 1"
    using head_charge_fits [of "r\<lparr>head_poisoned := True\<rparr>" 1] Cons.prems by simp_all
  have "head_event http (NameByte b) r = (?r, Inr ())"
    using Cons.prems ch of_nat_less_word [of "length (field_name c)" "field_bytes (bounds r)"]
    by (simp add: head_event_def name_byte_def head_advance_def)
  moreover obtain xs tot where "feed (head_event http) ?r (map NameByte ns) =
      (?r\<lparr>head_read := tot, current := Some (?c\<lparr>field_name := field_name ?c @ ns\<rparr>)\<rparr>, Inr xs)"
    "unat tot = unat (head_read ?r) + length ns"
    using Cons.IH [of ?r ?c] Cons.prems ch(2) by auto
  ultimately show ?case
    using ch(2) by (intro exI [of _ "() # xs"] exI [of _ tot]) simp
qed

lemma feed_values:
  "\<lbrakk>current r = Some c; in_value c; \<not> head_poisoned r; value_octets (field_value c) vs;
    length (field_name c) + length (field_value c) + length vs \<le> unat (field_bytes (bounds r));
    unat (head_read r) + length vs \<le> unat (head_bytes (bounds r))\<rbrakk> \<Longrightarrow>
   \<exists>xs tot. feed (head_event http) r (map ValueByte vs) =
     (r\<lparr>head_read := tot, current := Some (c\<lparr>field_value := field_value c @ vs\<rparr>)\<rparr>, Inr xs) \<and>
     unat tot = unat (head_read r) + length vs"
proof (induction vs arbitrary: r c)
  case Nil
  then show ?case by (intro exI [of _ "[]"] exI [of _ "head_read r"]) simp
next
  case (Cons b vs)
  let ?c = "c\<lparr>field_value := field_value c @ [b]\<rparr>"
  let ?r = "r\<lparr>head_read := head_read r + 1, current := Some ?c\<rparr>"
  let ?n = "length (field_name c) + length (field_value c)"
  have ch: "head_charge 1 (r\<lparr>head_poisoned := True\<rparr>) =
      (r\<lparr>head_poisoned := True, head_read := head_read r + 1\<rparr>, Inr ())"
    "unat (head_read r + 1) = unat (head_read r) + 1"
    using head_charge_fits [of "r\<lparr>head_poisoned := True\<rparr>" 1] Cons.prems by simp_all
  have "?n < 2 ^ 64"
    using Cons.prems(5) unsigned_less [of "field_bytes (bounds r)", where 'a = nat] by simp
  then have "head_event http (ValueByte b) r = (?r, Inr ())"
    using Cons.prems ch of_nat_less_word [of ?n "field_bytes (bounds r)"]
    by (simp add: head_event_def value_byte_def head_advance_def Let_def del: of_nat_add)
  moreover obtain xs tot where "feed (head_event http) ?r (map ValueByte vs) =
      (?r\<lparr>head_read := tot, current := Some (?c\<lparr>field_value := field_value ?c @ vs\<rparr>)\<rparr>, Inr xs)"
    "unat tot = unat (head_read ?r) + length vs"
    using Cons.IH [of ?r ?c] Cons.prems ch(2) by auto
  ultimately show ?case
    using ch(2) by (intro exI [of _ "() # xs"] exI [of _ tot]) simp
qed

text \<open>The field is the status of an empty head or a regular field of a head with a status.\<close>

definition field_next :: "('n, 'v, 'm) http_crate \<Rightarrow> 'm head_reader \<Rightarrow> header_field \<Rightarrow> 'm head_reader \<Rightarrow> bool" where
  "field_next http r f r' \<longleftrightarrow>
     (if fst f = ascii '':status''
      then status r = None \<and> head_fields r = 0 \<and>
        (\<exists>code. final_status http (snd f) code \<and> r' = r\<lparr>status := Some code\<rparr>)
      else status r \<noteq> None \<and> regular_field f \<and>
        (\<exists>m. append_all http (headers r) [f] = Some m \<and> r' = r\<lparr>headers := m\<rparr>))"

lemma feed_field:
  assumes "current r = None" "\<not> head_poisoned r" "head_fields r < field_count (bounds r)"
    and f: "plain_field (bounds r) f" "field_next http r f r'"
    and room: "unat (head_read r) + field_cost f \<le> unat (head_bytes (bounds r))"
  shows "\<exists>xs tot. feed (head_event http) r (field_events f) =
    (r'\<lparr>head_fields := head_fields r + 1, head_read := tot\<rparr>, Inr xs) \<and>
    unat tot = unat (head_read r) + field_cost f"
proof -
  obtain n v where nv: "f = (n, v)" by fastforce
  let ?c0 = "\<lparr>field_name = [], field_value = [], in_value = False\<rparr>"
  let ?c2 = "\<lparr>field_name = n, field_value = [], in_value = True\<rparr>"
  have plain: "n \<noteq> []" "name_octets [] n" "value_octets [] v" "\<not> (v \<noteq> [] \<and> last v \<in> {0x20, 0x09})"
    "length n + length v \<le> unat (field_bytes (bounds r))"
    using f(1) nv by (auto simp: plain_field_def)
  define r1 where "r1 = r\<lparr>head_fields := head_fields r + 1, head_read := head_read r + 4, current := Some ?c0\<rparr>"
  have ch: "head_charge 4 (r\<lparr>head_poisoned := True\<rparr>) =
      (r\<lparr>head_poisoned := True, head_read := head_read r + 4\<rparr>, Inr ())"
    "unat (head_read r + 4) = unat (head_read r) + 4"
    using head_charge_fits [of "r\<lparr>head_poisoned := True\<rparr>" 4] room nv by (simp_all add: field_cost_def)
  have s1: "head_event http BeginField r = (r1, Inr ())"
    using assms(1-3) ch by (simp add: head_event_def begin_field_def head_advance_def r1_def)
  have "\<exists>xs tot. feed (head_event http) r1 (map NameByte n) =
      (r1\<lparr>head_read := tot, current := Some (?c0\<lparr>field_name := n\<rparr>)\<rparr>, Inr xs) \<and>
      unat tot = unat (head_read r1) + length n"
    using feed_names [of r1 ?c0 n http] plain room ch(2) assms(2) nv by (simp add: r1_def field_cost_def)
  then obtain xs2 t2 where s2: "feed (head_event http) r1 (map NameByte n) =
      (r1\<lparr>head_read := t2, current := Some (?c0\<lparr>field_name := n\<rparr>)\<rparr>, Inr xs2)"
    "unat t2 = unat (head_read r) + 4 + length n"
    using ch(2) by (auto simp: r1_def)
  define r3 where "r3 = r1\<lparr>head_read := t2, current := Some ?c2\<rparr>"
  have st: "if hd n = of_char CHR '':'' then n = ascii '':status'' \<and> status r = None \<and> head_fields r = 0
      else status r \<noteq> None"
    using f(2) nv by (auto simp: field_next_def regular_field_def split: if_splits)
  have s3: "head_event http BeginValue (r1\<lparr>head_read := t2, current := Some (?c0\<lparr>field_name := n\<rparr>)\<rparr>) =
      (r3, Inr ())"
    using st plain(1) assms(2)
    by (auto simp: head_event_def begin_value_def head_advance_def r3_def r1_def split: if_splits)
  have "\<exists>xs tot. feed (head_event http) r3 (map ValueByte v) =
      (r3\<lparr>head_read := tot, current := Some (?c2\<lparr>field_value := v\<rparr>)\<rparr>, Inr xs) \<and>
      unat tot = unat (head_read r3) + length v"
    using feed_values [of r3 ?c2 v http] plain room s2(2) assms(2) nv
    by (simp add: r3_def r1_def field_cost_def)
  then obtain xs4 t4 where s4: "feed (head_event http) r3 (map ValueByte v) =
      (r3\<lparr>head_read := t4, current := Some (?c2\<lparr>field_value := v\<rparr>)\<rparr>, Inr xs4)"
    "unat t4 = unat (head_read r) + field_cost f"
    using s2(2) nv by (auto simp: r3_def field_cost_def)
  have s5: "head_event http EndField (r3\<lparr>head_read := t4, current := Some (?c2\<lparr>field_value := v\<rparr>)\<rparr>) =
      (r'\<lparr>head_fields := head_fields r + 1, head_read := t4\<rparr>, Inr ())"
    using f(2) nv plain(4) assms(1,2)
    by (auto simp: head_event_def end_field_def head_advance_def field_next_def r3_def r1_def Let_def
        final_status_def regular_field_def bind_eq_Some_conv split: if_splits)
  show ?thesis
    using s1 s2 s3 s4 s5 nv
    by (intro exI [of _ "() # xs2 @ () # xs4 @ [()]"] exI [of _ t4])
      (simp add: field_events_def feed_append)
qed

lemma feed_regular:
  "\<lbrakk>current r = None; \<not> head_poisoned r; status r \<noteq> None;
    unat (head_fields r) + length fs \<le> unat (field_count (bounds r));
    \<forall>f \<in> set fs. plain_field (bounds r) f \<and> regular_field f;
    append_all http (headers r) fs = Some m;
    unat (head_read r) + sum_list (map field_cost fs) \<le> unat (head_bytes (bounds r))\<rbrakk> \<Longrightarrow>
   \<exists>xs tot n. feed (head_event http) r (concat (map field_events fs)) =
     (r\<lparr>headers := m, head_fields := n, head_read := tot\<rparr>, Inr xs) \<and>
     unat tot = unat (head_read r) + sum_list (map field_cost fs)"
proof (induction fs arbitrary: r)
  case Nil
  then show ?case by (intro exI [of _ "[]"] exI [of _ "head_read r"] exI [of _ "head_fields r"]) simp
next
  case (Cons f fs)
  obtain m1 where m1: "append_all http (headers r) [f] = Some m1" "append_all http m1 fs = Some m"
    using Cons.prems(6) by (auto simp: bind_eq_Some_conv)
  have "fst f \<noteq> ascii '':status''" using Cons.prems(5) by (auto simp: regular_field_def)
  then have nx: "field_next http r f (r\<lparr>headers := m1\<rparr>)"
    using Cons.prems(3,5) m1(1) by (auto simp: field_next_def)
  obtain xs t1 where f: "feed (head_event http) r (field_events f) =
      (r\<lparr>headers := m1, head_fields := head_fields r + 1, head_read := t1\<rparr>, Inr xs)"
    "unat t1 = unat (head_read r) + field_cost f"
    using feed_field [OF Cons.prems(1,2) _ _ nx] Cons.prems(4,5,7) by (auto simp: word_less_nat_alt)
  let ?r = "r\<lparr>headers := m1, head_fields := head_fields r + 1, head_read := t1\<rparr>"
  have "unat (head_fields r + 1) = unat (head_fields r) + 1"
    using Cons.prems(4) unsigned_less [of "field_count (bounds r)", where 'a = nat]
    by (simp add: unat_word_ariths)
  then obtain ys tot n where "feed (head_event http) ?r (concat (map field_events fs)) =
      (?r\<lparr>headers := m, head_fields := n, head_read := tot\<rparr>, Inr ys)"
    "unat tot = unat t1 + sum_list (map field_cost fs)"
    using Cons.IH [of ?r] Cons.prems f(2) m1(2) by auto
  then show ?case
    using f by (intro exI [of _ "xs @ ys"] exI [of _ tot] exI [of _ n]) (simp add: feed_append)
qed

lemma head_complete:
  assumes ok: "head_fields_ok http bs fs code m"
    and room: "sum_list (map field_cost fs) + 2 \<le> unat (head_bytes bs)"
  shows "head_read_events http bs (concat (map field_events fs)) = Inr (code, m)"
proof -
  obtain f rest where fs: "fs = f # rest" and f: "fst f = ascii '':status''" "final_status http (snd f) code"
    and rest: "\<forall>g \<in> set rest. regular_field g" "append_all http (header_map_new http) rest = Some m"
    and plain: "\<forall>g \<in> set fs. plain_field bs g" and n: "length fs \<le> unat (field_count bs)"
    using ok by (auto simp: head_fields_ok_def split: list.splits)
  let ?r = "head_with_bounds http bs"
  have r: "current ?r = None" "\<not> head_poisoned ?r" "bounds ?r = bs" "head_fields ?r = 0" "head_read ?r = 0"
    "status ?r = None" "headers ?r = header_map_new http"
    by (simp_all add: head_with_bounds_def)
  have "field_next http ?r f (?r\<lparr>status := Some code\<rparr>)"
    using f r unfolding field_next_def by auto
  then obtain xs t1 where f1: "feed (head_event http) ?r (field_events f) =
      (?r\<lparr>status := Some code, head_fields := 1, head_read := t1\<rparr>, Inr xs)" "unat t1 = field_cost f"
    using feed_field [of ?r f http "?r\<lparr>status := Some code\<rparr>"] r plain n room fs
    by (auto simp: word_less_nat_alt)
  let ?s = "?r\<lparr>status := Some code, head_fields := 1, head_read := t1\<rparr>"
  obtain ys tot k where f2: "feed (head_event http) ?s (concat (map field_events rest)) =
      (?s\<lparr>headers := m, head_fields := k, head_read := tot\<rparr>, Inr ys)"
    "unat tot = unat t1 + sum_list (map field_cost rest)"
    using feed_regular [of ?s rest http m] r plain rest n room fs f1(2) by auto
  have "unat tot + unat (2 :: u64) \<le> unat (head_bytes bs)" using f1(2) f2(2) room fs by simp
  then show ?thesis
    using f1(1) f2(1) fs r head_charge_fits [of "?s\<lparr>headers := m, head_fields := k, head_read := tot\<rparr>" 2]
    by (simp add: head_read_events_def feed_append head_finish_def)
qed

text \<open>Exactly which decoded octets are a response head.  Whatever the \<open>http\<close> crate accepts as
  status, names and values, a sequence of decoder calls is accepted and finishes with a status and
  headers just when it spells complete fields one after another, of which the first is \<open>:status\<close>
  with a final status that is not a redirection and the others are regular fields that are not
  connection-specific, all of them well-formed, within the field, count and head bounds, and the
  headers are those fields appended in order.\<close>

lemma head_read_iff:
  "head_read_events http bs events = Inr (code, m) \<longleftrightarrow>
     (\<exists>fs. events = concat (map field_events fs) \<and> head_fields_ok http bs fs code m \<and>
        sum_list (map field_cost fs) + 2 \<le> unat (head_bytes bs))"
  using head_sound head_complete by metis

section \<open>A refused head stays refused\<close>

interpretation head: closing_decoder "head_event http" head_poisoned
  for http :: "('n, 'v, 'm) http_crate"
proof
  have adv: "(\<And>r s e. action r = (s, Inl e) \<Longrightarrow> head_poisoned r \<Longrightarrow> head_poisoned s) \<Longrightarrow>
      head_advance action s0 = (s', Inl e') \<Longrightarrow> head_poisoned s'"
    for action :: "('m head_reader, decoded_head_refusal, unit) receiver" and s0 s' e'
    by (fastforce simp: head_advance_def split: if_splits prod.splits sum.splits)
  have ch: "head_charge n r = (s, Inl e) \<Longrightarrow> s = r" for n e and r s :: "'m head_reader"
    by (auto simp: head_charge_def split: option.splits if_splits)
  fix i s s' e
  assume "head_event http i s = (s', Inl e)"
  then show "head_poisoned s'"
    unfolding head_event_def begin_field_def name_byte_def begin_value_def value_byte_def end_field_def
    by (cases i) (auto simp: Let_def elim!: adv [rotated] dest!: ch
        split: if_splits option.splits prod.splits sum.splits)
next
  fix i s s' and r :: "decoded_head_refusal + unit"
  assume "head_poisoned s" "head_event http i s = (s', r)"
  then show "\<not> is_ok r"
    by (cases i) (auto simp: head_event_def begin_field_def name_byte_def begin_value_def value_byte_def
        end_field_def head_advance_def)
qed

end
