(* ===== verification/Hpack_Block.thy ===== *)
theory Hpack_Block
  imports Hpack_String Response_Head
begin

unbundle bit_operations_syntax

text \<open>
  The incremental response block of
  \<open>slingshot-agent-connection/src/selected_author_hpack_block.rs\<close>: the state machine that reads
  HPACK instructions octet by octet, resolves them against the header table and feeds every
  decoded octet to a sink before anything is stored.  The sink is a record of the operations of
  the trait \<open>DecodedHeaderSink\<close>, so that every theorem holds for any route's gate; the gate of
  \<^verbatim>\<open>Response_Head\<close> is one of them.  The panic of the table's eviction loop is a refusal of its own,
  which the development shows never to occur.
\<close>

record ('r, 'o) header_sink =
  sink_begin_field :: "('r, decoded_head_refusal, unit) receiver"
  sink_name_byte :: "byte \<Rightarrow> ('r, decoded_head_refusal, unit) receiver"
  sink_begin_value :: "('r, decoded_head_refusal, unit) receiver"
  sink_value_byte :: "byte \<Rightarrow> ('r, decoded_head_refusal, unit) receiver"
  sink_end_field :: "('r, decoded_head_refusal, unit) receiver"
  sink_finish :: "'r \<Rightarrow> decoded_head_refusal + 'o"

definition head_sink :: "('n, 'v, 'm) http_crate \<Rightarrow> ('m head_reader, u16 \<times> 'm) header_sink" where
  "head_sink http =
     \<lparr>sink_begin_field = begin_field, sink_name_byte = name_byte, sink_begin_value = begin_value,
      sink_value_byte = value_byte, sink_end_field = end_field http, sink_finish = head_finish\<rparr>"

datatype block_refusal = BlockRefusal | BlockPanicked

datatype purpose = Purpose_Indexed | Purpose_Name bool | Purpose_Resize

datatype block_state =
    State_Instruction
  | State_Integer prefixed_integer purpose
  | State_NameStart bool
  | State_Name literal_string bool
  | State_ValueStart bool
  | State_Value literal_string bool
  | State_Poisoned

type_synonym capture = "byte list \<times> byte list"

record 'r response_block =
  block_state :: block_state
  block_table :: header_table
  block_headers :: 'r
  block_capture :: "capture option"
  seen_field :: bool
  encoded_bytes :: u64
  maximum_encoded_bytes :: u64
  block_limit_exceeded :: bool

definition with_reader :: "'r \<Rightarrow> u64 \<Rightarrow> 'r response_block" where
  "with_reader hs maximum =
     \<lparr>block_state = State_Instruction, block_table = table_new, block_headers = hs,
      block_capture = None, seen_field = False, encoded_bytes = 0, maximum_encoded_bytes = maximum,
      block_limit_exceeded = False\<rparr>"

definition block_new :: "('n, 'v, 'm) http_crate \<Rightarrow> 'm head_reader response_block" where
  "block_new http =
     with_reader (head_with_bounds http head_bounds_embedded) (head_bytes head_bounds_embedded)"

definition captured :: "bool \<Rightarrow> byte \<Rightarrow> capture option \<Rightarrow> capture option" where
  "captured name byte cap =
     (case cap of
        None \<Rightarrow> None
      | Some (n, v) \<Rightarrow>
          if length n + length v + 32 \<ge> unat MAXIMUM_DYNAMIC_TABLE_BYTES then None
          else if name then Some (n @ [byte], v) else Some (n, v @ [byte]))"

definition block_emit :: "('r, 'o) header_sink \<Rightarrow> bool \<Rightarrow> byte \<Rightarrow>
    ('r \<times> capture option, string_refusal, unit) receiver" where
  "block_emit sink name byte = (\<lambda>(hs, cap).
     case (if name then sink_name_byte sink byte hs else sink_value_byte sink byte hs) of
       (hs, Inl _) \<Rightarrow> ((hs, cap), Inl StringRefusal)
     | (hs, Inr _) \<Rightarrow> ((hs, captured name byte cap), Inr ()))"

text \<open>A call of a sink's operation from the block, its refusal mapped.\<close>

definition with_headers :: "('r, 'e, 'a) receiver \<Rightarrow> 'r response_block \<Rightarrow>
    ('r response_block \<Rightarrow> 'r response_block \<times> (block_refusal + 'b)) \<Rightarrow>
    'r response_block \<times> (block_refusal + 'b)" where
  "with_headers call self k =
     (case call (block_headers self) of
        (hs, Inl _) \<Rightarrow> (self\<lparr>block_headers := hs\<rparr>, Inl BlockRefusal)
      | (hs, Inr _) \<Rightarrow> k (self\<lparr>block_headers := hs\<rparr>))"

definition block_end_field :: "('r, 'o) header_sink \<Rightarrow> bool \<Rightarrow>
    ('r response_block, block_refusal, block_state) receiver" where
  "block_end_field sink indexing self =
     with_headers (sink_end_field sink) self (\<lambda>self.
       if indexing
       then (case block_capture self of
               Some (n, v) \<Rightarrow> let self = self\<lparr>block_capture := None\<rparr> in
                 (case table_insert n v (block_table self) of
                    None \<Rightarrow> (self, Inl BlockPanicked)
                  | Some (table, Inl _) \<Rightarrow> (self\<lparr>block_table := table\<rparr>, Inl BlockRefusal)
                  | Some (table, Inr _) \<Rightarrow> (self\<lparr>block_table := table\<rparr>, Inr State_Instruction))
             | None \<Rightarrow>
                 (case table_clear (block_table self) of
                    None \<Rightarrow> (self, Inl BlockPanicked)
                  | Some table \<Rightarrow> (self\<lparr>block_table := table\<rparr>, Inr State_Instruction)))
       else (self, Inr State_Instruction))"

definition block_integer :: "('r, 'o) header_sink \<Rightarrow> u64 \<Rightarrow> purpose \<Rightarrow>
    ('r response_block, block_refusal, block_state) receiver" where
  "block_integer sink val purpose self =
     (case purpose of
        Purpose_Resize \<Rightarrow>
          (case table_resize val (block_table self) of
             None \<Rightarrow> (self, Inl BlockPanicked)
           | Some (table, Inl _) \<Rightarrow> (self\<lparr>block_table := table\<rparr>, Inl BlockRefusal)
           | Some (table, Inr _) \<Rightarrow> (self\<lparr>block_table := table\<rparr>, Inr State_Instruction))
      | Purpose_Indexed \<Rightarrow>
          (case table_lookup val (block_table self) of
             Inl _ \<Rightarrow> (self, Inl BlockRefusal)
           | Inr (n, v) \<Rightarrow>
               with_headers (sink_begin_field sink) self (\<lambda>self.
               with_headers (\<lambda>hs. feed (sink_name_byte sink) hs n) self (\<lambda>self.
               with_headers (sink_begin_value sink) self (\<lambda>self.
               with_headers (\<lambda>hs. feed (sink_value_byte sink) hs v) self (\<lambda>self.
               with_headers (sink_end_field sink) self (\<lambda>self.
                 (self, Inr State_Instruction)))))))
      | Purpose_Name indexing \<Rightarrow>
          with_headers (sink_begin_field sink) self (\<lambda>self.
            let self = self\<lparr>block_capture := if indexing then Some ([], []) else None\<rparr> in
            if val = 0 then (self, Inr (State_NameStart indexing))
            else case table_lookup val (block_table self) of
              Inl _ \<Rightarrow> (self, Inl BlockRefusal)
            | Inr (n, _) \<Rightarrow>
                (case feed (block_emit sink True) (block_headers self, block_capture self) n of
                   ((hs, cap), Inl _) \<Rightarrow>
                     (self\<lparr>block_headers := hs, block_capture := cap\<rparr>, Inl BlockRefusal)
                 | ((hs, cap), Inr _) \<Rightarrow>
                     with_headers (sink_begin_value sink)
                       (self\<lparr>block_headers := hs, block_capture := cap\<rparr>) (\<lambda>self.
                         (self, Inr (State_ValueStart indexing))))))"

definition require_remaining_literal_budget :: "literal_string \<Rightarrow>
    ('r response_block, block_refusal, unit) receiver" where
  "require_remaining_literal_budget string self =
     (case remaining_encoded_bytes string of
        Some remaining \<Rightarrow>
          if remaining > maximum_encoded_bytes self - encoded_bytes self
          then (self\<lparr>block_limit_exceeded := True\<rparr>, Inl BlockRefusal) else (self, Inr ())
      | None \<Rightarrow> (self, Inr ()))"

definition block_instruction :: "('r, 'o) header_sink \<Rightarrow> byte \<Rightarrow>
    ('r response_block, block_refusal, block_state) receiver" where
  "block_instruction sink byte self =
     (let maximum_index = 61 + MAXIMUM_DYNAMIC_TABLE_BYTES div 32;
          resize = (byte AND 0x80 = 0 \<and> byte AND 0xe0 = 0x20) in
      if resize \<and> seen_field self then (self, Inl BlockRefusal)
      else let (prefix, purpose, maximum) =
             (if byte AND 0x80 \<noteq> 0 then (7, Purpose_Indexed, maximum_index)
              else if resize then (5, Purpose_Resize, MAXIMUM_DYNAMIC_TABLE_BYTES)
              else let indexing = (byte AND 0x40 \<noteq> 0) in
                (if indexing then 6 else 4, Purpose_Name indexing, maximum_index));
               self = (if purpose = Purpose_Resize then self else self\<lparr>seen_field := True\<rparr>)
           in case integer_start byte prefix maximum of
                Inl _ \<Rightarrow> (self, Inl BlockRefusal)
              | Inr integer \<Rightarrow>
                  (case integer_value integer of
                     Some val \<Rightarrow> block_integer sink val purpose self
                   | None \<Rightarrow> (self, Inr (State_Integer integer purpose))))"

definition block_step :: "('r, 'o) header_sink \<Rightarrow> block_state \<Rightarrow> byte \<Rightarrow>
    ('r response_block, block_refusal, block_state) receiver" where
  "block_step sink state byte self =
     (case state of
        State_Instruction \<Rightarrow> block_instruction sink byte self
      | State_Integer integer purpose \<Rightarrow>
          (case integer_push byte integer of
             (_, Inl _) \<Rightarrow> (self, Inl BlockRefusal)
           | (_, Inr (Some val)) \<Rightarrow> block_integer sink val purpose self
           | (integer, Inr None) \<Rightarrow> (self, Inr (State_Integer integer purpose)))
      | State_NameStart indexing \<Rightarrow>
          (case literal_start byte (maximum_encoded_bytes self - encoded_bytes self) of
             Inl _ \<Rightarrow> (self\<lparr>block_limit_exceeded := True\<rparr>, Inl BlockRefusal)
           | Inr string \<Rightarrow>
               if literal_is_complete string then (self, Inl BlockRefusal)
               else (self, Inr (State_Name string indexing)))
      | State_ValueStart indexing \<Rightarrow>
          (case literal_start byte (maximum_encoded_bytes self - encoded_bytes self) of
             Inl _ \<Rightarrow> (self\<lparr>block_limit_exceeded := True\<rparr>, Inl BlockRefusal)
           | Inr string \<Rightarrow>
               if literal_is_complete string
               then (case literal_finish string of
                       Inl _ \<Rightarrow> (self, Inl BlockRefusal)
                     | Inr _ \<Rightarrow> block_end_field sink indexing self)
               else (self, Inr (State_Value string indexing)))
      | State_Name string indexing \<Rightarrow>
          (case literal_push (block_emit sink True) byte (string, block_headers self, block_capture self) of
             ((string, hs, cap), Inl _) \<Rightarrow>
               (self\<lparr>block_headers := hs, block_capture := cap,
                     block_limit_exceeded := (block_limit_exceeded self \<or> encoded_limit_exceeded string)\<rparr>,
                Inl BlockRefusal)
           | ((string, hs, cap), Inr _) \<Rightarrow>
               (case require_remaining_literal_budget string
                       (self\<lparr>block_headers := hs, block_capture := cap\<rparr>) of
                  (self, Inl refusal) \<Rightarrow> (self, Inl refusal)
                | (self, Inr _) \<Rightarrow>
                    if literal_is_complete string
                    then (case literal_finish string of
                            Inl _ \<Rightarrow> (self, Inl BlockRefusal)
                          | Inr _ \<Rightarrow>
                              with_headers (sink_begin_value sink) self (\<lambda>self.
                                (self, Inr (State_ValueStart indexing))))
                    else (self, Inr (State_Name string indexing))))
      | State_Value string indexing \<Rightarrow>
          (case literal_push (block_emit sink False) byte (string, block_headers self, block_capture self) of
             ((string, hs, cap), Inl _) \<Rightarrow>
               (self\<lparr>block_headers := hs, block_capture := cap,
                     block_limit_exceeded := (block_limit_exceeded self \<or> encoded_limit_exceeded string)\<rparr>,
                Inl BlockRefusal)
           | ((string, hs, cap), Inr _) \<Rightarrow>
               (case require_remaining_literal_budget string
                       (self\<lparr>block_headers := hs, block_capture := cap\<rparr>) of
                  (self, Inl refusal) \<Rightarrow> (self, Inl refusal)
                | (self, Inr _) \<Rightarrow>
                    if literal_is_complete string
                    then (case literal_finish string of
                            Inl _ \<Rightarrow> (self, Inl BlockRefusal)
                          | Inr _ \<Rightarrow> block_end_field sink indexing self)
                    else (self, Inr (State_Value string indexing))))
      | State_Poisoned \<Rightarrow> (self, Inl BlockRefusal))"

text \<open>One round of the loop of \<open>push\<close>.\<close>

definition block_octet :: "('r, 'o) header_sink \<Rightarrow> byte \<Rightarrow>
    ('r response_block, block_refusal, unit) receiver" where
  "block_octet sink byte self =
     (let state = block_state self; self = self\<lparr>block_state := State_Poisoned\<rparr> in
      case checked_add (encoded_bytes self) 1 of
        None \<Rightarrow> (self\<lparr>block_limit_exceeded := True\<rparr>, Inl BlockRefusal)
      | Some n \<Rightarrow>
          if \<not> n \<le> maximum_encoded_bytes self
          then (self\<lparr>block_limit_exceeded := True\<rparr>, Inl BlockRefusal)
          else (case block_step sink state byte (self\<lparr>encoded_bytes := n\<rparr>) of
                  (self, Inl refusal) \<Rightarrow> (self, Inl refusal)
                | (self, Inr state) \<Rightarrow> (self\<lparr>block_state := state\<rparr>, Inr ())))"

definition block_push :: "('r, 'o) header_sink \<Rightarrow> byte list \<Rightarrow>
    ('r response_block, block_refusal, unit) receiver" where
  "block_push sink bytes self =
     (if block_state self = State_Poisoned then (self, Inl BlockRefusal)
      else settled (feed (block_octet sink) self bytes))"

definition block_finish :: "('r, 'o) header_sink \<Rightarrow> 'r response_block \<Rightarrow> block_refusal + 'o" where
  "block_finish sink self =
     (if block_state self \<noteq> State_Instruction then Inl BlockRefusal
      else case sink_finish sink (block_headers self) of Inl _ \<Rightarrow> Inl BlockRefusal | Inr out \<Rightarrow> Inr out)"

definition finish_with_next_reader :: "('r, 'o) header_sink \<Rightarrow> 'q \<Rightarrow> u64 \<Rightarrow> 'r response_block \<Rightarrow>
    block_refusal + ('o \<times> 'q response_block)" where
  "finish_with_next_reader sink reader maximum self =
     (if block_state self \<noteq> State_Instruction then Inl BlockRefusal
      else case sink_finish sink (block_headers self) of
        Inl _ \<Rightarrow> Inl BlockRefusal
      | Inr out \<Rightarrow> Inr (out, (with_reader reader maximum)\<lparr>block_table := block_table self\<rparr>))"

section \<open>What every step keeps\<close>

definition keeps :: "'r response_block \<Rightarrow> 'r response_block \<times> (block_refusal + block_state) \<Rightarrow> bool" where
  "keeps self out \<longleftrightarrow>
     (table_ok (block_table self) \<longrightarrow> table_ok (block_table (fst out)) \<and> snd out \<noteq> Inl BlockPanicked) \<and>
     encoded_bytes (fst out) = encoded_bytes self \<and>
     maximum_encoded_bytes (fst out) = maximum_encoded_bytes self \<and>
     block_state (fst out) = block_state self \<and> snd out \<noteq> Inr State_Poisoned"

abbreviation same_frame :: "'r response_block \<Rightarrow> 'r response_block \<Rightarrow> bool" where
  "same_frame self self' \<equiv> encoded_bytes self' = encoded_bytes self \<and>
     maximum_encoded_bytes self' = maximum_encoded_bytes self \<and> block_state self' = block_state self"

lemma keeps_refusal [simp]: "keeps self (self', Inl e) \<longleftrightarrow> same_frame self self' \<and>
    (table_ok (block_table self) \<longrightarrow> table_ok (block_table self') \<and> e \<noteq> BlockPanicked)"
  by (auto simp: keeps_def)

lemma keeps_state [simp]: "keeps self (self', Inr st) \<longleftrightarrow> same_frame self self' \<and>
    (table_ok (block_table self) \<longrightarrow> table_ok (block_table self')) \<and> st \<noteq> State_Poisoned"
  by (auto simp: keeps_def)

lemma keeps_trans:
  assumes "keeps self' out" "same_frame self self'" "table_ok (block_table self) \<longrightarrow> table_ok (block_table self')"
  shows "keeps self out"
  using assms by (auto simp: keeps_def)

lemma with_headers_keeps:
  assumes "same_frame self0 self" "table_ok (block_table self0) \<longrightarrow> table_ok (block_table self)"
    and "\<And>hs. keeps self0 (k (self\<lparr>block_headers := hs\<rparr>))"
  shows "keeps self0 (with_headers call self k)"
  using assms by (auto simp: with_headers_def split: prod.splits sum.splits)

lemma block_end_field_keeps: "keeps self (block_end_field sink indexing self)"
proof -
  define n v where "n = fst (the (block_capture self))" and "v = snd (the (block_capture self))"
  have "\<exists>s1 s2 r2. table_clear (block_table self) = Some s1 \<and> table_ok s1 \<and>
      table_insert n v (block_table self) = Some (s2, r2) \<and> table_ok s2" if "table_ok (block_table self)"
    using table_ops_total [OF that, of n v] by metis
  then show ?thesis
    unfolding block_end_field_def
    by (intro with_headers_keeps)
      (auto simp: Let_def n_def v_def split: option.split sum.split prod.split)
qed

lemma block_integer_keeps: "keeps self (block_integer sink val purpose self)"
proof (cases purpose)
  case Purpose_Indexed
  then show ?thesis by (auto simp: block_integer_def intro!: with_headers_keeps split: sum.split)
next
  case (Purpose_Name indexing)
  then show ?thesis
    by (auto simp: block_integer_def Let_def intro!: with_headers_keeps split: sum.split prod.split)
next
  case Purpose_Resize
  have "\<exists>s3 r3. table_resize val (block_table self) = Some (s3, r3) \<and> table_ok s3"
    if "table_ok (block_table self)"
    using table_ops_total [OF that, of _ _ val] by metis
  then show ?thesis
    using Purpose_Resize by (auto simp: block_integer_def split: option.split sum.split)
qed

lemma block_instruction_keeps: "keeps self (block_instruction sink byte self)"
proof -
  have "keeps self (block_integer sink val purpose (self\<lparr>seen_field := True\<rparr>))" for val purpose
    using keeps_trans [OF block_integer_keeps [of "self\<lparr>seen_field := True\<rparr>"]] by fastforce
  then show ?thesis
    by (auto simp: block_instruction_def Let_def block_integer_keeps split: sum.split option.split)
qed

lemma budget_keeps:
  "require_remaining_literal_budget string self = (self', r) \<Longrightarrow>
     (self' = self \<or> self' = self\<lparr>block_limit_exceeded := True\<rparr>) \<and> r \<noteq> Inl BlockPanicked"
  by (auto simp: require_remaining_literal_budget_def split: option.splits if_splits)

lemma block_step_keeps: "keeps self (block_step sink state byte self)"
proof (cases state)
  case (State_Name string indexing)
  obtain string' hs cap a where p: "literal_push (block_emit sink True) byte
      (string, block_headers self, block_capture self) = ((string', hs, cap), a)" by (metis surj_pair)
  obtain self' r where b: "require_remaining_literal_budget string'
      (self\<lparr>block_headers := hs, block_capture := cap\<rparr>) = (self', r)" by fastforce
  show ?thesis
    using State_Name p b budget_keeps [OF b]
    by (cases r) (auto simp: block_step_def intro!: with_headers_keeps split: sum.split)
next
  case (State_Value string indexing)
  obtain string' hs cap a where p: "literal_push (block_emit sink False) byte
      (string, block_headers self, block_capture self) = ((string', hs, cap), a)" by (metis surj_pair)
  obtain self' r where b: "require_remaining_literal_budget string'
      (self\<lparr>block_headers := hs, block_capture := cap\<rparr>) = (self', r)" by fastforce
  have "same_frame self self'" "table_ok (block_table self) \<longrightarrow> table_ok (block_table self')"
    using budget_keeps [OF b] by auto
  note keeps_trans [OF block_end_field_keeps this, of sink indexing]
  then show ?thesis
    using State_Value p b budget_keeps [OF b]
    by (cases r) (auto simp: block_step_def split: sum.split)
qed (auto simp: block_step_def block_instruction_keeps block_integer_keeps block_end_field_keeps
    split: prod.split sum.split option.split)

section \<open>The block as a decoder\<close>

definition block_ok :: "u64 \<Rightarrow> 'r response_block \<Rightarrow> bool" where
  "block_ok maximum self \<longleftrightarrow> table_ok (block_table self) \<and>
     maximum_encoded_bytes self = maximum \<and> encoded_bytes self \<le> maximum"

lemma block_octet_cases:
  assumes step: "block_octet sink byte self = (self', r)"
  shows "(block_ok maximum self \<longrightarrow> block_ok maximum self' \<and> r \<noteq> Inl BlockPanicked) \<and>
    (if is_ok r then unat (encoded_bytes self') = unat (encoded_bytes self) + 1 \<and>
       block_state self' \<noteq> State_Poisoned
     else block_state self' = State_Poisoned)"
proof (cases "checked_add (encoded_bytes self) 1")
  case None
  then show ?thesis using step by (auto simp: block_octet_def Let_def block_ok_def)
next
  case (Some n)
  let ?s = "self\<lparr>block_state := State_Poisoned, encoded_bytes := n\<rparr>"
  obtain s a where b: "block_step sink (block_state self) byte ?s = (s, a)" by fastforce
  have k: "keeps ?s (s, a)" unfolding b [symmetric] by (rule block_step_keeps)
  have n: "unat n = unat (encoded_bytes self) + 1" using checked_add_Some [OF Some] by simp
  show ?thesis
    using step Some b k n
    by (cases a) (auto simp: block_octet_def Let_def block_ok_def split: if_splits)
qed

lemma feed_octets_refuse:
  "feed (block_octet sink) s bytes = (s', Inl e) \<Longrightarrow> block_state s' = State_Poisoned"
proof (induction bytes arbitrary: s)
  case (Cons b bytes)
  then show ?case using block_octet_cases [of sink b s] by (auto split: prod.splits sum.splits)
qed simp

interpretation block: fragment_reader "block_push sink" "\<lambda>self. block_state self = State_Poisoned"
  "block_octet sink" for sink :: "('r, 'o) header_sink"
proof
  show "block_state s' = State_Poisoned" if "block_push sink i s = (s', Inl e)" for i s s' e
    using that feed_octets_refuse [of sink s i]
    by (auto simp: block_push_def settled_def split: if_splits prod.splits sum.splits)
  show "\<not> is_ok r" if "block_state s = State_Poisoned" "block_push sink i s = (s', r)" for i s s' r
    using that by (auto simp: block_push_def)
  show "block_push sink i s = settled (feed (block_octet sink) s i)" if "block_state s \<noteq> State_Poisoned" for i s
    using that by (simp add: block_push_def)
  show "block_state s' \<noteq> State_Poisoned" if "block_octet sink i s = (s', Inr b)" for i s s' b
    using block_octet_cases [OF that] by simp
qed

lemma feed_octets_ok:
  "block_ok maximum s \<Longrightarrow> feed (block_octet sink) s bytes = (s', r) \<Longrightarrow>
     block_ok maximum s' \<and> r \<noteq> Inl BlockPanicked"
proof (induction bytes arbitrary: s s' r)
  case (Cons b bytes)
  obtain t a where t: "block_octet sink b s = (t, a)" by fastforce
  note k = block_octet_cases [OF t, of maximum]
  show ?case
  proof (cases a)
    case (Inl e)
    then show ?thesis using Cons.prems t k by auto
  next
    case (Inr x)
    obtain u c where u: "feed (block_octet sink) t bytes = (u, c)" by fastforce
    then show ?thesis using Cons.IH [OF _ u] Cons.prems t k Inr by (cases c) auto
  qed
qed auto

lemma block_push_ok:
  "block_ok maximum s \<Longrightarrow> block_push sink bytes s = (s', r) \<Longrightarrow>
     block_ok maximum s' \<and> r \<noteq> Inl BlockPanicked"
  using feed_octets_ok [of maximum s sink bytes]
  by (auto simp: block_push_def settled_def split: if_splits prod.splits sum.splits)

lemma block_drive_ok:
  "block_ok maximum s \<Longrightarrow>
     block_ok maximum (fst (drive (block_push sink) s fragments)) \<and>
     Inl BlockPanicked \<notin> set (snd (drive (block_push sink) s fragments))"
proof (induction fragments arbitrary: s)
  case (Cons f fs)
  obtain t r where p: "block_push sink f s = (t, r)" by fastforce
  have "block_ok maximum t" "r \<noteq> Inl BlockPanicked" using block_push_ok [OF Cons.prems p] by simp_all
  then show ?case using Cons.IH [of t] p by (auto simp: Let_def split_beta)
qed simp

text \<open>C21: A response block is safe on any input.  Whatever gate receives the decoded fields, whatever
  octets arrive in whatever fragments, and even when a caller keeps pushing after a refusal, the
  decoder never panics, never consumes more than its encoded bound, and keeps the header table's
  account exact and within 4096 octets; and once one fragment was refused every later one is.\<close>

theorem response_block_safe:
  "let (block, answers) = drive (block_push sink) (with_reader gate maximum) fragments in
     Inl BlockPanicked \<notin> set answers \<and> encoded_bytes block \<le> maximum \<and>
     maximum_encoded_bytes block = maximum \<and> table_ok (block_table block) \<and>
     (\<exists>oks refusals. answers = oks @ refusals \<and> list_all is_ok oks \<and>
        list_all (\<lambda>r. \<not> is_ok r) refusals)"
proof -
  obtain b rs where d: "drive (block_push sink) (with_reader gate maximum) fragments = (b, rs)" by fastforce
  have "block_ok maximum (with_reader gate maximum)"
    by (simp add: block_ok_def with_reader_def table_ok_def account_ok_def table_new_def table_fields_def)
  from block_drive_ok [OF this, of sink fragments] show ?thesis
    using d block.drive_split [of sink "with_reader gate maximum" fragments]
    by (simp add: block_ok_def)
qed

section \<open>Encoded heads are decoded\<close>

text \<open>An encoder for one field: a literal with a new name, not indexed, with raw strings.\<close>

definition literal_octets :: "byte list \<Rightarrow> byte list" where
  "literal_octets s = (let (first, rest) = encode_integer 7 (of_nat (length s)) in first # rest @ s)"

definition field_octets :: "header_field \<Rightarrow> byte list" where
  "field_octets f = 0 # literal_octets (fst f) @ literal_octets (snd f)"

definition sink_event :: "('r, 'o) header_sink \<Rightarrow> head_event \<Rightarrow> ('r, decoded_head_refusal, unit) receiver" where
  "sink_event sink e =
     (case e of BeginField \<Rightarrow> sink_begin_field sink | NameByte b \<Rightarrow> sink_name_byte sink b
      | BeginValue \<Rightarrow> sink_begin_value sink | ValueByte b \<Rightarrow> sink_value_byte sink b
      | EndField \<Rightarrow> sink_end_field sink)"

text \<open>The block while it reads one of the two strings of a field that is not indexed.\<close>

definition blk :: "header_table \<Rightarrow> u64 \<Rightarrow> bool \<Rightarrow> block_state \<Rightarrow> 'r \<Rightarrow> nat \<Rightarrow> 'r response_block" where
  "blk table maximum seen st hs n =
     \<lparr>block_state = st, block_table = table, block_headers = hs, block_capture = None, seen_field = seen,
      encoded_bytes = of_nat n, maximum_encoded_bytes = maximum, block_limit_exceeded = False\<rparr>"

definition string_state :: "bool \<Rightarrow> literal_string \<Rightarrow> block_state" where
  "string_state name string = (if name then State_Name string False else State_Value string False)"

definition start_state :: "bool \<Rightarrow> block_state" where
  "start_state name = (if name then State_NameStart False else State_ValueStart False)"

definition after_state :: "bool \<Rightarrow> block_state" where
  "after_state name = (if name then State_ValueStart False else State_Instruction)"

definition string_byte :: "('r, 'o) header_sink \<Rightarrow> bool \<Rightarrow> byte \<Rightarrow> ('r, decoded_head_refusal, unit) receiver" where
  "string_byte sink name = (if name then sink_name_byte sink else sink_value_byte sink)"

definition string_end :: "('r, 'o) header_sink \<Rightarrow> bool \<Rightarrow> ('r, decoded_head_refusal, unit) receiver" where
  "string_end sink name = (if name then sink_begin_value sink else sink_end_field sink)"

lemmas string_defs = string_state_def start_state_def after_state_def string_byte_def string_end_def blk_def

lemma count_octet:
  assumes "Suc n \<le> unat (maximum :: u64)"
  shows "checked_add (of_nat n) (1 :: u64) = Some (of_nat (Suc n))" "(of_nat (Suc n) :: u64) \<le> maximum"
    "unat (maximum - of_nat (Suc n)) = unat maximum - Suc n" "1 + word_of_nat n \<le> maximum"
    "unat (maximum - (1 + word_of_nat n)) = unat maximum - Suc n"
proof -
  have m: "unat maximum < 2 ^ 64" using unsigned_less [of maximum, where 'a = nat] by simp
  have u: "unat (of_nat k :: u64) = k" if "k \<le> Suc n" for k
    using that assms m by (simp add: unat_of_nat del: of_nat_Suc)
  have "of_nat n + (1 :: u64) = of_nat (Suc n)" by simp
  then show "checked_add (of_nat n) (1 :: u64) = Some (of_nat (Suc n))"
    using u [of n] assms m by (simp add: checked_add_def)
  show le: "(of_nat (Suc n) :: u64) \<le> maximum"
    using u [of "Suc n"] assms by (simp add: word_le_nat_alt del: of_nat_Suc)
  show eq: "unat (maximum - of_nat (Suc n)) = unat maximum - Suc n"
    using le u [of "Suc n"] by (simp add: unat_sub del: of_nat_Suc)
  show "1 + word_of_nat n \<le> maximum" "unat (maximum - (1 + word_of_nat n)) = unat maximum - Suc n"
    using le eq by simp_all
qed

lemma literal_push_raw:
  assumes "\<not> str_poisoned string" "str_remaining string = Some r" "r \<noteq> 0" "str_huffman string = None"
    "string_byte sink name b hs = (hs', Inr x)"
  shows "literal_push (block_emit sink name) b (string, hs, None) =
    ((string\<lparr>str_remaining := Some (r - 1)\<rparr>, hs', None), Inr ())"
  using assms
  by (auto simp: literal_push_def literal_is_complete_def Let_def block_emit_def captured_def
      literal_counted_def string_byte_def split: if_splits)

lemma string_octet:
  assumes bound: "Suc n \<le> unat maximum"
    and push: "literal_push (block_emit sink name) b (string, hs, None) = ((string', hs', None), Inr ())"
    and budget: "\<And>r. str_remaining string' = Some r \<Longrightarrow> unat r \<le> unat maximum - Suc n"
    and raw: "str_huffman string' = None"
  shows "block_octet sink b (blk table maximum seen (string_state name string) hs n) =
    (if literal_is_complete string'
     then (case string_end sink name hs' of
             (hs'', Inl _) \<Rightarrow> (blk table maximum seen State_Poisoned hs'' (Suc n), Inl BlockRefusal)
           | (hs'', Inr _) \<Rightarrow> (blk table maximum seen (after_state name) hs'' (Suc n), Inr ()))
     else (blk table maximum seen (string_state name string') hs' (Suc n), Inr ()))"
proof -
  let ?b = "blk table maximum seen State_Poisoned hs' (Suc n)"
  have rem: "require_remaining_literal_budget string' ?b = (?b, Inr ())"
    using budget count_octet(3) [OF bound]
    by (auto simp: require_remaining_literal_budget_def remaining_encoded_bytes_def blk_def
        word_less_nat_alt not_le simp del: of_nat_Suc split: option.split)
  have fin: "literal_is_complete string' \<Longrightarrow> literal_finish string' = Inr ()"
    using raw by (simp add: literal_finish_def)
  have "block_step sink (string_state name string) b (blk table maximum seen State_Poisoned hs (Suc n)) =
      (if literal_is_complete string'
       then (case string_end sink name hs' of
               (hs'', Inl _) \<Rightarrow> (blk table maximum seen State_Poisoned hs'' (Suc n), Inl BlockRefusal)
             | (hs'', Inr _) \<Rightarrow> (blk table maximum seen State_Poisoned hs'' (Suc n), Inr (after_state name)))
       else (?b, Inr (string_state name string')))"
  proof -
    obtain hs'' a where e: "string_end sink name hs' = (hs'', a)" by fastforce
    have "block_end_field sink False ?b = (case a of
        Inl _ \<Rightarrow> (blk table maximum seen State_Poisoned hs'' (Suc n), Inl BlockRefusal)
      | Inr _ \<Rightarrow> (blk table maximum seen State_Poisoned hs'' (Suc n), Inr State_Instruction))"
      if "\<not> name" using e that
      by (cases a) (simp_all add: block_end_field_def with_headers_def string_end_def blk_def)
    moreover have "with_headers (sink_begin_value sink) ?b (\<lambda>self. (self, Inr (State_ValueStart False))) =
      (case a of
        Inl _ \<Rightarrow> (blk table maximum seen State_Poisoned hs'' (Suc n), Inl BlockRefusal)
      | Inr _ \<Rightarrow> (blk table maximum seen State_Poisoned hs'' (Suc n), Inr (State_ValueStart False)))"
      if name using e that
      by (cases a) (simp_all add: with_headers_def string_end_def blk_def)
    moreover have "(blk table maximum seen State_Poisoned hs (Suc n))
        \<lparr>block_headers := hs', block_capture := None\<rparr> = ?b"
      and "block_headers (blk table maximum seen State_Poisoned hs (Suc n)) = hs"
      and "block_capture (blk table maximum seen State_Poisoned hs (Suc n)) = None"
      by (simp_all add: blk_def)
    ultimately show ?thesis
      using push rem fin e
      by (cases name; cases a; cases "literal_is_complete string'")
        (simp_all add: block_step_def string_state_def after_state_def)
  qed
  then have "block_step sink (string_state name string) b
      ((blk table maximum seen (string_state name string) hs n)
        \<lparr>block_state := State_Poisoned, encoded_bytes := of_nat (Suc n)\<rparr>) = \<dots>"
    by (simp add: blk_def del: of_nat_Suc)
  moreover obtain hs'' a where "string_end sink name hs' = (hs'', a)" by fastforce
  ultimately show ?thesis
    using count_octet(1,2) [OF bound]
    by (cases a; cases "literal_is_complete string'")
      (simp_all add: block_octet_def Let_def blk_def del: of_nat_Suc)
qed

lemma string_data:
  "\<lbrakk>\<not> str_poisoned string; str_remaining string = Some (of_nat (length ds)); str_huffman string = None;
    ds \<noteq> []; n + length ds \<le> unat maximum; feed (string_byte sink name) hs ds = (hs1, Inr xs);
    string_end sink name hs1 = (hs2, Inr y)\<rbrakk> \<Longrightarrow>
   \<exists>ys. feed (block_octet sink) (blk table maximum seen (string_state name string) hs n) ds =
     (blk table maximum seen (after_state name) hs2 (n + length ds), Inr ys)"
proof (induction ds arbitrary: string hs n xs)
  case (Cons d ds)
  have small: "length ds < 2 ^ 64 - 1"
    using Cons.prems(5) unsigned_less [of maximum, where 'a = nat] by simp
  then have u: "unat (of_nat (length ds) :: u64) = length ds" "unat (1 + of_nat (length ds) :: u64) = Suc (length ds)"
    by (simp_all add: unat_of_nat unat_word_ariths)
  then have nz: "(of_nat (length (d # ds)) :: u64) \<noteq> 0" by (metis unat_0 length_Cons nat.distinct(1) of_nat_Suc)
  obtain hs' x xs' where b: "string_byte sink name d hs = (hs', Inr x)"
    "feed (string_byte sink name) hs' ds = (hs1, Inr xs')"
    using Cons.prems(6) by (auto split: prod.splits sum.splits)
  let ?s = "string\<lparr>str_remaining := Some (of_nat (length ds))\<rparr>"
  have push: "literal_push (block_emit sink name) d (string, hs, None) = ((?s, hs', None), Inr ())"
    using literal_push_raw [OF Cons.prems(1,2) nz Cons.prems(3) b(1)] by simp
  have bound: "Suc n \<le> unat maximum" using Cons.prems(5) by simp
  note octet = string_octet [OF bound push, of table seen]
  have complete: "literal_is_complete ?s \<longleftrightarrow> ds = []"
    using Cons.prems(1) u(1) by (auto simp: literal_is_complete_def unat_eq_zero [symmetric])
  show ?case
  proof (cases "ds = []")
    case True
    then show ?thesis using octet complete b(2) Cons.prems(3,5,7) by auto
  next
    case False
    have "block_octet sink d (blk table maximum seen (string_state name string) hs n) =
        (blk table maximum seen (string_state name ?s) hs' (Suc n), Inr ())"
      using octet complete False Cons.prems(3,5) u by simp
    moreover obtain ys where "feed (block_octet sink) (blk table maximum seen (string_state name ?s) hs' (Suc n)) ds =
        (blk table maximum seen (after_state name) hs2 (Suc n + length ds), Inr ys)"
      using Cons.IH [of ?s "Suc n" hs' xs'] Cons.prems False b(2) by auto
    ultimately show ?thesis by simp
  qed
qed simp

lemma finish_after_step:
  assumes "finish_after p (b # bs) = Inr w"
  obtains p' v where "integer_push b p = (p', Inr v)" "v = integer_value p'" "finish_after p' bs = Inr w"
    "bs = [] \<Longrightarrow> v = Some w" "bs \<noteq> [] \<Longrightarrow> v = None"
proof -
  obtain p' v where p: "integer_push b p = (p', Inr v)" "finish_after p' bs = Inr w"
    using assms by (auto simp: finish_after_Cons split: prod.splits sum.splits)
  have v: "v = integer_value p'" using integer_push_Inr [OF p(1)] by simp
  have "v = Some w" if "bs = []"
    using p(2) that v by (auto simp: finish_after_def integer_finish_def split: option.splits)
  moreover have "v = None" if "bs \<noteq> []"
    using integer_value_complete [of p' _ bs w] p(2) that v by (cases "integer_value p'") auto
  ultimately show thesis using that p v by blast
qed

lemma string_length:
  "\<lbrakk>\<not> str_poisoned string; str_remaining string = None; str_huffman string = None; lb \<noteq> [];
    finish_after (str_length string) lb = Inr (of_nat (length ds)); ds \<noteq> [];
    n + length lb + length ds \<le> unat maximum; feed (string_byte sink name) hs ds = (hs1, Inr xs);
    string_end sink name hs1 = (hs2, Inr y)\<rbrakk> \<Longrightarrow>
   \<exists>ys. feed (block_octet sink) (blk table maximum seen (string_state name string) hs n) (lb @ ds) =
     (blk table maximum seen (after_state name) hs2 (n + length lb + length ds), Inr ys)"
proof (induction lb arbitrary: string n)
  case (Cons b lb)
  obtain p' v where p: "integer_push b (str_length string) = (p', Inr v)" "v = integer_value p'"
    "finish_after p' lb = Inr (of_nat (length ds))" "lb = [] \<Longrightarrow> v = Some (of_nat (length ds))"
    "lb \<noteq> [] \<Longrightarrow> v = None"
    using finish_after_step [OF Cons.prems(5)] by metis
  let ?s = "string\<lparr>str_length := p', str_remaining := v\<rparr>"
  have push: "literal_push (block_emit sink name) b (string, hs, None) = ((?s, hs, None), Inr ())"
    using Cons.prems(1,2) p(1) by (simp add: literal_push_def literal_is_complete_def Let_def)
  have bound: "Suc n \<le> unat maximum" using Cons.prems(7) by simp
  have u: "unat (of_nat (length ds) :: u64) = length ds"
    using Cons.prems(7) unsigned_less [of maximum, where 'a = nat] by (simp add: unat_of_nat)
  then have "\<not> literal_is_complete ?s"
    using p(4,5) Cons.prems(6)
    by (cases "lb = []") (auto simp: literal_is_complete_def unat_eq_zero [symmetric])
  then have octet: "block_octet sink b (blk table maximum seen (string_state name string) hs n) =
      (blk table maximum seen (string_state name ?s) hs (Suc n), Inr ())"
    using string_octet [OF bound push, of table seen] Cons.prems(3,7) p(4,5) u
    by (cases "lb = []") auto
  have "\<exists>ys. feed (block_octet sink) (blk table maximum seen (string_state name ?s) hs (Suc n)) (lb @ ds) =
      (blk table maximum seen (after_state name) hs2 (Suc n + length lb + length ds), Inr ys)"
  proof (cases "lb = []")
    case True
    then show ?thesis
      using string_data [of ?s ds "Suc n" maximum sink name hs hs1 xs hs2 y table seen] Cons.prems p(4) by simp
  next
    case False
    then show ?thesis using Cons.IH [of ?s "Suc n"] Cons.prems p by simp
  qed
  then show ?case using octet by auto
qed simp

lemma literal_octets_split:
  assumes "length s \<le> unat mx"
  obtains first rest p where "literal_octets s = first # rest @ s" "first AND 0x80 = 0"
    "integer_start first 7 mx = Inr p" "finish_after p rest = Inr (of_nat (length s))"
    "rest = [] \<longleftrightarrow> length s < 127"
proof -
  have u: "unat (of_nat (length s) :: u64) = length s"
    using assms unsigned_less [of mx, where 'a = nat] by (simp add: unat_of_nat)
  obtain first rest where e: "encode_integer 7 (of_nat (length s)) = (first, rest)" by fastforce
  have f: "unat first < 128" and r: "rest = [] \<longleftrightarrow> length s < 127"
    using e u by (auto simp: encode_integer_def unat_of_nat_byte split: if_splits)
  have "decode_integer first 7 mx rest = Inr (of_nat (length s))"
    by (rule integer_encodes [of 7 _ _ first]) (use e f u assms in \<open>simp_all add: word_le_nat_alt\<close>)
  then obtain p where "integer_start first 7 mx = Inr p" "finish_after p rest = Inr (of_nat (length s))"
    by (auto simp: decode_integer_def finish_after_def bindE_eq_Inr)
  then show thesis using that [of first rest p] e f r by (simp add: literal_octets_def and_80_zero)
qed

lemma literal_accepted:
  assumes bound: "n + length (literal_octets s) \<le> unat maximum" and ne: "name \<Longrightarrow> s \<noteq> []"
    and bytes: "feed (string_byte sink name) hs s = (hs1, Inr xs)"
    and end_: "string_end sink name hs1 = (hs2, Inr y)"
  shows "\<exists>ys. feed (block_octet sink) (blk table maximum seen (start_state name) hs n) (literal_octets s) =
    (blk table maximum seen (after_state name) hs2 (n + length (literal_octets s)), Inr ys)"
proof -
  define mx where "mx = maximum - (of_nat (Suc n) :: u64)"
  have "length s < length (literal_octets s)"
    by (simp add: literal_octets_def split: prod.split)
  then have b1: "Suc n \<le> unat maximum" "length s \<le> unat maximum - Suc n" using bound by simp_all
  have mx: "unat mx = unat maximum - Suc n" using count_octet(3) [OF b1(1)] by (simp add: mx_def)
  obtain first rest p where l: "literal_octets s = first # rest @ s" "first AND 0x80 = 0"
    "integer_start first 7 mx = Inr p" "finish_after p rest = Inr (of_nat (length s))"
    "rest = [] \<longleftrightarrow> length s < 127"
    using literal_octets_split [of s mx] b1(2) mx by metis
  define string where "string = \<lparr>str_length = p, str_remaining = integer_value p, str_huffman = None,
    str_poisoned = False\<rparr>"
  have start: "literal_start first mx = Inr string" using l(2,3) by (simp add: literal_start_def string_def)
  have u: "unat (of_nat (length s) :: u64) = length s"
    using b1(2) unsigned_less [of maximum, where 'a = nat] by (simp add: unat_of_nat)
  have v: "integer_value p = (if rest = [] then Some (of_nat (length s)) else None)"
  proof (cases rest)
    case Nil
    then show ?thesis using l(4) by (auto simp: finish_after_def integer_finish_def split: option.splits)
  next
    case (Cons c cs)
    then show ?thesis using l(4) integer_value_complete [of p _ rest] by (cases "integer_value p") auto
  qed
  have complete: "literal_is_complete string \<longleftrightarrow> s = []"
    using v u l(5) by (auto simp: literal_is_complete_def string_def unat_eq_zero [symmetric])
  note count = count_octet(1,2) [OF b1(1)]
  show ?thesis
  proof (cases "s = []")
    case True
    then have "\<not> name" "rest = []" using ne l(5) by auto
    then show ?thesis
      using True start complete bytes end_ l(1) count
      by (simp add: block_octet_def Let_def blk_def start_state_def after_state_def block_step_def mx_def
          literal_finish_def string_def block_end_field_def with_headers_def string_end_def del: of_nat_Suc)
  next
    case False
    have "block_octet sink first (blk table maximum seen (start_state name) hs n) =
        (blk table maximum seen (string_state name string) hs (Suc n), Inr ())"
      using start complete False count
      by (cases name) (simp_all add: block_octet_def Let_def blk_def start_state_def string_state_def
          block_step_def mx_def del: of_nat_Suc)
    moreover have "\<exists>ys. feed (block_octet sink) (blk table maximum seen (string_state name string) hs (Suc n))
        (rest @ s) = (blk table maximum seen (after_state name) hs2 (Suc n + length rest + length s), Inr ys)"
    proof (cases "rest = []")
      case True
      then show ?thesis
        using string_data [of string s "Suc n" maximum sink name hs hs1 xs hs2 y table seen]
          False bound v bytes end_ l(1) by (simp add: string_def)
    next
      case rest: False
      then show ?thesis
        using string_length [of string rest s "Suc n" maximum sink name hs hs1 xs hs2 y table seen]
          False bound v bytes end_ l(1,4) by (simp add: string_def)
    qed
    ultimately show ?thesis using l(1) by (auto simp: add.assoc)
  qed
qed

lemma instruction_accepted:
  assumes "Suc n \<le> unat maximum" "sink_begin_field sink hs = (hs', Inr x)"
  shows "block_octet sink 0 (blk table maximum seen State_Instruction hs n) =
    (blk table maximum True (start_state True) hs' (Suc n), Inr ())"
proof -
  have "integer_start 0 4 (61 + MAXIMUM_DYNAMIC_TABLE_BYTES div 32) =
      Inr \<lparr>int_maximum = 61 + MAXIMUM_DYNAMIC_TABLE_BYTES div 32, int_value = 0, int_shift = 0,
        int_complete = True, int_poisoned = False, int_limit_exceeded = False\<rparr>"
    by (simp add: integer_start_def MAXIMUM_DYNAMIC_TABLE_BYTES_def Let_def)
  then show ?thesis
    using assms count_octet(1,2) [OF assms(1)]
    by (simp add: block_octet_def Let_def blk_def block_step_def block_instruction_def block_integer_def
        integer_value_def with_headers_def start_state_def del: of_nat_Suc)
qed

lemma feed_map: "feed push s (map f xs) = feed (\<lambda>x. push (f x)) s xs"
  by (induction xs arbitrary: s) (simp_all split: prod.split sum.split)

lemma feed_Inr_append:
  assumes "feed push s (xs @ ys) = (s', Inr rs)"
  obtains t as bs where "feed push s xs = (t, Inr as)" "feed push t ys = (s', Inr bs)"
  using assms by (auto simp: feed_append split: prod.splits sum.splits)

lemma feed_Inr_Cons:
  assumes "feed push s (x # ys) = (s', Inr rs)"
  obtains t a bs where "push x s = (t, Inr a)" "feed push t ys = (s', Inr bs)"
  using assms by (auto split: prod.splits sum.splits)

lemma field_accepted:
  assumes bound: "n + length (field_octets f) \<le> unat maximum" and ne: "fst f \<noteq> []"
    and events: "feed (sink_event sink) hs (field_events f) = (hs', Inr xs)"
  shows "\<exists>ys. feed (block_octet sink) (blk table maximum seen State_Instruction hs n) (field_octets f) =
    (blk table maximum True State_Instruction hs' (n + length (field_octets f)), Inr ys)"
proof -
  obtain h1 x1 r1 where e1: "sink_event sink BeginField hs = (h1, Inr x1)"
    "feed (sink_event sink) h1 (map NameByte (fst f) @ BeginValue # map ValueByte (snd f) @ [EndField]) =
      (hs', Inr r1)"
    using events unfolding field_events_def by (rule feed_Inr_Cons)
  obtain h2 x2 r2 where e2: "feed (sink_event sink) h1 (map NameByte (fst f)) = (h2, Inr x2)"
    "feed (sink_event sink) h2 (BeginValue # map ValueByte (snd f) @ [EndField]) = (hs', Inr r2)"
    using e1(2) by (rule feed_Inr_append)
  obtain h3 x3 r3 where e3: "sink_event sink BeginValue h2 = (h3, Inr x3)"
    "feed (sink_event sink) h3 (map ValueByte (snd f) @ [EndField]) = (hs', Inr r3)"
    using e2(2) by (rule feed_Inr_Cons)
  obtain h4 x4 r4 where e4: "feed (sink_event sink) h3 (map ValueByte (snd f)) = (h4, Inr x4)"
    "feed (sink_event sink) h4 [EndField] = (hs', Inr r4)"
    using e3(2) by (rule feed_Inr_append)
  obtain h5 x5 r5 where "sink_event sink EndField h4 = (h5, Inr x5)"
    "feed (sink_event sink) h5 [] = (hs', Inr r5)"
    using e4(2) by (rule feed_Inr_Cons)
  then have e5: "sink_event sink EndField h4 = (hs', Inr x5)" by simp
  have len: "length (field_octets f) = Suc (length (literal_octets (fst f)) + length (literal_octets (snd f)))"
    by (simp add: field_octets_def)
  have s1: "block_octet sink 0 (blk table maximum seen State_Instruction hs n) =
      (blk table maximum True (start_state True) h1 (Suc n), Inr ())"
    using e1(1) bound len by (intro instruction_accepted) (simp_all add: sink_event_def)
  have "\<exists>ys. feed (block_octet sink) (blk table maximum True (start_state True) h1 (Suc n))
      (literal_octets (fst f)) = (blk table maximum True (after_state True) h3
        (Suc n + length (literal_octets (fst f))), Inr ys)"
    by (rule literal_accepted [where ?hs1.0 = h2 and y = x3 and xs = x2])
      (use ne bound len e2(1) e3(1) in \<open>simp_all add: string_byte_def string_end_def sink_event_def feed_map\<close>)
  moreover have "\<exists>ys. feed (block_octet sink) (blk table maximum True (start_state False) h3
        (Suc n + length (literal_octets (fst f)))) (literal_octets (snd f)) =
      (blk table maximum True (after_state False) hs'
        (Suc n + length (literal_octets (fst f)) + length (literal_octets (snd f))), Inr ys)"
    by (rule literal_accepted [where ?hs1.0 = h4 and y = x5 and xs = x4])
      (use bound len e4(1) e5 in \<open>simp_all add: string_byte_def string_end_def sink_event_def feed_map\<close>)
  ultimately show ?thesis
    using s1 by (auto simp: field_octets_def feed_append after_state_def start_state_def add.assoc)
qed

lemma fields_accepted:
  "\<lbrakk>n + length (concat (map field_octets fs)) \<le> unat maximum; \<forall>f \<in> set fs. fst f \<noteq> [];
    feed (sink_event sink) hs (concat (map field_events fs)) = (hs', Inr xs)\<rbrakk> \<Longrightarrow>
   \<exists>b ys. feed (block_octet sink) (blk table maximum seen State_Instruction hs n)
       (concat (map field_octets fs)) = (b, Inr ys) \<and>
     block_state b = State_Instruction \<and> block_headers b = hs'"
proof (induction fs arbitrary: n hs xs seen)
  case Nil
  then show ?case by (simp add: blk_def)
next
  case (Cons f fs)
  obtain h as bs where e: "feed (sink_event sink) hs (field_events f) = (h, Inr as)"
    "feed (sink_event sink) h (concat (map field_events fs)) = (hs', Inr bs)"
    using Cons.prems(3) by (auto elim: feed_Inr_append)
  have bound: "n + length (field_octets f) \<le> unat maximum" using Cons.prems(1) by simp
  obtain ys where "feed (block_octet sink) (blk table maximum seen State_Instruction hs n) (field_octets f) =
      (blk table maximum True State_Instruction h (n + length (field_octets f)), Inr ys)"
    using field_accepted [OF bound _ e(1)] Cons.prems(2) by fastforce
  moreover obtain b zs where "feed (block_octet sink)
      (blk table maximum True State_Instruction h (n + length (field_octets f)))
      (concat (map field_octets fs)) = (b, Inr zs)" "block_state b = State_Instruction" "block_headers b = hs'"
    using Cons.IH [of "n + length (field_octets f)" h bs True] Cons.prems e(2) by (auto simp: add.assoc)
  ultimately show ?case by (simp add: feed_append)
qed

text \<open>C20: Every response head can be sent and is read back.  Whatever the \<open>http\<close> crate accepts, the
  fields of an acceptable head (\<open>:status\<close> first, within the contract's bounds), encoded as HPACK
  literals and cut into any fragments, are taken by the response block fragment by fragment, and
  the finished block yields that status and exactly those headers.\<close>

theorem response_head_roundtrip:
  assumes head: "head_fields_ok http bs fs code m"
    and size: "sum_list (map field_cost fs) + 2 \<le> unat (head_bytes bs)"
    and wire: "concat fragments = concat (map field_octets fs)" "length (concat fragments) \<le> unat maximum"
  shows "\<exists>block answers.
    feed (block_push (head_sink http)) (with_reader (head_with_bounds http bs) maximum) fragments =
      (block, Inr answers) \<and> block_finish (head_sink http) block = Inr (code, m)"
proof -
  let ?b = "with_reader (head_with_bounds http bs) maximum"
  have ev: "sink_event (head_sink http) = head_event http"
    by (intro ext) (simp add: sink_event_def head_event_def head_sink_def split: head_event.split)
  obtain r xs where r: "feed (head_event http) (head_with_bounds http bs) (concat (map field_events fs)) = (r, Inr xs)"
    "head_finish r = Inr (code, m)"
    using head_complete [OF head size] by (auto simp: head_read_events_def split: prod.splits sum.splits)
  have "\<forall>f \<in> set fs. fst f \<noteq> []" using head by (auto simp: head_fields_ok_def plain_field_def)
  then obtain b ys where b: "feed (block_octet (head_sink http)) ?b (concat (map field_octets fs)) = (b, Inr ys)"
    "block_state b = State_Instruction" "block_headers b = r"
    using fields_accepted [of 0 fs maximum "head_sink http" "head_with_bounds http bs" r xs table_new False]
      wire r(1) ev by (auto simp: blk_def with_reader_def)
  have live: "block_state ?b \<noteq> State_Poisoned" by (simp add: with_reader_def)
  have "settled (feed (block_push (head_sink http)) ?b fragments) = (b, Inr ())"
    using block.fragments_do_not_matter [OF live, of "head_sink http" fragments] b(1) wire(1)
      block.push_live [OF live, of "head_sink http" "concat fragments"] by simp
  then obtain answers where "feed (block_push (head_sink http)) ?b fragments = (b, Inr answers)"
    by (auto simp: settled_def split: prod.splits sum.splits)
  then show ?thesis using b r(2) by (auto simp: block_finish_def head_sink_def)
qed

definition plain_http :: "(byte list, byte list, header_field list) http_crate" where
  "plain_http =
     \<lparr>status_from_bytes = (\<lambda>b. if b = ascii ''200'' then Some 200 else None),
      is_redirection = (\<lambda>code. 300 \<le> code \<and> code < 400), header_name_from_bytes = Some,
      header_value_from_bytes = Some, header_map_new = [], header_map_append = (\<lambda>n v m. m @ [(n, v)])\<rparr>"

theorem response_head_roundtrip_witness:
  "\<exists>block answers.
    feed (block_push (head_sink plain_http))
        (with_reader (head_with_bounds plain_http \<lparr>field_bytes = 100, field_count = 8, head_bytes = 200\<rparr>) 100)
        [[0, 7, 0x3a, 0x73], [0x74, 0x61, 0x74, 0x75, 0x73, 3, 0x32, 0x30, 0x30, 0, 1], [0x78, 0]] =
      (block, Inr answers) \<and> block_finish (head_sink plain_http) block = Inr (200, [(ascii ''x'', [])])"
proof (rule response_head_roundtrip [where fs = "[(ascii '':status'', ascii ''200''), (ascii ''x'', [])]"])
  show "head_fields_ok plain_http \<lparr>field_bytes = 100, field_count = 8, head_bytes = 200\<rparr>
      [(ascii '':status'', ascii ''200''), (ascii ''x'', [])] 200 [(ascii ''x'', [])]"
    by (simp add: head_fields_ok_def plain_field_def name_octet_def value_octet_def final_status_def
        plain_http_def regular_field_def connection_fields_def)
  show "concat [[0, 7, 0x3a, 0x73], [0x74, 0x61, 0x74, 0x75, 0x73, 3, 0x32, 0x30, 0x30, 0, 1], [0x78, 0]] =
      concat (map field_octets [(ascii '':status'', ascii ''200''), (ascii ''x'', [])])"
    by (simp add: field_octets_def literal_octets_def encode_integer_def)
qed (simp_all add: field_cost_def)

end
