(* ===== verification/Http2_Frames.thy ===== *)
theory Http2_Frames
  imports Response_Head
begin

unbundle bit_operations_syntax

text \<open>
  The response frame reader of \<open>slingshot-agent-connection/src/selected_author_http2_frames.rs\<close>: the
  wire gate that admits the frames of one response on stream 1.  The transport is a list of octets
  still to come and whether it breaks or ends after them.  Every early return of the source is a
  refusal that leaves the reader poisoned.
\<close>

definition MAXIMUM_FRAME_BYTES :: nat where
  "MAXIMUM_FRAME_BYTES = 16384"

datatype response_frame_refusal = ResponseFrameRefusal

record response_frame =
  frame_kind :: byte
  frame_flags :: byte
  stream_identifier :: u32
  payload :: "byte list"

datatype frame_read = Frame response_frame | End

record frame_reader =
  maximum_header_bytes :: u64
  encoded_header_bytes :: u64
  first_frame :: bool
  head_started :: bool
  continuation :: bool
  stream_ended :: bool
  stream_reset :: bool
  reader_poisoned :: bool
  allow_trailer_section :: bool
  trailer_started :: bool
  header_limit_exceeded :: bool

definition with_header_policy :: "u64 \<Rightarrow> bool \<Rightarrow> frame_reader" where
  "with_header_policy maximum trailers =
     \<lparr>maximum_header_bytes = maximum, encoded_header_bytes = 0, first_frame = True, head_started = False,
      continuation = False, stream_ended = False, stream_reset = False, reader_poisoned = False,
      allow_trailer_section = trailers, trailer_started = False, header_limit_exceeded = False\<rparr>"

definition frame_reader_new :: frame_reader where
  "frame_reader_new = with_header_policy (head_bytes head_bounds_embedded) False"

text \<open>The transport: what will still arrive, and whether a read after that fails rather than reports
  the end of the stream.\<close>

record transport =
  incoming :: "byte list"
  breaks :: bool

definition read_exact :: "nat \<Rightarrow> (transport, response_frame_refusal, byte list) receiver" where
  "read_exact n wire =
     (if n \<le> length (incoming wire)
      then (wire\<lparr>incoming := drop n (incoming wire)\<rparr>, Inr (take n (incoming wire)))
      else (wire\<lparr>incoming := []\<rparr>, Inl ResponseFrameRefusal))"

text \<open>\<open>u32::from_be_bytes\<close> and \<open>u16::from_be_bytes\<close>.\<close>

definition be_word :: "byte list \<Rightarrow> 'a::len word" where
  "be_word bytes = foldl (\<lambda>w b. push_bit 8 w OR ucast b) 0 bytes"

text \<open>The checks of \<open>read_frame\<close> on a frame's head, before and after the first frame is noted.\<close>

definition head_refused :: "frame_reader \<Rightarrow> byte \<Rightarrow> byte \<Rightarrow> u32 \<Rightarrow> nat \<Rightarrow> bool" where
  "head_refused self kind flags stream len \<longleftrightarrow>
     len > MAXIMUM_FRAME_BYTES \<or>
     (first_frame self \<and> (kind \<noteq> 4 \<or> flags AND 1 \<noteq> 0)) \<or>
     (continuation self \<and> (kind \<noteq> 9 \<or> stream \<noteq> 1))"

definition kind_refused :: "frame_reader \<Rightarrow> byte \<Rightarrow> byte \<Rightarrow> u32 \<Rightarrow> nat \<Rightarrow> bool" where
  "kind_refused self kind flags stream len =
     (if kind = 0 then stream \<noteq> 1 \<or> \<not> head_started self \<or> stream_ended self
      else if kind = 1 then
        stream \<noteq> 1 \<or> stream_ended self \<or>
        (head_started self \<and> (\<not> allow_trailer_section self \<or> trailer_started self \<or> flags AND 1 = 0))
      else if kind = 2 then stream \<noteq> 1 \<or> len \<noteq> 5
      else if kind = 3 then stream \<noteq> 1 \<or> len \<noteq> 4
      else if kind = 4 then stream \<noteq> 0 \<or> len mod 6 \<noteq> 0 \<or> (flags AND 1 \<noteq> 0 \<and> len \<noteq> 0)
      else if kind = 5 then True
      else if kind = 6 then stream \<noteq> 0 \<or> len \<noteq> 8
      else if kind = 7 then stream \<noteq> 0 \<or> len < 8
      else if kind = 8 then stream \<notin> {0, 1} \<or> len \<noteq> 4
      else if kind = 9 then stream \<noteq> 1 \<or> \<not> continuation self
      else False)"

fun chunks_exact :: "nat \<Rightarrow> 'a list \<Rightarrow> 'a list list" where
  "chunks_exact n xs =
     (if 0 < n \<and> n \<le> length xs then take n xs # chunks_exact n (drop n xs) else [])"

declare chunks_exact.simps [simp del]

definition setting_refused :: "byte list \<Rightarrow> bool" where
  "setting_refused setting =
     (let identifier = (be_word (take 2 setting) :: u16); v = (be_word (drop 2 setting) :: u32) in
      identifier = 2 \<and> v \<noteq> 0 \<or> identifier = 4 \<and> v > 0x7fffffff \<or>
      identifier = 5 \<and> \<not> (16384 \<le> v \<and> v \<le> 16777215))"

definition validate_control_payload :: "byte \<Rightarrow> byte \<Rightarrow> u32 \<Rightarrow> byte list \<Rightarrow> response_frame_refusal + unit" where
  "validate_control_payload kind flags stream bytes =
     (if kind = 0 \<and> flags AND 8 \<noteq> 0 then
        (case bytes of
           [] \<Rightarrow> Inl ResponseFrameRefusal
         | p # _ \<Rightarrow> if unat p \<ge> length bytes then Inl ResponseFrameRefusal else Inr ())
      else if kind = 2 then
        (if (be_word (take 4 bytes) :: u32) AND 0x7fffffff = stream then Inl ResponseFrameRefusal else Inr ())
      else if kind = 4 then
        (if \<exists>setting \<in> set (chunks_exact 6 bytes). setting_refused setting
         then Inl ResponseFrameRefusal else Inr ())
      else if kind = 8 then
        (if (be_word bytes :: u32) AND 0x7fffffff = 0 then Inl ResponseFrameRefusal else Inr ())
      else Inr ())"

text \<open>The padding length and the priority fields that open a HEADERS frame: how many octets of the
  header block follow, and how much padding after them.\<close>

definition read_headers_prelude :: "byte \<Rightarrow> nat \<Rightarrow>
    (transport, response_frame_refusal, nat \<times> nat) receiver" where
  "read_headers_prelude flags len wire =
     (let padded = flags AND 8 \<noteq> 0; prioritized = flags AND 0x20 \<noteq> 0 in
      case (if padded
            then if len < 1 then (wire, Inl ResponseFrameRefusal)
                 else (case read_exact 1 wire of
                         (wire, Inl refusal) \<Rightarrow> (wire, Inl refusal)
                       | (wire, Inr bytes) \<Rightarrow> (wire, Inr (len - 1, unat (hd bytes))))
            else (wire, Inr (len, 0))) of
        (wire, Inl refusal) \<Rightarrow> (wire, Inl refusal)
      | (wire, Inr (remaining, padding)) \<Rightarrow>
          (case (if prioritized
                 then if remaining < 5 then (wire, Inl ResponseFrameRefusal)
                      else (case read_exact 5 wire of
                              (wire, Inl refusal) \<Rightarrow> (wire, Inl refusal)
                            | (wire, Inr priority) \<Rightarrow>
                                if (be_word (take 4 priority) :: u32) AND 0x7fffffff = 1
                                then (wire, Inl ResponseFrameRefusal)
                                else (wire, Inr (remaining - 5)))
                 else (wire, Inr remaining)) of
             (wire, Inl refusal) \<Rightarrow> (wire, Inl refusal)
           | (wire, Inr remaining) \<Rightarrow>
               if remaining < padding then (wire, Inl ResponseFrameRefusal)
               else (wire, Inr (remaining - padding, padding))))"

text \<open>The payload, its padding, its validation and what the frame changes.\<close>

definition read_frame_payload :: "byte \<Rightarrow> byte \<Rightarrow> u32 \<Rightarrow> nat \<Rightarrow> nat \<Rightarrow>
    (frame_reader \<times> transport, response_frame_refusal, response_frame option) receiver" where
  "read_frame_payload kind flags stream remaining padding = (\<lambda>(self, wire).
     case read_exact remaining wire of
       (wire, Inl refusal) \<Rightarrow> ((self, wire), Inl refusal)
     | (wire, Inr bytes) \<Rightarrow>
         (case read_exact padding wire of
            (wire, Inl refusal) \<Rightarrow> ((self, wire), Inl refusal)
          | (wire, Inr _) \<Rightarrow>
              (case validate_control_payload kind flags stream bytes of
                 Inl refusal \<Rightarrow> ((self, wire), Inl refusal)
               | Inr _ \<Rightarrow>
                   let self = (if kind \<in> {0, 1} \<and> flags AND 1 \<noteq> 0 then self\<lparr>stream_ended := True\<rparr> else self);
                       self = (if kind = 3 then self\<lparr>stream_ended := True, stream_reset := True\<rparr> else self)
                   in ((self, wire),
                       Inr (Some \<lparr>frame_kind = kind, frame_flags = flags, stream_identifier = stream,
                                  payload = bytes\<rparr>)))))"

text \<open>The encoded-header budget of HEADERS and CONTINUATION frames.\<close>

definition charge_headers :: "byte \<Rightarrow> byte \<Rightarrow> nat \<Rightarrow> (frame_reader, response_frame_refusal, unit) receiver" where
  "charge_headers kind flags remaining self =
     (if kind \<in> {1, 9}
      then (case checked_add (encoded_header_bytes self) (of_nat remaining) of
              None \<Rightarrow> (self\<lparr>header_limit_exceeded := True\<rparr>, Inl ResponseFrameRefusal)
            | Some bytes \<Rightarrow>
                if bytes \<le> maximum_header_bytes self
                then (self\<lparr>encoded_header_bytes := bytes, continuation := (flags AND 4 = 0)\<rparr>, Inr ())
                else (self\<lparr>header_limit_exceeded := True\<rparr>, Inl ResponseFrameRefusal))
      else (self, Inr ()))"

definition start_headers :: "byte \<Rightarrow> frame_reader \<Rightarrow> frame_reader" where
  "start_headers kind self =
     (if kind = 1
      then (if head_started self then self\<lparr>trailer_started := True, encoded_header_bytes := 0\<rparr> else self)
             \<lparr>head_started := True\<rparr>
      else self)"

text \<open>A frame once its head is read.\<close>

definition read_headed :: "byte \<Rightarrow> byte \<Rightarrow> u32 \<Rightarrow> nat \<Rightarrow>
    (frame_reader \<times> transport, response_frame_refusal, response_frame option) receiver" where
  "read_headed kind flags stream len = (\<lambda>(self, wire).
     if head_refused self kind flags stream len then ((self, wire), Inl ResponseFrameRefusal)
     else let self = self\<lparr>first_frame := False\<rparr> in
       if kind_refused self kind flags stream len then ((self, wire), Inl ResponseFrameRefusal)
       else let self = start_headers kind self in
         case (if kind = 1 then read_headers_prelude flags len wire else (wire, Inr (len, 0))) of
           (wire, Inl refusal) \<Rightarrow> ((self, wire), Inl refusal)
         | (wire, Inr (remaining, padding)) \<Rightarrow>
             (case charge_headers kind flags remaining self of
                (self, Inl refusal) \<Rightarrow> ((self, wire), Inl refusal)
              | (self, Inr _) \<Rightarrow> read_frame_payload kind flags stream remaining padding (self, wire)))"

definition read_frame :: "(frame_reader \<times> transport, response_frame_refusal, response_frame option) receiver" where
  "read_frame = (\<lambda>(self, wire).
     if incoming wire = []
     then if \<not> breaks wire \<and> head_started self \<and> stream_ended self \<and> \<not> continuation self \<and> \<not> stream_reset self
          then ((self, wire), Inr None) else ((self, wire), Inl ResponseFrameRefusal)
     else case read_exact 9 wire of
       (wire, Inl refusal) \<Rightarrow> ((self, wire), Inl refusal)
     | (wire, Inr head) \<Rightarrow>
         read_headed (head ! 3) (head ! 4) (be_word (drop 5 head) AND 0x7fffffff)
           (unat (head ! 0) * 65536 + unat (head ! 1) * 256 + unat (head ! 2)) (self, wire))"

definition read_next :: "(frame_reader \<times> transport, response_frame_refusal, frame_read) receiver" where
  "read_next = (\<lambda>(self, wire).
     if reader_poisoned self then ((self, wire), Inl ResponseFrameRefusal)
     else case read_frame (self\<lparr>reader_poisoned := True\<rparr>, wire) of
       ((self, wire), Inl refusal) \<Rightarrow> ((self, wire), Inl refusal)
     | ((self, wire), Inr (Some frame)) \<Rightarrow> ((self\<lparr>reader_poisoned := False\<rparr>, wire), Inr (Frame frame))
     | ((self, wire), Inr None) \<Rightarrow> ((self, wire), Inr End))"

definition read :: "(frame_reader \<times> transport, response_frame_refusal, response_frame) receiver" where
  "read state =
     (case read_next state of
        (state, Inl refusal) \<Rightarrow> (state, Inl refusal)
      | (state, Inr (Frame frame)) \<Rightarrow> (state, Inr frame)
      | (state, Inr End) \<Rightarrow> (state, Inl ResponseFrameRefusal))"

section \<open>What one accepted frame is\<close>

text \<open>How RFC 9113 section 4.1 spells a frame: nine octets of head, then as many octets as the head
  declares; in a HEADERS frame the header block stands between an optional padding length and
  priority and the padding itself.\<close>

definition wire_length :: "byte list \<Rightarrow> nat" where
  "wire_length head = unat (head ! 0) * 65536 + unat (head ! 1) * 256 + unat (head ! 2)"

definition frame_body :: "response_frame \<Rightarrow> byte list \<Rightarrow> bool" where
  "frame_body f body \<longleftrightarrow>
     (if frame_kind f = 1
      then \<exists>pad_length priority padding.
        body = pad_length @ priority @ payload f @ padding \<and>
        length pad_length = (if frame_flags f AND 8 \<noteq> 0 then 1 else 0) \<and>
        length priority = (if frame_flags f AND 0x20 \<noteq> 0 then 5 else 0) \<and>
        length padding = (if frame_flags f AND 8 \<noteq> 0 then unat (hd pad_length) else 0)
      else body = payload f)"

definition wire_frame :: "byte list \<Rightarrow> response_frame \<Rightarrow> bool" where
  "wire_frame octets f \<longleftrightarrow>
     (\<exists>head body. octets = head @ body \<and> length head = 9 \<and> length body = wire_length head \<and>
        frame_kind f = head ! 3 \<and> frame_flags f = head ! 4 \<and>
        stream_identifier f = be_word (drop 5 head) AND 0x7fffffff \<and> frame_body f body)"

definition ends_stream :: "response_frame \<Rightarrow> bool" where
  "ends_stream f \<longleftrightarrow> frame_kind f \<in> {0, 1} \<and> frame_flags f AND 1 \<noteq> 0 \<or> frame_kind f = 3"

definition opens_section :: "response_frame \<Rightarrow> bool" where
  "opens_section f \<longleftrightarrow> frame_kind f \<in> {1, 9} \<and> frame_flags f AND 4 = 0"

lemma read_exact_Inr:
  "read_exact n wire = (wire', Inr bytes) \<longleftrightarrow>
     length bytes = n \<and> incoming wire = bytes @ incoming wire' \<and> wire' = wire\<lparr>incoming := incoming wire'\<rparr>"
  by (auto simp: read_exact_def)

lemma headers_prelude_Inr:
  assumes "read_headers_prelude flags len wire = (wire', Inr (remaining, padding))"
  shows "\<exists>pad_length priority. incoming wire = pad_length @ priority @ incoming wire' \<and>
    length pad_length = (if flags AND 8 \<noteq> 0 then 1 else 0) \<and>
    length priority = (if flags AND 0x20 \<noteq> 0 then 5 else 0) \<and>
    padding = (if flags AND 8 \<noteq> 0 then unat (hd pad_length) else 0) \<and>
    len = length pad_length + length priority + remaining + padding"
  using assms
  by (auto simp: read_headers_prelude_def Let_def read_exact_Inr split: if_splits prod.splits sum.splits)
    (intro exI conjI, rule refl, simp_all)

lemma read_frame_payload_Inr:
  assumes "read_frame_payload kind flags stream remaining padding (self, wire) = ((self', wire'), Inr out)"
  shows "\<exists>bytes pad f. out = Some f \<and> incoming wire = bytes @ pad @ incoming wire' \<and>
    length bytes = remaining \<and> length pad = padding \<and>
    f = \<lparr>frame_kind = kind, frame_flags = flags, stream_identifier = stream, payload = bytes\<rparr> \<and>
    self' = self\<lparr>stream_ended := (stream_ended self \<or> ends_stream f),
                 stream_reset := (stream_reset self \<or> kind = 3)\<rparr> \<and>
    validate_control_payload kind flags stream bytes = Inr ()"
  using assms
  by (auto simp: read_frame_payload_def Let_def read_exact_Inr ends_stream_def
      split: if_splits prod.splits sum.splits)

text \<open>The budget of the section a frame belongs to, before the frame.\<close>

definition section_base :: "frame_reader \<Rightarrow> response_frame \<Rightarrow> u64" where
  "section_base self f =
     (if frame_kind f = 1 \<and> head_started self then 0 else encoded_header_bytes self)"

definition frame_effect :: "response_frame \<Rightarrow> u64 \<Rightarrow> frame_reader \<Rightarrow> frame_reader" where
  "frame_effect f bytes self =
     self\<lparr>first_frame := False,
          trailer_started := (trailer_started self \<or> frame_kind f = 1 \<and> head_started self),
          head_started := (head_started self \<or> frame_kind f = 1),
          encoded_header_bytes := bytes,
          continuation := (if frame_kind f \<in> {1, 9} then frame_flags f AND 4 = 0 else continuation self),
          stream_ended := (stream_ended self \<or> ends_stream f),
          stream_reset := (stream_reset self \<or> frame_kind f = 3)\<rparr>"

lemma charge_headers_Inr:
  assumes "charge_headers kind flags remaining self = (self', Inr x)" "remaining < 2 ^ 64"
  shows "\<exists>bytes. self' = self\<lparr>encoded_header_bytes := bytes,
      continuation := (if kind \<in> {1, 9} then flags AND 4 = 0 else continuation self)\<rparr> \<and>
    (if kind \<in> {1, 9} then unat bytes = unat (encoded_header_bytes self) + remaining \<and>
       bytes \<le> maximum_header_bytes self else bytes = encoded_header_bytes self)"
proof (cases "kind \<in> {1, 9}")
  case True
  have "unat (of_nat remaining :: u64) = remaining" using assms(2) by (simp add: unat_of_nat)
  then show ?thesis
    using assms(1) True by (auto simp: charge_headers_def split: option.splits if_splits dest!: checked_add_Some)
next
  case False
  then show ?thesis using assms(1)
    by (intro exI [of _ "encoded_header_bytes self"]) (auto simp: charge_headers_def)
qed

lemma kind_refused_first: "kind_refused (self\<lparr>first_frame := b\<rparr>) = kind_refused self"
  by (intro ext) (simp add: kind_refused_def)

lemma refused_poison:
  "kind_refused (self\<lparr>reader_poisoned := b\<rparr>) = kind_refused self"
  "head_refused (self\<lparr>reader_poisoned := b\<rparr>) = head_refused self"
  by (intro ext, simp add: kind_refused_def) (intro ext, simp add: head_refused_def)

lemma read_frame_body:
  assumes "(if kind = 1 then read_headers_prelude flags len wire1 else (wire1, Inr (len, 0))) =
      (wire2, Inr (remaining, padding))"
    and "incoming wire2 = payload f @ pad @ rest" "length (payload f) = remaining" "length pad = padding"
    and "frame_kind f = kind" "frame_flags f = flags"
  shows "\<exists>body. incoming wire1 = body @ rest \<and> length body = len \<and> frame_body f body \<and>
    remaining \<le> len \<and> (kind \<noteq> 1 \<longrightarrow> remaining = len)"
proof (cases "kind = 1")
  case True
  then obtain pl pr where p: "incoming wire1 = pl @ pr @ incoming wire2"
    "length pl = (if flags AND 8 \<noteq> 0 then 1 else 0)" "length pr = (if flags AND 0x20 \<noteq> 0 then 5 else 0)"
    "padding = (if flags AND 8 \<noteq> 0 then unat (hd pl) else 0)"
    "len = length pl + length pr + remaining + padding"
    using headers_prelude_Inr [of flags len wire1 wire2 remaining padding] assms(1) by auto
  have "frame_body f (pl @ pr @ payload f @ pad)"
  proof -
    have k: "frame_kind f = 1" using assms(5) True by simp
    show ?thesis
      unfolding frame_body_def if_P [OF k] using p(2-4) assms(4,6)
      by (intro exI [of _ pl] exI [of _ pr] exI [of _ pad]) simp
  qed
  then show ?thesis using p(1,5) assms True by (intro exI [of _ "pl @ pr @ payload f @ pad"]) simp
next
  case False
  then show ?thesis using assms by (auto simp: frame_body_def)
qed

lemma read_frame_Some:
  assumes "read_frame (self, wire) = ((self', wire'), Inr (Some f))"
  obtains octets len bytes where "incoming wire = octets @ incoming wire'" "wire_frame octets f"
    "\<not> head_refused self (frame_kind f) (frame_flags f) (stream_identifier f) len"
    "\<not> kind_refused self (frame_kind f) (frame_flags f) (stream_identifier f) len"
    "length octets = 9 + len" "length (payload f) \<le> len"
    "validate_control_payload (frame_kind f) (frame_flags f) (stream_identifier f) (payload f) = Inr ()"
    "frame_kind f \<noteq> 1 \<Longrightarrow> length (payload f) = len"
    "self' = frame_effect f bytes self"
    "if frame_kind f \<in> {1, 9}
     then unat bytes = unat (section_base self f) + length (payload f) \<and> bytes \<le> maximum_header_bytes self
     else bytes = encoded_header_bytes self"
proof -
  obtain wire1 head where h: "read_exact 9 wire = (wire1, Inr head)"
    using assms by (auto simp: read_frame_def split: if_splits prod.splits sum.splits)
  define len kind flags stream where "len = wire_length head" and "kind = head ! 3"
    and "flags = head ! 4" and "stream = (be_word (drop 5 head) :: u32) AND 0x7fffffff"
  note defs = len_def kind_def flags_def stream_def
  let ?s = "self\<lparr>first_frame := False\<rparr>"
  have head: "length head = 9" "incoming wire = head @ incoming wire1" using h by (auto simp: read_exact_Inr)
  have run: "read_headed kind flags stream len (self, wire1) = ((self', wire'), Inr (Some f))"
    using assms h unfolding defs wire_length_def by (auto simp: read_frame_def split: if_splits)
  have ok: "\<not> head_refused self kind flags stream len" "\<not> kind_refused ?s kind flags stream len"
    using run by (auto simp: read_headed_def Let_def split: if_splits)
  obtain wire2 remaining padding where p:
    "(if kind = 1 then read_headers_prelude flags len wire1 else (wire1, Inr (len, 0))) =
      (wire2, Inr (remaining, padding))"
    using run ok by (auto simp: read_headed_def Let_def split: prod.splits sum.splits)
  obtain s2 x where c: "charge_headers kind flags remaining (start_headers kind ?s) = (s2, Inr x)"
    using run ok p by (auto simp: read_headed_def Let_def split: prod.splits sum.splits)
  have pay: "read_frame_payload kind flags stream remaining padding (s2, wire2) = ((self', wire'), Inr (Some f))"
    using run ok p c by (simp add: read_headed_def Let_def)
  obtain pad where f: "f = \<lparr>frame_kind = kind, frame_flags = flags, stream_identifier = stream,
      payload = payload f\<rparr>" "incoming wire2 = payload f @ pad @ incoming wire'"
    "length (payload f) = remaining" "length pad = padding"
    "validate_control_payload kind flags stream (payload f) = Inr ()"
    and s': "self' = s2\<lparr>stream_ended := (stream_ended s2 \<or> ends_stream f),
      stream_reset := (stream_reset s2 \<or> kind = 3)\<rparr>"
    using read_frame_payload_Inr [OF pay] by auto
  have k: "frame_kind f = kind" "frame_flags f = flags" "stream_identifier f = stream"
    by (subst f(1), simp)+
  obtain body where body: "incoming wire1 = body @ incoming wire'" "length body = len" "frame_body f body"
    "remaining \<le> len" "kind \<noteq> 1 \<Longrightarrow> remaining = len"
    using read_frame_body [OF p f(2,3,4) k(1,2)] by blast
  have "remaining < 2 ^ 64" using body(4) ok(1) by (simp add: head_refused_def MAXIMUM_FRAME_BYTES_def)
  then obtain bytes where b: "s2 = (start_headers kind ?s)\<lparr>encoded_header_bytes := bytes,
      continuation := (if kind \<in> {1, 9} then flags AND 4 = 0 else continuation (start_headers kind ?s))\<rparr>"
    "if kind \<in> {1, 9} then unat bytes = unat (encoded_header_bytes (start_headers kind ?s)) + remaining \<and>
       bytes \<le> maximum_header_bytes (start_headers kind ?s)
     else bytes = encoded_header_bytes (start_headers kind ?s)"
    using charge_headers_Inr [OF c] by blast
  show thesis
  proof (rule that [of "head @ body" len bytes])
    show "wire_frame (head @ body) f"
      using head(1) body k by (auto simp: wire_frame_def defs)
    show "self' = frame_effect f bytes self"
      unfolding s' b(1) by (simp add: frame_effect_def start_headers_def k)
    show "\<not> kind_refused self (frame_kind f) (frame_flags f) (stream_identifier f) len"
      using ok(2) by (simp add: kind_refused_first k)
  qed (use head body ok k f b(2) in \<open>auto simp: start_headers_def section_base_def split: if_splits\<close>)
qed

section \<open>The frames of one response\<close>

text \<open>Successive reads that yield frames.\<close>

inductive reads :: "frame_reader \<times> transport \<Rightarrow> response_frame list \<Rightarrow> frame_reader \<times> transport \<Rightarrow> bool" where
  reads_none: "reads s [] s"
| reads_frame: "reads s fs t \<Longrightarrow> read_next t = (u, Inr (Frame f)) \<Longrightarrow> reads s (fs @ [f]) u"

definition headers_frames :: "response_frame list \<Rightarrow> nat" where
  "headers_frames fs = length (filter (\<lambda>f. frame_kind f = 1) fs)"

definition stream_over :: "response_frame list \<Rightarrow> bool" where
  "stream_over fs = list_ex ends_stream fs"

definition section_open :: "response_frame list \<Rightarrow> bool" where
  "section_open fs \<longleftrightarrow> fs \<noteq> [] \<and> opens_section (last fs)"

text \<open>Header octets since the last HEADERS frame.\<close>

definition section_bytes :: "response_frame list \<Rightarrow> nat" where
  "section_bytes = foldl (\<lambda>n f. if frame_kind f = 1 then length (payload f)
     else if frame_kind f = 9 then n + length (payload f) else n) 0"

text \<open>Which frame may follow which frames in a response (RFC 9113 sections 3.4, 4.3, 5.1, 6.2 and 8.1,
  for one request on stream 1 without server push).\<close>

definition legal_next :: "bool \<Rightarrow> response_frame list \<Rightarrow> response_frame \<Rightarrow> bool" where
  "legal_next trailers before f \<longleftrightarrow>
     (if before = [] then frame_kind f = 4 \<and> frame_flags f AND 1 = 0
      else if section_open before then frame_kind f = 9
      else frame_kind f \<notin> {5, 9}) \<and>
     (if frame_kind f = 0 then 0 < headers_frames before \<and> \<not> stream_over before
      else if frame_kind f = 1 then \<not> stream_over before \<and>
        (headers_frames before = 0 \<or> trailers \<and> headers_frames before = 1 \<and> frame_flags f AND 1 \<noteq> 0)
      else True) \<and>
     (if frame_kind f \<in> {0, 1, 2, 3, 9} then stream_identifier f = 1
      else if frame_kind f \<in> {4, 6, 7} then stream_identifier f = 0
      else if frame_kind f = 8 then stream_identifier f \<in> {0, 1} else True) \<and>
     length (payload f) \<le> 16384"

fun legal_from :: "bool \<Rightarrow> response_frame list \<Rightarrow> response_frame list \<Rightarrow> bool" where
  "legal_from trailers before [] = True"
| "legal_from trailers before (f # fs) =
     (legal_next trailers before f \<and> legal_from trailers (before @ [f]) fs)"

lemma legal_from_snoc:
  "legal_from trailers before (fs @ [f]) \<longleftrightarrow>
     legal_from trailers before fs \<and> legal_next trailers (before @ fs) f"
  by (induction fs arbitrary: before) auto

definition remembers :: "u64 \<Rightarrow> bool \<Rightarrow> response_frame list \<Rightarrow> frame_reader \<Rightarrow> bool" where
  "remembers maximum trailers fs r \<longleftrightarrow>
     maximum_header_bytes r = maximum \<and> allow_trailer_section r = trailers \<and> \<not> reader_poisoned r \<and>
     first_frame r = (fs = []) \<and> head_started r = (0 < headers_frames fs) \<and>
     trailer_started r = (1 < headers_frames fs) \<and> stream_ended r = stream_over fs \<and>
     stream_reset r = list_ex (\<lambda>f. frame_kind f = 3) fs \<and> continuation r = section_open fs \<and>
     unat (encoded_header_bytes r) = section_bytes fs \<and> section_bytes fs \<le> unat maximum \<and>
     (headers_frames fs = 0 \<longrightarrow> section_bytes fs = 0 \<and> \<not> section_open fs)"

lemma history_snoc:
  "headers_frames (fs @ [f]) = headers_frames fs + (if frame_kind f = 1 then 1 else 0)"
  "stream_over (fs @ [f]) \<longleftrightarrow> stream_over fs \<or> ends_stream f"
  "section_open (fs @ [f]) = opens_section f"
  "section_bytes (fs @ [f]) = (if frame_kind f = 1 then length (payload f)
     else if frame_kind f = 9 then section_bytes fs + length (payload f) else section_bytes fs)"
  by (auto simp: headers_frames_def stream_over_def section_open_def section_bytes_def)

lemma admitted_legal:
  assumes "remembers maximum trailers fs r"
    and "\<not> head_refused r (frame_kind f) (frame_flags f) (stream_identifier f) len"
    and "\<not> kind_refused r (frame_kind f) (frame_flags f) (stream_identifier f) len"
    and "length (payload f) \<le> len"
  shows "legal_next trailers fs f"
proof -
  have "section_open fs \<Longrightarrow> fs \<noteq> []" by (simp add: section_open_def)
  then show ?thesis
    using assms
    unfolding remembers_def head_refused_def kind_refused_def legal_next_def MAXIMUM_FRAME_BYTES_def
    by (auto split: if_splits)
qed

lemma effect_remembered:
  assumes r: "remembers maximum trailers fs r"
    and next_: "legal_next trailers fs f"
    and bytes: "if frame_kind f \<in> {1, 9}
      then unat bytes = unat (section_base r f) + length (payload f) \<and> bytes \<le> maximum_header_bytes r
      else bytes = encoded_header_bytes r"
  shows "remembers maximum trailers (fs @ [f]) (frame_effect f bytes r)"
proof -
  have nine: "frame_kind f = 9 \<Longrightarrow> section_open fs" "section_open fs \<Longrightarrow> frame_kind f = 9"
    using next_ unfolding legal_next_def section_open_def by (auto split: if_splits)
  consider (headers) "frame_kind f = 1" | (continuation) "frame_kind f = 9"
    | (other) "frame_kind f \<noteq> 1" "frame_kind f \<noteq> 9" by blast
  then show ?thesis
  proof cases
    case headers
    have "0 < headers_frames fs \<or> section_bytes fs = 0" using r by (auto simp: remembers_def)
    then show ?thesis
      using r bytes headers
      by (auto simp: remembers_def frame_effect_def history_snoc opens_section_def section_base_def
          word_le_nat_alt)
  next
    case continuation
    then show ?thesis
      using r bytes nine(1)
      by (auto simp: remembers_def frame_effect_def history_snoc opens_section_def section_base_def
          word_le_nat_alt)
  next
    case other
    then show ?thesis
      using r bytes nine(2)
      by (auto simp: remembers_def frame_effect_def history_snoc opens_section_def)
  qed
qed

lemma read_next_frame:
  assumes "read_next (r, wire) = ((r', wire'), Inr (Frame f))" "remembers maximum trailers fs r"
  shows "remembers maximum trailers (fs @ [f]) r' \<and> legal_next trailers fs f \<and>
    (\<exists>octets. wire_frame octets f \<and> incoming wire = octets @ incoming wire')"
proof -
  let ?r = "r\<lparr>reader_poisoned := True\<rparr>"
  obtain r1 where f: "read_frame (?r, wire) = ((r1, wire'), Inr (Some f))" "r' = r1\<lparr>reader_poisoned := False\<rparr>"
    using assms(1) by (auto simp: read_next_def split: if_splits prod.splits sum.splits option.splits)
  obtain octets len bytes where o: "incoming wire = octets @ incoming wire'" "wire_frame octets f"
    "\<not> head_refused ?r (frame_kind f) (frame_flags f) (stream_identifier f) len"
    "\<not> kind_refused ?r (frame_kind f) (frame_flags f) (stream_identifier f) len"
    "length (payload f) \<le> len" "r1 = frame_effect f bytes ?r"
    "if frame_kind f \<in> {1, 9}
     then unat bytes = unat (section_base ?r f) + length (payload f) \<and> bytes \<le> maximum_header_bytes ?r
     else bytes = encoded_header_bytes ?r"
    by (rule read_frame_Some [OF f(1)], rule that; assumption)
  have "head_refused ?r = head_refused r" "kind_refused ?r = kind_refused r" "section_base ?r f = section_base r f"
    by (simp_all add: refused_poison section_base_def)
  then have next_: "legal_next trailers fs f" using admitted_legal [OF assms(2)] o(3-5) by metis
  have "remembers maximum trailers (fs @ [f]) (frame_effect f bytes r)"
    using o(7) \<open>section_base ?r f = section_base r f\<close>
    by (intro effect_remembered [OF assms(2) next_]) (auto split: if_splits)
  moreover have "r' = frame_effect f bytes r"
    using f(2) o(6) assms(2) by (simp add: frame_effect_def remembers_def)
  ultimately show ?thesis using next_ o(1,2) by blast
qed

lemma read_next_end:
  assumes "read_next (r, wire) = (s, Inr End)" "remembers maximum trailers fs r"
  shows "incoming wire = [] \<and> 0 < headers_frames fs \<and> stream_over fs \<and> \<not> section_open fs \<and>
    list_all (\<lambda>f. frame_kind f \<noteq> 3) fs"
proof -
  have "\<exists>s. read_frame (r\<lparr>reader_poisoned := True\<rparr>, wire) = (s, Inr None)"
    using assms(1) by (auto simp: read_next_def split: if_splits prod.splits sum.splits option.splits)
  moreover have "(\<exists>s. read_frame_payload k fl st n p (q, w) = (s, Inr None)) \<longleftrightarrow> False" for k fl st n p q w
    using read_frame_payload_Inr [of k fl st n p q w _ _ None] by auto
  ultimately have "incoming wire = [] \<and> head_started r \<and> stream_ended r \<and> \<not> continuation r \<and> \<not> stream_reset r"
    by (auto simp: read_frame_def read_headed_def Let_def split: if_splits prod.splits sum.splits)
  then show ?thesis
    using assms(2) by (auto simp: remembers_def list_ex_iff list_all_iff)
qed

lemma reads_remembered:
  "reads s fs t \<Longrightarrow> s = (with_header_policy maximum trailers, wire) \<Longrightarrow>
     remembers maximum trailers fs (fst t) \<and> legal_from trailers [] fs \<and>
     (\<exists>octets. list_all2 wire_frame octets fs \<and> incoming wire = concat octets @ incoming (snd t))"
proof (induction rule: reads.induct)
  case (reads_none s)
  then show ?case
    by (simp add: remembers_def with_header_policy_def headers_frames_def stream_over_def section_open_def
        section_bytes_def)
next
  case (reads_frame s fs t u f)
  obtain octets where o: "list_all2 wire_frame octets fs" "incoming wire = concat octets @ incoming (snd t)"
    using reads_frame by blast
  obtain r w r' w' where tu: "t = (r, w)" "u = (r', w')" by (metis surj_pair)
  have "remembers maximum trailers fs r" using reads_frame tu by simp
  from read_next_frame [OF _ this, of w r' w' f] obtain os where
    n: "remembers maximum trailers (fs @ [f]) r'" "legal_next trailers fs f" "wire_frame os f"
      "incoming w = os @ incoming w'"
    using reads_frame tu by auto
  have "list_all2 wire_frame (octets @ [os]) (fs @ [f])"
    using o(1) n(3) by (simp add: list_all2_appendI)
  moreover have "incoming wire = concat (octets @ [os]) @ incoming w'" using o(2) n(4) tu by simp
  ultimately show ?case using n reads_frame tu by (auto simp: legal_from_snoc)
qed

text \<open>C24: The frame reader is a faithful gate.  However the transport behaves, the frames a fresh reader
  has yielded are spelled one after another by exactly the octets it consumed, each by a head and
  as many octets as that head declares; they follow one another legally (settings first, a header
  section not interrupted, data only between the head and the end of the stream, at most one
  trailer section and only where the route allows one, no server push, every frame on its stream
  and within 16384 octets); and the header section in progress is within the route's bound.\<close>

theorem response_frames_legal:
  assumes "reads (with_header_policy maximum trailers, wire) fs (reader, wire')"
  shows "legal_from trailers [] fs \<and> section_bytes fs \<le> unat maximum \<and>
    (\<exists>octets. list_all2 wire_frame octets fs \<and> incoming wire = concat octets @ incoming wire')"
  using reads_remembered [OF assms refl] by (auto simp: remembers_def)

text \<open>The reader reports the end of a response only when it is complete: the transport ended on a
  frame boundary, a head was read, its last section was closed, the stream was ended by the peer
  and never reset.  A second end is never reported.\<close>

lemma response_end_is_complete:
  assumes "reads (with_header_policy maximum trailers, wire) fs (reader, wire')"
    and "read_next (reader, wire') = (state, Inr End)"
  shows "incoming wire' = [] \<and> 0 < headers_frames fs \<and> \<not> section_open fs \<and>
    stream_over fs \<and> list_all (\<lambda>f. frame_kind f \<noteq> 3) fs \<and>
    (\<forall>wire. \<not> is_ok (snd (read_next (fst state, wire))))"
proof -
  have r: "remembers maximum trailers fs reader" using reads_remembered [OF assms(1) refl] by simp
  have "reader_poisoned (fst state)"
  proof -
    have "incoming wire' = []" using read_next_end [OF assms(2) r] by simp
    then show ?thesis
      using assms(2) by (auto simp: read_next_def read_frame_def split: if_splits)
  qed
  then show ?thesis
    using read_next_end [OF assms(2) r] by (auto simp: read_next_def split: prod.splits)
qed

definition example_wire :: transport where
  "example_wire = \<lparr>incoming = [0, 0, 0, 4, 0, 0, 0, 0, 0, 0, 0, 1, 1, 5, 0, 0, 0, 1, 0x88], breaks = False\<rparr>"

definition example_frames :: "response_frame list" where
  "example_frames =
     [\<lparr>frame_kind = 4, frame_flags = 0, stream_identifier = 0, payload = []\<rparr>,
      \<lparr>frame_kind = 1, frame_flags = 5, stream_identifier = 1, payload = [0x88]\<rparr>]"

definition example_reader :: frame_reader where
  "example_reader = (with_header_policy 100 False)
     \<lparr>first_frame := False, head_started := True, encoded_header_bytes := 1, stream_ended := True\<rparr>"

lemma chunks_exact_short: "length xs < n \<Longrightarrow> chunks_exact n xs = []"
  by (subst chunks_exact.simps) simp

lemma example_reads:
  "reads (with_header_policy 100 False, example_wire) example_frames
     (example_reader, \<lparr>incoming = [], breaks = False\<rparr>)"
proof -
  let ?w1 = "\<lparr>incoming = [0, 0, 1, 1, 5, 0, 0, 0, 1, 0x88], breaks = False\<rparr>"
  have a: "read_next (with_header_policy 100 False, example_wire) =
      (((with_header_policy 100 False)\<lparr>first_frame := False\<rparr>, ?w1), Inr (Frame (example_frames ! 0)))"
    by (simp add: read_next_def read_frame_def read_headed_def read_exact_def example_wire_def example_frames_def Let_def
        head_refused_def kind_refused_def start_headers_def charge_headers_def read_frame_payload_def be_word_def
        with_header_policy_def MAXIMUM_FRAME_BYTES_def validate_control_payload_def chunks_exact_short)
  have b: "read_next ((with_header_policy 100 False)\<lparr>first_frame := False\<rparr>, ?w1) =
      ((example_reader, \<lparr>incoming = [], breaks = False\<rparr>), Inr (Frame (example_frames ! 1)))"
    by (simp add: read_next_def read_frame_def read_headed_def read_exact_def example_frames_def Let_def example_reader_def
        head_refused_def kind_refused_def start_headers_def charge_headers_def read_frame_payload_def be_word_def
        with_header_policy_def MAXIMUM_FRAME_BYTES_def validate_control_payload_def read_headers_prelude_def
        checked_add_def)
  from reads_frame [OF reads_frame [OF reads_none a] b] show ?thesis
    by (simp add: example_frames_def)
qed

theorem response_frames_legal_witness:
  "legal_from False [] example_frames \<and> section_bytes example_frames \<le> unat (100 :: u64) \<and>
    (\<exists>octets. list_all2 wire_frame octets example_frames \<and> incoming example_wire = concat octets)"
  using response_frames_legal [OF example_reads] by simp

section \<open>A refused reader stays refused\<close>

lemma keeps_poison:
  "reader_poisoned (start_headers kind self) = reader_poisoned self"
  "charge_headers kind flags n self = (self', r) \<Longrightarrow> reader_poisoned self' = reader_poisoned self"
  "read_frame_payload kind flags stream n p (self, wire) = ((self', wire'), r') \<Longrightarrow>
     reader_poisoned self' = reader_poisoned self"
  by (auto simp: start_headers_def charge_headers_def read_frame_payload_def Let_def
      split: if_splits prod.splits sum.splits option.splits)

lemma read_headed_poison:
  assumes "read_headed kind flags stream len (self, wire) = ((self', wire'), r)"
  shows "reader_poisoned self' = reader_poisoned self"
proof -
  let ?s = "start_headers kind (self\<lparr>first_frame := False\<rparr>)"
  obtain w2 q where q: "(if kind = 1 then read_headers_prelude flags len wire else (wire, Inr (len, 0))) = (w2, q)"
    by fastforce
  show ?thesis
  proof (cases q)
    case (Inl e)
    then show ?thesis using assms q by (auto simp: read_headed_def Let_def keeps_poison(1) split: if_splits)
  next
    case (Inr rp)
    obtain remaining padding where rp: "rp = (remaining, padding)" by fastforce
    obtain s c where c: "charge_headers kind flags remaining ?s = (s, c)" by fastforce
    have "reader_poisoned s = reader_poisoned self"
      using keeps_poison(2) [OF c] by (simp add: keeps_poison(1))
    then show ?thesis
      using assms q Inr rp c keeps_poison(3) [of kind flags stream remaining padding s w2]
      by (cases c) (auto simp: read_headed_def Let_def split: if_splits)
  qed
qed

lemma read_frame_poison:
  "read_frame (self, wire) = ((self', wire'), r) \<Longrightarrow> reader_poisoned self' = reader_poisoned self"
  by (auto simp: read_frame_def dest: read_headed_poison split: if_splits prod.splits sum.splits)

interpretation frames: closing_decoder "\<lambda>_ :: unit. read_next" "\<lambda>(self, wire). reader_poisoned self"
proof
  fix s s' e
  assume "read_next s = (s', Inl e)"
  then show "case s' of (self, wire) \<Rightarrow> reader_poisoned self"
    by (auto simp: read_next_def dest: read_frame_poison
        split: prod.splits if_splits sum.splits option.splits)
next
  fix s s' and r :: "response_frame_refusal + frame_read"
  assume "case s of (self, wire) \<Rightarrow> reader_poisoned self" "read_next s = (s', r)"
  then show "\<not> is_ok r" by (auto simp: read_next_def split: prod.splits)
qed

end
