(* ===== verification/Http2_Flow.thy ===== *)
theory Http2_Flow
  imports Http2_Frames
begin

unbundle bit_operations_syntax

text \<open>
  The flow-control windows of \<open>slingshot-agent-connection/src/selected_author_http2_flow.rs\<close>.  Send
  windows are \<open>i64\<close> in the source and integers with the 64-bit range written out here; receive windows
  are 32-bit words.  The theorems keep a ledger beside the windows: what the peer granted and what
  was sent, what arrived and what was given back.
\<close>

definition INITIAL_WINDOW :: int where
  "INITIAL_WINDOW = 65535"

definition MAXIMUM_WINDOW :: int where
  "MAXIMUM_WINDOW = 0x7fffffff"

definition DATA_FRAME_BYTES :: nat where
  "DATA_FRAME_BYTES = 16384"

text \<open>Signed 64-bit results: \<open>checked_add\<close>, and the wrap of the plain operators.\<close>

definition i64_checked :: "int \<Rightarrow> int option" where
  "i64_checked v = (if - (2 ^ 63) \<le> v \<and> v < 2 ^ 63 then Some v else None)"

definition i64_wrap :: "int \<Rightarrow> int" where
  "i64_wrap v = (v + 2 ^ 63) mod 2 ^ 64 - 2 ^ 63"

lemma i64_wrap_id: "- (2 ^ 63) \<le> v \<Longrightarrow> v < 2 ^ 63 \<Longrightarrow> i64_wrap v = v"
  by (simp add: i64_wrap_def)

datatype flow_refusal = FlowRefusal

section \<open>Sending\<close>

record send_windows =
  send_connection :: int
  send_stream :: int
  initial_stream :: int

definition send_new :: send_windows where
  "send_new = \<lparr>send_connection = INITIAL_WINDOW, send_stream = INITIAL_WINDOW, initial_stream = INITIAL_WINDOW\<rparr>"

definition initial_stream_size :: "u32 \<Rightarrow> send_windows \<Rightarrow> flow_refusal + send_windows" where
  "initial_stream_size new_size self =
     (if uint new_size > MAXIMUM_WINDOW then Inl FlowRefusal
      else let change = i64_wrap (uint new_size - initial_stream self) in
        case i64_checked (send_stream self + change) of
          None \<Rightarrow> Inl FlowRefusal
        | Some stream \<Rightarrow>
            if stream \<le> MAXIMUM_WINDOW
            then Inr (self\<lparr>send_stream := stream, initial_stream := uint new_size\<rparr>) else Inl FlowRefusal)"

definition credited :: "int \<Rightarrow> u32 \<Rightarrow> flow_refusal + int" where
  "credited window increment =
     (case i64_checked (window + uint increment) of
        None \<Rightarrow> Inl FlowRefusal
      | Some next_window \<Rightarrow> if next_window \<le> MAXIMUM_WINDOW then Inr next_window else Inl FlowRefusal)"

definition credit :: "u32 \<Rightarrow> u32 \<Rightarrow> send_windows \<Rightarrow> flow_refusal + send_windows" where
  "credit stream increment self =
     (if increment = 0 \<or> uint increment > MAXIMUM_WINDOW then Inl FlowRefusal
      else if stream = 0
      then bindE (credited (send_connection self) increment) (\<lambda>w. Inr (self\<lparr>send_connection := w\<rparr>))
      else if stream = 1
      then bindE (credited (send_stream self) increment) (\<lambda>w. Inr (self\<lparr>send_stream := w\<rparr>))
      else Inl FlowRefusal)"

fun apply_settings :: "byte list list \<Rightarrow> send_windows \<Rightarrow> flow_refusal + send_windows" where
  "apply_settings [] self = Inr self"
| "apply_settings (setting # settings) self =
     (if (be_word (take 2 setting) :: u16) = 4
      then bindE (initial_stream_size (be_word (drop 2 setting)) self) (apply_settings settings)
      else apply_settings settings self)"

definition observe :: "response_frame \<Rightarrow> send_windows \<Rightarrow> flow_refusal + send_windows" where
  "observe frame self =
     (if frame_kind frame = 4 \<and> stream_identifier frame = 0 \<and> length (payload frame) mod 6 = 0 \<and>
         (frame_flags frame AND 1 = 0 \<or> payload frame = [])
      then apply_settings (chunks_exact 6 (payload frame)) self
      else if frame_kind frame = 8 \<and> length (payload frame) = 4
      then credit (stream_identifier frame) (be_word (payload frame) AND 0x7fffffff) self
      else Inl FlowRefusal)"

definition reserve :: "nat \<Rightarrow> send_windows \<Rightarrow> send_windows \<times> nat" where
  "reserve remaining self =
     (let allowance = nat (max (min (send_connection self) (send_stream self)) 0);
          count = min (min remaining DATA_FRAME_BYTES) allowance in
      (self\<lparr>send_connection := i64_wrap (send_connection self - int count),
            send_stream := i64_wrap (send_stream self - int count)\<rparr>, count))"

section \<open>Receiving\<close>

record receive_windows =
  receive_connection :: u32
  receive_stream :: u32

definition receive_new :: receive_windows where
  "receive_new = \<lparr>receive_connection = of_int INITIAL_WINDOW, receive_stream = of_int INITIAL_WINDOW\<rparr>"

text \<open>The permit is the number of octets it was charged for.\<close>

definition receive :: "u32 \<Rightarrow> (receive_windows, flow_refusal, u32) receiver" where
  "receive payload_bytes self =
     (case checked_sub (receive_connection self) payload_bytes of
        None \<Rightarrow> (self, Inl FlowRefusal)
      | Some connection \<Rightarrow>
          (case checked_sub (receive_stream self) payload_bytes of
             None \<Rightarrow> (self, Inl FlowRefusal)
           | Some stream \<Rightarrow>
               (self\<lparr>receive_connection := connection, receive_stream := stream\<rparr>, Inr payload_bytes)))"

definition receive_frame :: "response_frame \<Rightarrow> (receive_windows, flow_refusal, u32 \<times> byte list) receiver" where
  "receive_frame frame self =
     (if frame_kind frame \<noteq> 0 \<or> stream_identifier frame \<noteq> 1 then (self, Inl FlowRefusal)
      else case (if frame_flags frame AND 8 \<noteq> 0
                 then (case payload frame of
                         [] \<Rightarrow> Inl FlowRefusal
                       | pad # _ \<Rightarrow>
                           if unat pad \<le> length (payload frame) \<and> 1 \<le> length (payload frame) - unat pad
                           then Inr (drop 1 (take (length (payload frame) - unat pad) (payload frame)))
                           else Inl FlowRefusal)
                 else Inr (payload frame)) of
             Inl refusal \<Rightarrow> (self, Inl refusal)
           | Inr content \<Rightarrow>
               if \<not> length (payload frame) < 2 ^ 32 then (self, Inl FlowRefusal)
               else (case receive (of_nat (length (payload frame))) self of
                       (self, Inl refusal) \<Rightarrow> (self, Inl refusal)
                     | (self, Inr permit) \<Rightarrow> (self, Inr (permit, content))))"

text \<open>\<open>u32::to_be_bytes\<close>.\<close>

definition be_bytes :: "u32 \<Rightarrow> byte list" where
  "be_bytes w = [ucast (drop_bit 24 w), ucast (drop_bit 16 w), ucast (drop_bit 8 w), ucast w]"

definition release :: "u32 \<Rightarrow> receive_windows \<Rightarrow> receive_windows \<times> (byte list \<times> byte list) option" where
  "release permit self =
     (if permit = 0 then (self, None)
      else let frame = (\<lambda>stream. [0, 0, 4, 8, 0, 0, 0, 0, stream] @ be_bytes permit) in
        (self\<lparr>receive_connection := receive_connection self + permit,
              receive_stream := receive_stream self + permit\<rparr>, Some (frame 0, frame 1)))"

section \<open>The send ledger\<close>

datatype send_call = Observe response_frame | InitialStreamSize u32 | Credit u32 u32 | Reserve nat

definition kept :: "'w \<Rightarrow> flow_refusal + 'w \<Rightarrow> 'w" where
  "kept w r = (case r of Inl _ \<Rightarrow> w | Inr w' \<Rightarrow> w')"

text \<open>One call of the connection driver; a refused call leaves the windows as they were.\<close>

definition send_call :: "send_windows \<Rightarrow> send_call \<Rightarrow> send_windows" where
  "send_call w c =
     (case c of
        Observe frame \<Rightarrow> kept w (observe frame w)
      | InitialStreamSize n \<Rightarrow> kept w (initial_stream_size n w)
      | Credit stream n \<Rightarrow> kept w (credit stream n w)
      | Reserve n \<Rightarrow> fst (reserve n w))"

text \<open>What a call grants on the connection and on the stream, and what it sends.\<close>

record ledger =
  granted_connection :: int
  granted_stream :: int
  sent :: int

definition granted :: "u32 \<Rightarrow> u32 \<Rightarrow> bool \<Rightarrow> ledger \<Rightarrow> ledger" where
  "granted stream n accepted l =
     (if \<not> accepted then l
      else if stream = 0 then l\<lparr>granted_connection := granted_connection l + uint n\<rparr>
      else l\<lparr>granted_stream := granted_stream l + uint n\<rparr>)"

definition account :: "send_windows \<Rightarrow> ledger \<Rightarrow> send_call \<Rightarrow> ledger" where
  "account w l c =
     (case c of
        Observe frame \<Rightarrow>
          if frame_kind frame = 8
          then granted (stream_identifier frame) (be_word (payload frame) AND 0x7fffffff)
                 (is_ok (observe frame w)) l
          else l
      | InitialStreamSize n \<Rightarrow> l
      | Credit stream n \<Rightarrow> granted stream n (is_ok (credit stream n w)) l
      | Reserve n \<Rightarrow> l\<lparr>sent := sent l + int (snd (reserve n w))\<rparr>)"

definition send_run :: "send_call list \<Rightarrow> send_windows \<times> ledger" where
  "send_run calls = foldl (\<lambda>(w, l) c. (send_call w c, account w l c))
     (send_new, \<lparr>granted_connection = 0, granted_stream = 0, sent = 0\<rparr>) calls"

definition balanced :: "send_windows \<times> ledger \<Rightarrow> bool" where
  "balanced = (\<lambda>(w, l).
     send_connection w = INITIAL_WINDOW + granted_connection l - sent l \<and>
     send_stream w = initial_stream w + granted_stream l - sent l \<and>
     0 \<le> send_connection w \<and> send_connection w \<le> MAXIMUM_WINDOW \<and>
     initial_stream w - MAXIMUM_WINDOW \<le> send_stream w \<and> send_stream w \<le> MAXIMUM_WINDOW \<and>
     0 \<le> initial_stream w \<and> initial_stream w \<le> MAXIMUM_WINDOW)"

lemmas flow_consts = INITIAL_WINDOW_def MAXIMUM_WINDOW_def

lemma initial_stream_size_balanced:
  assumes "balanced (w, l)" "initial_stream_size n w = Inr w'"
  shows "balanced (w', l)"
proof -
  define m where "m = uint n"
  have n: "0 \<le> m" "m \<le> MAXIMUM_WINDOW"
    using assms(2) by (auto simp: initial_stream_size_def m_def split: if_splits)
  then have "i64_wrap (m - initial_stream w) = m - initial_stream w"
    using assms(1) by (intro i64_wrap_id) (auto simp: balanced_def flow_consts)
  then show ?thesis
    using assms n by (auto simp: initial_stream_size_def i64_checked_def balanced_def Let_def
        simp flip: m_def split: if_splits option.splits)
qed

lemma apply_settings_balanced:
  "balanced (w, l) \<Longrightarrow> apply_settings ss w = Inr w' \<Longrightarrow> balanced (w', l)"
proof (induction ss arbitrary: w)
  case (Cons s ss)
  show ?case
  proof (cases "(be_word (take 2 s) :: u16) = 4")
    case True
    then obtain v where "initial_stream_size (be_word (drop 2 s)) w = Inr v" "apply_settings ss v = Inr w'"
      using Cons.prems(2) by (auto simp: bindE_eq_Inr)
    then show ?thesis using Cons.IH initial_stream_size_balanced [OF Cons.prems(1)] by blast
  next
    case False
    then show ?thesis using Cons by simp
  qed
qed simp

lemma credit_balanced:
  assumes "balanced (w, l)" "credit stream n w = Inr w'"
  shows "balanced (w', granted stream n True l)"
proof -
  define m where "m = uint n"
  have "0 \<le> m" by (simp add: m_def)
  then show ?thesis
    using assms by (auto simp: credit_def credited_def granted_def i64_checked_def balanced_def bindE_eq_Inr
        simp flip: m_def split: if_splits option.splits)
qed

lemma allowance_bound:
  assumes "count = min k (nat (max (min a b) 0))"
  shows "count = 0 \<or> int count \<le> a \<and> int count \<le> b"
proof (cases "0 < min a b")
  case True
  then have "nat (max (min a b) 0) = nat (min a b)" by simp
  then have "int count \<le> min a b" using assms True by linarith
  then show ?thesis by simp
next
  case False
  then have "max (min a b) 0 = 0" by linarith
  then have "nat (max (min a b) 0) = 0" by simp
  then show ?thesis using assms by simp
qed

lemma reserve_exact:
  assumes "balanced (w, l)" "reserve n w = (w', count)"
  shows "w' = w\<lparr>send_connection := send_connection w - int count, send_stream := send_stream w - int count\<rparr>"
    and "count = min (min n DATA_FRAME_BYTES) (nat (max (min (send_connection w) (send_stream w)) 0))"
    and "count = 0 \<or> int count \<le> send_connection w \<and> int count \<le> send_stream w"
proof -
  show c: "count = min (min n DATA_FRAME_BYTES) (nat (max (min (send_connection w) (send_stream w)) 0))"
    using assms(2) unfolding reserve_def Let_def by (metis prod.inject)
  then show small: "count = 0 \<or> int count \<le> send_connection w \<and> int count \<le> send_stream w"
    by (rule allowance_bound)
  have b: "0 \<le> send_connection w" "send_connection w \<le> 0x7fffffff" "- 0x7fffffff \<le> send_stream w"
    "send_stream w \<le> 0x7fffffff"
    using assms(1) by (simp_all add: balanced_def flow_consts)
  have "- (2 ^ 63) \<le> send_connection w - int count" "send_connection w - int count < 2 ^ 63"
    "- (2 ^ 63) \<le> send_stream w - int count" "send_stream w - int count < 2 ^ 63"
    using b small by auto
  then have "i64_wrap (send_connection w - int count) = send_connection w - int count"
    "i64_wrap (send_stream w - int count) = send_stream w - int count"
    by (simp_all only: i64_wrap_id)
  then show "w' = w\<lparr>send_connection := send_connection w - int count, send_stream := send_stream w - int count\<rparr>"
    using assms(2) unfolding reserve_def Let_def c [symmetric] by (metis prod.inject)
qed

lemma reserve_balanced:
  assumes "balanced (w, l)" "reserve n w = (w', count)"
  shows "balanced (w', l\<lparr>sent := sent l + int count\<rparr>)"
proof -
  have "0 \<le> send_connection w - int count" "initial_stream w - MAXIMUM_WINDOW \<le> send_stream w - int count"
    using assms(1) reserve_exact(3) [OF assms] unfolding balanced_def by auto
  then show ?thesis
    using assms(1) unfolding reserve_exact(1) [OF assms] by (simp add: balanced_def)
qed

lemma send_step_balanced:
  assumes "balanced (w, l)"
  shows "balanced (send_call w c, account w l c)"
proof (cases c)
  case (Observe f)
  show ?thesis
  proof (cases "observe f w")
    case (Inl e)
    then show ?thesis using Observe assms by (simp add: send_call_def account_def kept_def granted_def)
  next
    case (Inr w')
    have "balanced (w', if frame_kind f = 8
        then granted (stream_identifier f) (be_word (payload f) AND 0x7fffffff) True l else l)"
    proof (cases "frame_kind f = 8")
      case True
      then have "credit (stream_identifier f) (be_word (payload f) AND 0x7fffffff) w = Inr w'"
        using Inr by (simp add: observe_def split: if_splits)
      then show ?thesis using credit_balanced [OF assms] True by simp
    next
      case False
      then have "apply_settings (chunks_exact 6 (payload f)) w = Inr w'"
        using Inr by (simp add: observe_def split: if_splits)
      then show ?thesis using apply_settings_balanced [OF assms] False by simp
    qed
    then show ?thesis using Observe Inr by (auto simp: send_call_def account_def kept_def split: if_splits)
  qed
next
  case (InitialStreamSize n)
  then show ?thesis
    using assms initial_stream_size_balanced [of w l n]
    by (cases "initial_stream_size n w") (auto simp: send_call_def account_def kept_def)
next
  case (Credit stream n)
  then show ?thesis
    using assms credit_balanced [of w l stream n]
    by (cases "credit stream n w") (auto simp: send_call_def account_def kept_def granted_def)
next
  case (Reserve n)
  then show ?thesis
    using reserve_balanced [OF assms, of n] by (auto simp: send_call_def account_def split: prod.splits)
qed

lemma send_run_balanced: "balanced (send_run calls)"
proof (induction calls rule: rev_induct)
  case Nil
  then show ?case by (simp add: send_run_def send_new_def balanced_def flow_consts)
next
  case (snoc c calls)
  then show ?case
    using send_step_balanced by (auto simp: send_run_def split: prod.splits)
qed

text \<open>C25: The sender never overdraws a window.  After any calls, however refused or interleaved, the
  connection window is what the protocol started with plus what the peer granted less what was
  reserved, and never negative; the stream window is the peer's current initial size plus the
  stream's grants less what was reserved, so that only a settings change can make it negative;
  both stay below the protocol maximum, far from the 64-bit range; and the next reservation takes
  no more than was asked, than one frame holds and than both windows have left.\<close>

theorem send_ledger_balanced:
  "let (w, l) = send_run calls; (w', count) = reserve n w in
     send_connection w = INITIAL_WINDOW + granted_connection l - sent l \<and>
     send_stream w = initial_stream w + granted_stream l - sent l \<and>
     0 \<le> send_connection w \<and> send_connection w \<le> MAXIMUM_WINDOW \<and>
     - MAXIMUM_WINDOW \<le> send_stream w \<and> send_stream w \<le> MAXIMUM_WINDOW \<and>
     count = min (min n DATA_FRAME_BYTES) (nat (max (min (send_connection w) (send_stream w)) 0)) \<and>
     (count = 0 \<or> 0 \<le> send_connection w' \<and> 0 \<le> send_stream w')"
proof -
  obtain w l where r: "send_run calls = (w, l)" by fastforce
  obtain w' count where c: "reserve n w = (w', count)" by fastforce
  have b: "balanced (w, l)" using send_run_balanced [of calls] r by simp
  have later: "count = 0 \<or> 0 \<le> send_connection w' \<and> 0 \<le> send_stream w'"
    using reserve_exact(3) [OF b c] unfolding reserve_exact(1) [OF b c] by auto
  have "send_connection w = INITIAL_WINDOW + granted_connection l - sent l"
    "send_stream w = initial_stream w + granted_stream l - sent l"
    "0 \<le> send_connection w" "send_connection w \<le> MAXIMUM_WINDOW"
    "- MAXIMUM_WINDOW \<le> send_stream w" "send_stream w \<le> MAXIMUM_WINDOW"
    using b unfolding balanced_def by auto
  then show ?thesis
    using later reserve_exact(2) [OF b c] unfolding r c Let_def prod.case by blast
qed

section \<open>The receive ledger\<close>

text \<open>A DATA frame whose permit is released after its content was processed, or dropped.\<close>

datatype receive_call = Consumed response_frame | Dropped response_frame

definition receive_call :: "receive_windows \<Rightarrow> receive_call \<Rightarrow> receive_windows" where
  "receive_call w c =
     (case c of
        Consumed f \<Rightarrow> (case receive_frame f w of (w', Inl _) \<Rightarrow> w' | (w', Inr (permit, _)) \<Rightarrow> fst (release permit w'))
      | Dropped f \<Rightarrow> fst (receive_frame f w))"

text \<open>A data frame of the response stream with room for the padding it announces, and the content
  between the padding length and the padding.\<close>

definition padded :: "response_frame \<Rightarrow> bool" where
  "padded f \<longleftrightarrow> frame_flags f AND 8 \<noteq> 0"

definition legal_data :: "response_frame \<Rightarrow> bool" where
  "legal_data f \<longleftrightarrow> frame_kind f = 0 \<and> stream_identifier f = 1 \<and>
     (if padded f then payload f \<noteq> [] \<and> unat (hd (payload f)) < length (payload f) else True)"

definition frame_content :: "response_frame \<Rightarrow> byte list" where
  "frame_content f =
     (if padded f then take (length (payload f) - 1 - unat (hd (payload f))) (tl (payload f))
      else payload f)"

text \<open>The abstract ledger, one number: a frame that fits costs its whole payload, padding included,
  and a frame that was consumed gives it back.\<close>

definition credit_after :: "nat \<Rightarrow> receive_call \<Rightarrow> nat" where
  "credit_after room c =
     (case c of
        Consumed f \<Rightarrow> room
      | Dropped f \<Rightarrow>
          if legal_data f \<and> length (payload f) \<le> room then room - length (payload f) else room)"

definition windows_of :: "nat \<Rightarrow> receive_windows" where
  "windows_of room = \<lparr>receive_connection = of_nat room, receive_stream = of_nat room\<rparr>"

definition holds_credit :: "receive_windows \<Rightarrow> nat \<Rightarrow> bool" where
  "holds_credit w room \<longleftrightarrow> room \<le> 65535 \<and> w = windows_of room"

lemma receive_exact:
  assumes "holds_credit w room" "length bs < 2 ^ 32"
  shows "receive (of_nat (length bs)) w =
    (if length bs \<le> room
     then (windows_of (room - length bs), Inr (of_nat (length bs)))
     else (w, Inl FlowRefusal))"
proof -
  have "unat (of_nat (length bs) :: u32) = length bs" "unat (of_nat room :: u32) = room"
    using assms by (simp_all add: holds_credit_def unat_of_nat)
  then have "checked_sub (of_nat room :: u32) (of_nat (length bs)) =
      (if length bs \<le> room then Some (of_nat (room - length bs)) else None)"
    by (auto simp: checked_sub_def word_le_nat_alt)
  then show ?thesis using assms(1) by (simp add: receive_def holds_credit_def windows_of_def)
qed

lemma receive_frame_exact:
  assumes "holds_credit w room"
  shows "receive_frame f w =
    (if legal_data f \<and> length (payload f) \<le> room
     then (windows_of (room - length (payload f)),
           Inr (of_nat (length (payload f)), frame_content f))
     else (w, Inl FlowRefusal))"
proof -
  have small: "length (payload f) < 2 ^ 32" if "length (payload f) \<le> room"
    using that assms by (simp add: holds_credit_def)
  have pad: "n \<le> m \<and> 1 \<le> m - n \<longleftrightarrow> n < m" for n m :: nat by auto
  have content: "drop (Suc 0) (take (Suc (length bs) - n) (b # bs)) = take (length bs - n) bs"
    if "n < Suc (length bs)" for n b and bs :: "byte list"
    using that by (simp add: Suc_diff_le less_Suc_eq_le)
  show ?thesis
    using receive_exact [OF assms, of "payload f"] small
    by (cases "payload f") (auto simp: receive_frame_def legal_data_def frame_content_def padded_def pad content)
qed

lemma holds_credit_charged: "holds_credit w room \<Longrightarrow> holds_credit (windows_of (room - n)) (room - n)"
  by (auto simp: holds_credit_def)

lemma release_restores:
  assumes "holds_credit w room" "n \<le> room"
  shows "fst (release (of_nat n) (windows_of (room - n))) = w"
proof -
  have "of_nat (room - n) + of_nat n = (of_nat room :: u32)"
    using assms(2) by (metis le_add_diff_inverse2 of_nat_add)
  then show ?thesis using assms(1) by (auto simp: release_def holds_credit_def windows_of_def simp del: of_nat_diff)
qed

lemma receive_call_credit:
  "holds_credit w room \<Longrightarrow> holds_credit (receive_call w c) (credit_after room c)"
  by (cases c) (auto simp: receive_call_def credit_after_def receive_frame_exact release_restores
      holds_credit_charged)

lemma receive_history_credit:
  "holds_credit (foldl receive_call receive_new calls) (foldl credit_after 65535 calls)"
  by (induction calls rule: rev_induct)
    (simp_all add: receive_call_credit, simp add: holds_credit_def windows_of_def receive_new_def INITIAL_WINDOW_def)

text \<open>C26: Receiving neither creates nor loses credit.  After any data frames, consumed or dropped,
  refused or not, both receive windows hold the window the product advertised less the whole payloads -
  padding length and padding included - of the legal frames that fitted and whose permit was dropped;
  a consumer that cancels never returns credit, and one that finishes returns what its frame was
  charged.  The next frame is refused exactly when it is not a data frame of the response stream, its
  padding does not fit it, or its payload overruns the credit left; otherwise its permit is for the
  whole payload, and its consumer is given the payload without the padding.\<close>

theorem receive_credit_conserved:
  "let w = foldl receive_call receive_new calls; room = foldl credit_after 65535 calls in
     unat (receive_connection w) = room \<and> unat (receive_stream w) = room \<and>
     snd (receive_frame f w) =
       (if legal_data f \<and> length (payload f) \<le> room
        then Inr (of_nat (length (payload f)), frame_content f) else Inl FlowRefusal)"
proof -
  let ?w = "foldl receive_call receive_new calls" and ?room = "foldl credit_after 65535 calls"
  have h: "holds_credit ?w ?room" by (rule receive_history_credit)
  then have "unat (of_nat ?room :: u32) = ?room" by (simp add: holds_credit_def unat_of_nat)
  then have "unat (receive_connection ?w) = ?room" "unat (receive_stream ?w) = ?room"
    using h by (simp_all add: holds_credit_def windows_of_def)
  then show ?thesis using receive_frame_exact [OF h, of f] by (simp add: Let_def)
qed

section \<open>Frames from the reader\<close>

lemma reads_validated:
  "reads s fs t \<Longrightarrow> f \<in> set fs \<Longrightarrow>
     validate_control_payload (frame_kind f) (frame_flags f) (stream_identifier f) (payload f) = Inr () \<and>
     length (payload f) \<le> 16384"
proof (induction rule: reads.induct)
  case (reads_frame s fs t u g)
  obtain r w r' w' where tu: "t = (r, w)" "u = (r', w')" by (metis surj_pair)
  obtain r1 where g: "read_frame (r\<lparr>reader_poisoned := True\<rparr>, w) = ((r1, w'), Inr (Some g))"
    using reads_frame(2) tu by (auto simp: read_next_def split: if_splits prod.splits sum.splits option.splits)
  have "validate_control_payload (frame_kind g) (frame_flags g) (stream_identifier g) (payload g) = Inr () \<and>
      length (payload g) \<le> 16384"
    by (rule read_frame_Some [OF g]) (auto simp: head_refused_def MAXIMUM_FRAME_BYTES_def)
  then show ?case using reads_frame by auto
qed simp

lemma legal_from_stream:
  "legal_from trailers before fs \<Longrightarrow> f \<in> set fs \<Longrightarrow> frame_kind f = 0 \<Longrightarrow> stream_identifier f = 1"
  by (induction fs arbitrary: before) (auto simp: legal_next_def split: if_splits)

lemma receive_frame_charged:
  assumes "receive_frame f w = (w', Inr (permit, content))"
  shows "unat (receive_connection w) = unat (receive_connection w') + length (payload f)"
    "unat (receive_stream w) = unat (receive_stream w') + length (payload f)"
proof -
  have len: "length (payload f) < 2 ^ 32"
    and r: "receive (of_nat (length (payload f))) w = (w', Inr permit)"
    using assms by (auto simp: receive_frame_def split: if_splits sum.splits prod.splits list.splits)
  have "unat (of_nat (length (payload f)) :: u32) = length (payload f)" using len by (simp add: unat_of_nat)
  then show "unat (receive_connection w) = unat (receive_connection w') + length (payload f)"
    "unat (receive_stream w) = unat (receive_stream w') + length (payload f)"
    using r by (auto simp: receive_def split: option.splits dest!: checked_sub_Some)
qed

text \<open>Every data frame that passes the frame gate is received, unless it overruns a window.  Its
  whole payload is charged to both windows, and the content handed to the consumer is the payload
  without the padding length and the padding it announces.\<close>

lemma data_frames_are_received:
  assumes frames: "reads (with_header_policy maximum trailers, wire) fs (reader, wire')"
    and data: "f \<in> set fs" "frame_kind f = 0"
    and room: "length (payload f) \<le> unat (receive_connection w)" "length (payload f) \<le> unat (receive_stream w)"
  shows "\<exists>w' permit content. receive_frame f w = (w', Inr (permit, content)) \<and>
    unat (receive_connection w) = unat (receive_connection w') + length (payload f) \<and>
    unat (receive_stream w) = unat (receive_stream w') + length (payload f) \<and>
    (if frame_flags f AND 8 \<noteq> 0
     then \<exists>pad padding. payload f = pad # content @ padding \<and> length padding = unat pad
     else payload f = content)"
proof -
  let ?n = "length (payload f)"
  have v: "validate_control_payload 0 (frame_flags f) (stream_identifier f) (payload f) = Inr ()" "?n \<le> 16384"
    using reads_validated [OF frames data(1)] data(2) by simp_all
  have s: "stream_identifier f = 1"
    using legal_from_stream [of trailers "[]" fs f] reads_remembered [OF frames refl] data by simp
  have "unat (of_nat ?n :: u32) = ?n" using v(2) by (simp add: unat_of_nat)
  then obtain w' where w': "receive (of_nat ?n) w = (w', Inr (of_nat ?n))"
    using room by (auto simp: receive_def checked_sub_def word_le_nat_alt)
  define content where "content = (if frame_flags f AND 8 \<noteq> 0
    then drop 1 (take (?n - unat (hd (payload f))) (payload f)) else payload f)"
  have pad: "payload f \<noteq> []" "unat (hd (payload f)) < ?n" if "frame_flags f AND 8 \<noteq> 0"
    using v(1) that by (auto simp: validate_control_payload_def split: list.splits if_splits)
  have ok: "receive_frame f w = (w', Inr (of_nat ?n, content))"
  proof (cases "frame_flags f AND 8 \<noteq> 0")
    case True
    then show ?thesis
      using data(2) s v(2) w' pad [OF True]
      by (cases "payload f") (simp_all add: receive_frame_def content_def Suc_le_eq)
  next
    case False
    then show ?thesis using data(2) s v(2) w' by (simp add: receive_frame_def content_def)
  qed
  have "\<exists>pad padding. payload f = pad # content @ padding \<and> length padding = unat pad"
    if flag: "frame_flags f AND 8 \<noteq> 0"
  proof -
    obtain p rest where p: "payload f = p # rest" using pad [OF flag] by (cases "payload f") auto
    then have "unat p \<le> length rest" using pad [OF flag] by simp
    then show ?thesis
      using p flag
      by (intro exI [of _ p] exI [of _ "drop (length rest - unat p) rest"])
        (simp add: content_def Suc_diff_le)
  qed
  then show ?thesis using ok receive_frame_charged [OF ok] by (auto simp: content_def)
qed

definition data_wire :: transport where
  "data_wire = \<lparr>incoming = [0, 0, 0, 4, 0, 0, 0, 0, 0, 0, 0, 1, 1, 4, 0, 0, 0, 1, 0x88,
     0, 0, 3, 0, 9, 0, 0, 0, 1, 1, 0x41, 0], breaks = False\<rparr>"

definition data_frame :: response_frame where
  "data_frame = \<lparr>frame_kind = 0, frame_flags = 9, stream_identifier = 1, payload = [1, 0x41, 0]\<rparr>"

lemma data_reads:
  "\<exists>fs reader wire'. reads (with_header_policy 100 False, data_wire) fs (reader, wire') \<and> data_frame \<in> set fs"
proof -
  let ?r0 = "with_header_policy 100 False"
  let ?r1 = "?r0\<lparr>first_frame := False\<rparr>"
  let ?r2 = "?r1\<lparr>head_started := True, encoded_header_bytes := 1\<rparr>"
  let ?w1 = "\<lparr>incoming = drop 9 (incoming data_wire), breaks = False\<rparr>"
  let ?w2 = "\<lparr>incoming = drop 19 (incoming data_wire), breaks = False\<rparr>"
  let ?f1 = "\<lparr>frame_kind = 4, frame_flags = 0, stream_identifier = 0, payload = []\<rparr>"
  let ?f2 = "\<lparr>frame_kind = 1, frame_flags = 4, stream_identifier = 1, payload = [0x88]\<rparr>"
  note defs = read_next_def read_frame_def read_headed_def read_exact_def data_wire_def Let_def
    head_refused_def kind_refused_def start_headers_def charge_headers_def read_frame_payload_def be_word_def
    with_header_policy_def MAXIMUM_FRAME_BYTES_def validate_control_payload_def chunks_exact_short
    read_headers_prelude_def checked_add_def data_frame_def
  have a: "read_next (?r0, data_wire) = ((?r1, ?w1), Inr (Frame ?f1))" by (simp add: defs)
  have b: "read_next (?r1, ?w1) = ((?r2, ?w2), Inr (Frame ?f2))" by (simp add: defs)
  have c: "read_next (?r2, ?w2) =
      ((?r2\<lparr>stream_ended := True\<rparr>, \<lparr>incoming = [], breaks = False\<rparr>), Inr (Frame data_frame))"
    by (simp add: defs)
  from reads_frame [OF reads_frame [OF reads_frame [OF reads_none a] b] c] show ?thesis by fastforce
qed

end
