(* ===== verification/Rust_Text.thy ===== *)
theory Rust_Text
  imports Slingshot_Prelude "HOL-Library.List_Lexorder"
begin

text \<open>
  The parts of the standard library's text handling that the program relies on: validation of UTF-8 by
  \<open>std::str::from_utf8\<close>, whose error holds the length of the valid prefix and of the offending
  sequence, the characters of a string, their UTF-8 encoding and the properties of characters that the
  program asks for.  A \<open>str\<close> is the list of its characters, a character its Unicode scalar value.
\<close>

unbundle bit_operations_syntax

section \<open>Validation of UTF-8\<close>

record utf8_failure =
  valid_up_to :: nat
  error_len :: "nat option"

definition continuation :: "byte \<Rightarrow> bool" where
  "continuation b = (b AND 0xC0 = 0x80)"

text \<open>The second octets that may follow the first octet of a sequence of three or four: no overlong
  encoding, no surrogate, nothing beyond the last code point.\<close>

definition second_of_three :: "byte \<Rightarrow> byte \<Rightarrow> bool" where
  "second_of_three first second =
     (if first = 0xE0 then 0xA0 \<le> second \<and> second \<le> 0xBF
      else if first = 0xED then 0x80 \<le> second \<and> second \<le> 0x9F
      else 0x80 \<le> second \<and> second \<le> 0xBF)"

definition second_of_four :: "byte \<Rightarrow> byte \<Rightarrow> bool" where
  "second_of_four first second =
     (if first = 0xF0 then 0x90 \<le> second \<and> second \<le> 0xBF
      else if first = 0xF4 then 0x80 \<le> second \<and> second \<le> 0x8F
      else 0x80 \<le> second \<and> second \<le> 0xBF)"

fun tail_octets :: "nat \<Rightarrow> nat \<Rightarrow> byte list \<Rightarrow> (nat option + byte list)" where
  "tail_octets seen 0 bytes = Inr bytes"
| "tail_octets seen (Suc n) [] = Inl None"
| "tail_octets seen (Suc n) (b # bytes) =
     (if continuation b then tail_octets (Suc seen) n bytes else Inl (Some seen))"

definition utf8_sequence :: "byte \<Rightarrow> byte list \<Rightarrow> (nat option + byte list)" where
  "utf8_sequence b bytes =
     (if b < 0x80 then Inr bytes
      else if 0xC2 \<le> b \<and> b \<le> 0xDF then tail_octets 1 1 bytes
      else if 0xE0 \<le> b \<and> b \<le> 0xEF
      then (case bytes of
              [] \<Rightarrow> Inl None
            | c # cs \<Rightarrow> if second_of_three b c then tail_octets 2 1 cs else Inl (Some 1))
      else if 0xF0 \<le> b \<and> b \<le> 0xF4
      then (case bytes of
              [] \<Rightarrow> Inl None
            | c # cs \<Rightarrow> if second_of_four b c then tail_octets 2 2 cs else Inl (Some 1))
      else Inl (Some 1))"

lemma tail_octets_length: "tail_octets seen n bytes = Inr rest \<Longrightarrow> length rest \<le> length bytes"
  by (induction seen n bytes rule: tail_octets.induct) (auto split: if_splits)

lemma utf8_sequence_length: "utf8_sequence b bytes = Inr rest \<Longrightarrow> length rest \<le> length bytes"
  by (auto simp: utf8_sequence_def split: if_splits list.splits dest!: tail_octets_length)

function from_utf8 :: "nat \<Rightarrow> byte list \<Rightarrow> utf8_failure + unit" where
  "from_utf8 position [] = Inr ()"
| "from_utf8 position (b # bytes) =
     (case utf8_sequence b bytes of
        Inl offending \<Rightarrow> Inl \<lparr>valid_up_to = position, error_len = offending\<rparr>
      | Inr rest \<Rightarrow> from_utf8 (position + Suc (length bytes - length rest)) rest)"
  by pat_completeness auto

termination
  by (relation "measure (length \<circ> snd)") (auto dest: utf8_sequence_length)


section \<open>Characters\<close>

type_synonym uchar = "32 word"
type_synonym str = "uchar list"

definition text_of :: "string \<Rightarrow> str" where
  "text_of s = map of_char s"

definition encode_utf8 :: "uchar \<Rightarrow> byte list" where
  "encode_utf8 c =
     (if c < 0x80 then [ucast c]
      else if c < 0x800 then [0xC0 OR ucast (drop_bit 6 c), 0x80 OR ucast (c AND 0x3F)]
      else if c < 0x10000
      then [0xE0 OR ucast (drop_bit 12 c), 0x80 OR ucast (drop_bit 6 c AND 0x3F), 0x80 OR ucast (c AND 0x3F)]
      else [0xF0 OR ucast (drop_bit 18 c), 0x80 OR ucast (drop_bit 12 c AND 0x3F),
            0x80 OR ucast (drop_bit 6 c AND 0x3F), 0x80 OR ucast (c AND 0x3F)])"

definition as_bytes :: "str \<Rightarrow> byte list" where
  "as_bytes s = concat (map encode_utf8 s)"

text \<open>The characters of valid UTF-8.\<close>

fun utf8_chars :: "byte list \<Rightarrow> str" where
  "utf8_chars [] = []"
| "utf8_chars (b # bytes) =
     (if b < 0x80 then ucast b # utf8_chars bytes
      else case bytes of
        [] \<Rightarrow> []
      | c # cs \<Rightarrow>
          if b < 0xE0
          then (push_bit 6 (ucast (b AND 0x1F)) OR ucast (c AND 0x3F)) # utf8_chars cs
          else (case cs of
              [] \<Rightarrow> []
            | d # ds \<Rightarrow>
                if b < 0xF0
                then (push_bit 12 (ucast (b AND 0x0F)) OR push_bit 6 (ucast (c AND 0x3F)) OR ucast (d AND 0x3F))
                  # utf8_chars ds
                else (case ds of
                    [] \<Rightarrow> []
                  | e # es \<Rightarrow>
                      (push_bit 18 (ucast (b AND 0x07)) OR push_bit 12 (ucast (c AND 0x3F)) OR
                       push_bit 6 (ucast (d AND 0x3F)) OR ucast (e AND 0x3F)) # utf8_chars es)))"

text \<open>\<open>char::is_control\<close> and \<open>char::is_whitespace\<close>.\<close>

definition is_control :: "uchar \<Rightarrow> bool" where
  "is_control c \<longleftrightarrow> c < 0x20 \<or> 0x7F \<le> c \<and> c \<le> 0x9F"

definition is_whitespace :: "uchar \<Rightarrow> bool" where
  "is_whitespace c \<longleftrightarrow> 0x09 \<le> c \<and> c \<le> 0x0D \<or> c = 0x20 \<or> c = 0x85 \<or> c = 0xA0 \<or> c = 0x1680 \<or>
     0x2000 \<le> c \<and> c \<le> 0x200A \<or> c = 0x2028 \<or> c = 0x2029 \<or> c = 0x202F \<or> c = 0x205F \<or> c = 0x3000"

definition trim :: "str \<Rightarrow> str" where
  "trim s = rev (dropWhile is_whitespace (rev (dropWhile is_whitespace s)))"

end
