(* ===== verification/Local_Framing.thy ===== *)
theory Local_Framing
  imports Rust_Text
begin

text \<open>
  The framing of the local control path, \<open>crates/slingshot-local-protocol/src/framing.rs\<close>: how a
  payload is rendered behind its length, the structural scan that bounds a payload before it is
  parsed, and the reader that assembles frames from whatever pieces a transport delivers.

  A payload must be UTF-8, which is checked as the standard library does it.  The theorems show that
  framed payloads survive any fragmentation, that the reader loses no byte and refuses for good, and
  what the structural scan measures on the text of a document.
\<close>

unbundle bit_operations_syntax

section \<open>Frames\<close>

record framing_limits =
  length_prefix_bytes :: u32
  maximum_payload_bytes :: u32
  maximum_nesting_depth :: u32
  maximum_collection_items :: u32

definition INSIGNIFICANT_BYTES :: "byte list" where
  "INSIGNIFICANT_BYTES = [0x20, 0x09, 0x0D, 0x0A]"

definition ESCAPE_SEQUENCE_LENGTH :: nat where
  "ESCAPE_SEQUENCE_LENGTH = 2"

datatype framing_failure =
    PayloadTooLarge u64 u64
  | NotText utf8_failure
  | NestingTooDeep u32 u32
  | CollectionTooLarge u32 u32
  | Unfinished
  | NoValue
  | TransportFailed string
  | ReaderPoisoned
  | TrailingValue

datatype frame_progress =
    Empty
  | PartialPrefix nat
  | PartialPayload nat nat
  | Complete nat

definition prefix_length :: "framing_limits \<Rightarrow> nat" where
  "prefix_length limits = unat (length_prefix_bytes limits)"

definition declared_length :: "byte list \<Rightarrow> u64" where
  "declared_length bytes = foldl (\<lambda>accumulated byte. push_bit 8 accumulated OR ucast byte) 0 bytes"

definition progress :: "framing_limits \<Rightarrow> byte list \<Rightarrow> framing_failure + frame_progress" where
  "progress limits buffer =
     (if buffer = [] then Inr Empty
      else if length buffer < prefix_length limits then Inr (PartialPrefix (length buffer))
      else let declared = declared_length (take (prefix_length limits) buffer) in
        if declared > ucast (maximum_payload_bytes limits)
        then Inl (PayloadTooLarge declared (ucast (maximum_payload_bytes limits)))
        else let declared = unat declared; received = length buffer - prefix_length limits in
          if received < declared then Inr (PartialPayload received declared)
          else Inr (Complete declared))"

text \<open>One octet of the prefix.  The shift is a \<open>u32\<close> product, and shifting a \<open>u64\<close> uses its low six
  bits in a release build.\<close>

definition prefix_octet :: "u64 \<Rightarrow> nat \<Rightarrow> byte" where
  "prefix_octet declared position =
     (let position' = if position < 2 ^ 32 then of_nat position else 0;
          shift = (position' :: u32) * 8
      in ucast (drop_bit (unat shift mod 64) declared AND 0xFF))"

definition render :: "framing_limits \<Rightarrow> byte list \<Rightarrow> framing_failure + byte list" where
  "render limits payload =
     (let limit = ucast (maximum_payload_bytes limits);
          declared = of_nat (length payload) :: u64
      in if declared > limit then Inl (PayloadTooLarge declared limit)
         else Inr (map (prefix_octet declared) (rev [0..<prefix_length limits]) @ payload))"

section \<open>The structural scan\<close>

record container =
  container_items :: u32
  entry_started :: bool

text \<open>The containers currently open, innermost first.\<close>

record structural_scan =
  open_containers :: "container list"
  scan_depth :: u32
  scan_items :: u32
  scan_completed :: bool
  top_level_started :: bool

definition scan_default :: structural_scan where
  "scan_default = \<lparr>open_containers = [], scan_depth = 0, scan_items = 0, scan_completed = False,
     top_level_started = False\<rparr>"

definition starts_second_value :: "structural_scan \<Rightarrow> byte \<Rightarrow> framing_failure + unit" where
  "starts_second_value scan byte =
     (let significant = byte \<notin> set INSIGNIFICANT_BYTES in
      if scan_completed scan \<and> open_containers scan = [] \<and> significant
      then Inl TrailingValue else Inr ())"

definition mark_entry :: "structural_scan \<Rightarrow> structural_scan" where
  "mark_entry self =
     (case open_containers self of
        [] \<Rightarrow> self\<lparr>top_level_started := True\<rparr>
      | container # outer \<Rightarrow>
          self\<lparr>open_containers := container\<lparr>entry_started := True\<rparr> # outer\<rparr>)"

definition separate_entry :: "structural_scan \<Rightarrow> structural_scan" where
  "separate_entry self =
     (case open_containers self of
        [] \<Rightarrow> self
      | container # outer \<Rightarrow>
          self\<lparr>open_containers :=
            container\<lparr>container_items := container_items container + 1, entry_started := False\<rparr> # outer\<rparr>)"

definition open_container :: "structural_scan \<Rightarrow> structural_scan" where
  "open_container self =
     (let self = mark_entry self;
          self = self\<lparr>open_containers :=
            \<lparr>container_items = 0, entry_started = False\<rparr> # open_containers self\<rparr>
      in self\<lparr>scan_depth := max (scan_depth self) (of_nat (length (open_containers self)))\<rparr>)"

definition close_container :: "structural_scan \<Rightarrow> framing_failure + structural_scan" where
  "close_container self =
     (case open_containers self of
        [] \<Rightarrow> Inl TrailingValue
      | closed # outer \<Rightarrow>
          let items = container_items closed + (if entry_started closed then 1 else 0);
              self = self\<lparr>open_containers := outer, scan_items := max (scan_items self) items\<rparr>
          in Inr (if outer = [] then self\<lparr>scan_completed := True\<rparr> else self))"

text \<open>The rest of a payload after the opening quote of a string: what follows its closing quote.\<close>

fun skip_string :: "byte list \<Rightarrow> framing_failure + byte list" where
  "skip_string [] = Inl Unfinished"
| "skip_string (b # bytes) =
     (if b = 0x5C then skip_string (drop (ESCAPE_SEQUENCE_LENGTH - 1) bytes)
      else if b = 0x22 then Inr bytes
      else skip_string bytes)"

lemma skip_string_length: "skip_string bytes = Inr rest \<Longrightarrow> length rest < length bytes"
proof (induction bytes rule: skip_string.induct)
  case (2 b bytes)
  then show ?case by (cases "b = 0x5C"; cases "b = 0x22") (force simp: ESCAPE_SEQUENCE_LENGTH_def)+
qed simp

text \<open>What one octet that opens no string does to the scan.\<close>

definition scan_octet :: "byte \<Rightarrow> structural_scan \<Rightarrow> framing_failure + structural_scan" where
  "scan_octet byte scan =
     (if byte = 0x7B \<or> byte = 0x5B then Inr (open_container scan)
      else if byte = 0x7D \<or> byte = 0x5D then close_container scan
      else if byte = 0x2C \<or> byte = 0x3A then Inr (separate_entry scan)
      else if byte \<in> set INSIGNIFICANT_BYTES then Inr scan
      else Inr (mark_entry scan))"

function scan_from :: "structural_scan \<Rightarrow> byte list \<Rightarrow> framing_failure + structural_scan" where
  "scan_from scan [] = (if open_containers scan = [] then Inr scan else Inl Unfinished)"
| "scan_from scan (byte # bytes) =
     bindE (starts_second_value scan byte) (\<lambda>_.
       if byte = 0x22
       then let scan = mark_entry scan in
         case skip_string bytes of
           Inl failure \<Rightarrow> Inl failure
         | Inr rest \<Rightarrow>
             scan_from (if open_containers scan = [] then scan\<lparr>scan_completed := True\<rparr> else scan) rest
       else (case scan_octet byte scan of
               Inl failure \<Rightarrow> Inl failure
             | Inr scan \<Rightarrow> scan_from scan bytes))"
  by pat_completeness auto

termination
  by (relation "measure (length \<circ> snd)") (auto dest: skip_string_length)

definition scan :: "byte list \<Rightarrow> framing_failure + structural_scan" where
  "scan payload = scan_from scan_default payload"

definition read_payload :: "framing_limits \<Rightarrow> byte list \<Rightarrow> framing_failure + byte list" where
  "read_payload limits payload =
     (if length payload > unat (maximum_payload_bytes limits)
      then Inl (PayloadTooLarge (of_nat (length payload)) (ucast (maximum_payload_bytes limits)))
      else (case from_utf8 0 payload of
              Inl failure \<Rightarrow> Inl (NotText failure)
            | Inr _ \<Rightarrow>
                bindE (scan payload) (\<lambda>measured.
                  if \<not> scan_completed measured \<and> \<not> top_level_started measured then Inl NoValue
                  else if scan_depth measured > maximum_nesting_depth limits
                  then Inl (NestingTooDeep (scan_depth measured) (maximum_nesting_depth limits))
                  else if scan_items measured > maximum_collection_items limits
                  then Inl (CollectionTooLarge (scan_items measured) (maximum_collection_items limits))
                  else Inr payload)))"

section \<open>The reader of one connection\<close>

record local_frame_reader =
  buffer :: "byte list"
  reader_poisoned :: bool

definition local_reader_new :: local_frame_reader where
  "local_reader_new = \<lparr>buffer = [], reader_poisoned = False\<rparr>"

definition checked_progress :: "framing_limits \<Rightarrow> local_frame_reader \<Rightarrow> framing_failure + frame_progress" where
  "checked_progress limits self = progress limits (buffer self)"

definition absorb ::
  "framing_limits \<Rightarrow> byte list \<Rightarrow> (local_frame_reader, framing_failure, byte list option) receiver" where
  "absorb limits received self =
     (if reader_poisoned self then (self, Inl ReaderPoisoned)
      else let self = self\<lparr>buffer := buffer self @ received\<rparr> in
        case checked_progress limits self of
          Inl failure \<Rightarrow> (self\<lparr>reader_poisoned := True\<rparr>, Inl failure)
        | Inr (Complete declared) \<Rightarrow>
            let payload = take declared (drop (prefix_length limits) (buffer self)) in
            (case read_payload limits payload of
               Inl failure \<Rightarrow> (self\<lparr>reader_poisoned := True\<rparr>, Inl failure)
             | Inr _ \<Rightarrow>
                 (self\<lparr>buffer := drop (prefix_length limits + declared) (buffer self)\<rparr>,
                  Inr (Some payload)))
        | Inr _ \<Rightarrow> (self, Inr None))"

definition reader_progress :: "framing_limits \<Rightarrow> local_frame_reader \<Rightarrow> framing_failure + frame_progress" where
  "reader_progress limits self =
     (if reader_poisoned self then Inl ReaderPoisoned else checked_progress limits self)"

definition buffered :: "local_frame_reader \<Rightarrow> nat" where
  "buffered self = length (buffer self)"

text \<open>A sink is what \<open>std::io::Write\<close> promises: writing and flushing, each of which can fail with a
  message.\<close>

definition write_frame ::
  "(byte list \<Rightarrow> ('w, string, unit) receiver) \<Rightarrow> ('w, string, unit) receiver \<Rightarrow>
     framing_limits \<Rightarrow> byte list \<Rightarrow> ('w, framing_failure, unit) receiver" where
  "write_frame write_all flush limits payload sink =
     (case render limits payload of
        Inl failure \<Rightarrow> (sink, Inl failure)
      | Inr frame \<Rightarrow>
          (case write_all frame sink of
             (sink, Inl failure) \<Rightarrow> (sink, Inl (TransportFailed failure))
           | (sink, Inr _) \<Rightarrow>
               (case flush sink of
                  (sink, Inl failure) \<Rightarrow> (sink, Inl (TransportFailed failure))
                | (sink, Inr _) \<Rightarrow> (sink, Inr ()))))"

section \<open>The prefix\<close>

lemma unat_prefix_shift: "n < 8 \<Longrightarrow> unat ((of_nat n :: u32) * 8) mod 64 = 8 * n"
  by (simp add: unat_word_ariths unat_of_nat)

lemma and_mask_octet: "(w::u64) AND 0xFF = take_bit 8 w"
  by (simp add: take_bit_eq_mask mask_eq_exp_minus_1)

lemma unat_ucast_u32 [simp]: "unat (ucast (w::u32) :: u64) = unat w"
  using unsigned_less [of w, where 'a = nat] by (simp add: unsigned_ucast_eq take_bit_nat_eq_self)

lemma prefix_octet_value: "n < 8 \<Longrightarrow> ucast (prefix_octet d n) = take_bit 8 (drop_bit (8 * n) d)"
  by (simp add: prefix_octet_def unat_prefix_shift and_mask_octet) (rule bit_eqI, auto simp: bit_simps)

lemma declared_length_prefix:
  "n \<le> 8 \<Longrightarrow> declared_length (map (prefix_octet d) (rev [0..<n])) = take_bit (8 * n) d"
proof -
  have "foldl (\<lambda>accumulated byte. push_bit 8 accumulated OR ucast byte) a (map (prefix_octet d) (rev [0..<n]))
     = push_bit (8 * n) a OR take_bit (8 * n) d" if "n \<le> 8" for a
    using that
  proof (induction n arbitrary: a)
    case (Suc n)
    then have "push_bit (8 * n) (push_bit 8 a OR ucast (prefix_octet d n)) OR take_bit (8 * n) d =
        push_bit (8 * Suc n) a OR take_bit (8 * Suc n) d"
      by (intro bit_eqI) (auto simp: prefix_octet_value bit_simps add.commute)
    with Suc show ?case by simp
  qed simp
  then show "n \<le> 8 \<Longrightarrow> ?thesis" by (simp add: declared_length_def)
qed

section \<open>What a reader takes from its bytes\<close>

text \<open>A whole frame and its payload, which the structural scan has accepted.\<close>

definition framed :: "framing_limits \<Rightarrow> byte list \<Rightarrow> byte list \<Rightarrow> bool" where
  "framed limits frame payload \<longleftrightarrow>
     prefix_length limits \<le> length frame \<and> payload = drop (prefix_length limits) frame \<and>
     unat (declared_length (take (prefix_length limits) frame)) = length payload \<and>
     is_ok (read_payload limits payload)"

text \<open>The payloads among the answers of a reader.\<close>

definition yielded :: "'a option list \<Rightarrow> 'a list" where
  "yielded answers = map the (filter (\<lambda>a. a \<noteq> None) answers)"

lemma yielded_simps [simp]:
  "yielded [] = []" "yielded (None # as) = yielded as" "yielded (Some p # as) = p # yielded as"
  "yielded (as @ bs) = yielded as @ yielded bs"
  by (simp_all add: yielded_def)

lemma progress_Complete:
  "progress limits bytes = Inr (Complete declared) \<longleftrightarrow>
     bytes \<noteq> [] \<and> prefix_length limits \<le> length bytes \<and>
     declared = unat (declared_length (take (prefix_length limits) bytes)) \<and>
     declared \<le> unat (maximum_payload_bytes limits) \<and> prefix_length limits + declared \<le> length bytes"
  by (auto simp: progress_def Let_def word_less_nat_alt)

lemma absorb_cases:
  assumes "absorb limits received self = (self', r)"
  obtains (poisoned) "reader_poisoned self" "self' = self" "r = Inl ReaderPoisoned"
    | (refused) failure where "\<not> reader_poisoned self" "r = Inl failure"
        "self' = self\<lparr>buffer := buffer self @ received, reader_poisoned := True\<rparr>"
    | (waiting) "\<not> reader_poisoned self" "r = Inr None" "self' = self\<lparr>buffer := buffer self @ received\<rparr>"
        "\<And>n. progress limits (buffer self @ received) \<noteq> Inr (Complete n)" "is_ok (progress limits (buffer self @ received))"
    | (taken) frame payload where "\<not> reader_poisoned self" "r = Inr (Some payload)"
        "buffer self @ received = frame @ buffer self'" "framed limits frame payload"
        "\<not> reader_poisoned self'"
proof (cases "reader_poisoned self")
  case True
  then have "self' = self" "r = Inl ReaderPoisoned" using assms by (auto simp: absorb_def)
  then show ?thesis by (rule poisoned [OF True])
next
  case False
  let ?b = "buffer self @ received"
  show ?thesis
  proof (cases "progress limits ?b")
    case (Inl failure)
    then show ?thesis using assms False refused by (auto simp: absorb_def checked_progress_def)
  next
    case (Inr p)
    show ?thesis
    proof (cases "\<exists>declared. p = Complete declared")
      case no: False
      then show ?thesis using assms False Inr waiting
        by (cases p) (auto simp: absorb_def checked_progress_def)
    next
      case True
      then obtain declared where p: "p = Complete declared" by blast
      let ?n = "prefix_length limits"
      let ?payload = "take declared (drop ?n ?b)"
      show ?thesis
      proof (cases "read_payload limits ?payload")
        case (Inl failure)
        then show ?thesis using assms False Inr p refused by (auto simp: absorb_def checked_progress_def)
      next
        case ok: (Inr accepted)
        have c: "?n + declared \<le> length ?b" "declared = unat (declared_length (take ?n ?b))"
          using Inr [unfolded p progress_Complete] by blast+
        have "framed limits (take (?n + declared) ?b) ?payload"
          unfolding framed_def drop_take take_take using ok c by (simp only: length_take length_drop min_def) auto
        moreover have "?b = take (?n + declared) ?b @ drop (?n + declared) ?b"
          by (simp only: append_take_drop_id)
        moreover have "buffer self' = drop (?n + declared) ?b" "r = Inr (Some ?payload)" "\<not> reader_poisoned self'"
          using assms False Inr p ok by (auto simp: absorb_def checked_progress_def)
        ultimately show ?thesis using False taken by metis
      qed
    qed
  qed
qed

interpretation frame_stream: closing_decoder "absorb limits" reader_poisoned for limits
proof
  fix limits i s s' e
  assume "absorb limits i s = (s', Inl e)"
  then show "reader_poisoned s'" by (cases rule: absorb_cases) auto
next
  fix limits i s s' r
  assume "reader_poisoned s" "absorb limits i s = (s', r)"
  then show "\<not> is_ok r" by (auto simp: absorb_def)
qed

lemma absorb_run_conserves:
  assumes "feed (absorb limits) self chunks = (self', Inr answers)" and "\<not> reader_poisoned self"
  shows "\<exists>frames. buffer self @ concat chunks = concat frames @ buffer self' \<and>
    list_all2 (framed limits) frames (yielded answers) \<and> \<not> reader_poisoned self'"
  using assms
proof (induction chunks arbitrary: self answers)
  case Nil
  then show ?case by (intro exI [of _ "[]"]) simp
next
  case (Cons c cs)
  obtain t a as where a: "absorb limits c self = (t, Inr a)" and f: "feed (absorb limits) t cs = (self', Inr as)"
    and as: "answers = a # as"
    using Cons.prems(1) by (auto split: prod.splits sum.splits)
  from a show ?case
  proof (cases rule: absorb_cases)
    case waiting
    then show ?thesis using Cons.IH [OF f] as by simp
  next
    case (taken frame payload)
    obtain frames where "buffer t @ concat cs = concat frames @ buffer self'"
      "list_all2 (framed limits) frames (yielded as)" "\<not> reader_poisoned self'"
      using Cons.IH [OF f] taken by blast
    moreover have "buffer self @ concat (c # cs) = frame @ buffer t @ concat cs"
      using taken(3) by (simp flip: append_assoc)
    ultimately show ?thesis using taken as by (intro exI [of _ "frame # frames"]) simp
  qed simp_all
qed

text \<open>A frame as \<open>render\<close> lays it out, and limits under which every payload length fits its prefix.\<close>

definition frame_of :: "framing_limits \<Rightarrow> byte list \<Rightarrow> byte list" where
  "frame_of limits payload =
     map (prefix_octet (of_nat (length payload))) (rev [0..<prefix_length limits]) @ payload"

definition prefix_fits :: "framing_limits \<Rightarrow> bool" where
  "prefix_fits limits \<longleftrightarrow> 0 < prefix_length limits \<and> prefix_length limits \<le> 8 \<and>
     unat (maximum_payload_bytes limits) < 2 ^ (8 * prefix_length limits)"

lemma read_payload_length:
  "is_ok (read_payload limits payload) \<Longrightarrow> length payload \<le> unat (maximum_payload_bytes limits)"
  by (auto simp: read_payload_def split: if_splits)

lemma unat_length_u64:
  assumes "length payload \<le> unat (w::u32)" shows "unat (of_nat (length payload) :: u64) = length payload"
proof -
  have "unat w < 2 ^ 32" using unsigned_less [of w, where 'a = nat] by simp
  moreover have "(2::nat) ^ 32 < 2 ^ 64" by simp
  ultimately have "length payload < 2 ^ 64" using assms by linarith
  then show ?thesis by (simp add: unat_of_nat)
qed

lemma render_frame_of:
  assumes "length payload \<le> unat (maximum_payload_bytes limits)"
  shows "render limits payload = Inr (frame_of limits payload)"
  using unat_length_u64 [OF assms] assms by (simp add: render_def frame_of_def Let_def word_less_nat_alt)

lemma declared_length_frame_of:
  assumes "prefix_fits limits" and "length payload \<le> unat (maximum_payload_bytes limits)"
  shows "unat (declared_length (take (prefix_length limits) (frame_of limits payload @ more_bytes))) = length payload"
proof -
  let ?n = "prefix_length limits"
  have "take ?n (frame_of limits payload @ more_bytes) = map (prefix_octet (of_nat (length payload))) (rev [0..<?n])"
    by (simp add: frame_of_def)
  moreover have "length payload < 2 ^ (8 * ?n)" using assms by (auto simp: prefix_fits_def)
  ultimately show ?thesis
    using assms unat_length_u64 [OF assms(2)]
    by (simp add: declared_length_prefix prefix_fits_def unsigned_take_bit_eq take_bit_nat_eq_self)
qed

lemma length_frame_of [simp]: "length (frame_of limits payload) = prefix_length limits + length payload"
  by (simp add: frame_of_def)

lemma frame_of_parts [simp]:
  "drop (prefix_length limits) (frame_of limits payload) = payload"
  "drop (prefix_length limits + length payload) (frame_of limits payload @ rest) = rest"
  by (simp_all add: frame_of_def)

text \<open>A reader whose bytes are the beginning of rendered frames either waits for more or yields the
  payload of the first frame, and waits only when the first frame is not all there.\<close>

lemma absorb_rendered:
  assumes fits: "prefix_fits limits"
    and good: "list_all (\<lambda>p. is_ok (read_payload limits p)) payloads"
    and bytes: "buffer self @ received @ later = concat (map (frame_of limits) payloads)"
    and live: "\<not> reader_poisoned self"
  obtains (waiting) "absorb limits received self = (self\<lparr>buffer := buffer self @ received\<rparr>, Inr None)"
      "later = [] \<Longrightarrow> payloads = []"
    | (taken) p ps b where "payloads = p # ps"
      "absorb limits received self = (self\<lparr>buffer := b\<rparr>, Inr (Some p))"
      "b @ later = concat (map (frame_of limits) ps)"
proof (cases payloads)
  case Nil
  then have "buffer self = []" "received = []" using bytes by simp_all
  then have "absorb limits received self = (self\<lparr>buffer := buffer self @ received\<rparr>, Inr None)"
    using live by (simp add: absorb_def checked_progress_def progress_def)
  then show ?thesis using waiting Nil by blast
next
  case (Cons p ps)
  let ?n = "prefix_length limits"
  let ?b = "buffer self @ received"
  let ?f = "frame_of limits p"
  have len: "length p \<le> unat (maximum_payload_bytes limits)" and okp: "is_ok (read_payload limits p)"
    using good Cons by (auto intro: read_payload_length)
  have whole: "?b @ later = ?f @ concat (map (frame_of limits) ps)" using bytes Cons by simp
  have declared: "unat (declared_length (take ?n ?b)) = length p" if "?n \<le> length ?b"
  proof -
    have "take ?n ?b = take ?n (?b @ later)" using that by simp
    then show ?thesis using declared_length_frame_of [OF fits len] whole by metis
  qed
  show ?thesis
  proof (cases "length ?f \<le> length ?b")
    case True
    then obtain b where b: "?b = ?f @ b" "b @ later = concat (map (frame_of limits) ps)"
      using append_longer [OF whole] by blast
    have "progress limits ?b = Inr (Complete (length p))"
      unfolding progress_Complete using True declared len fits by (auto simp: prefix_fits_def)
    moreover obtain accepted where "read_payload limits p = Inr accepted" using okp by (auto simp: is_ok_iff)
    ultimately have "absorb limits received self = (self\<lparr>buffer := b\<rparr>, Inr (Some p))"
      using live by (simp add: absorb_def checked_progress_def b(1) Let_def)
    then show ?thesis using taken Cons b(2) by blast
  next
    case False
    have "\<And>k. progress limits ?b \<noteq> Inr (Complete k)"
      using False declared by (auto simp: progress_Complete)
    moreover have "is_ok (progress limits ?b)"
      using declared len by (auto simp: progress_def Let_def word_less_nat_alt)
    ultimately obtain g where "progress limits ?b = Inr g" "\<And>k. g \<noteq> Complete k" by (auto simp: is_ok_iff)
    then have "absorb limits received self = (self\<lparr>buffer := ?b\<rparr>, Inr None)"
      using live by (cases g) (auto simp: absorb_def checked_progress_def)
    moreover have "later \<noteq> []" using False arg_cong [OF whole, of length] by auto
    ultimately show ?thesis using waiting by blast
  qed
qed

lemma absorb_chunks_rendered:
  assumes "prefix_fits limits" and "list_all (\<lambda>p. is_ok (read_payload limits p)) payloads"
    and "buffer self @ concat chunks = concat (map (frame_of limits) payloads)"
    and "\<not> reader_poisoned self"
  shows "\<exists>answers ps. feed (absorb limits) self chunks =
      (self\<lparr>buffer := concat (map (frame_of limits) ps)\<rparr>, Inr answers) \<and> payloads = yielded answers @ ps"
  using assms
proof (induction chunks arbitrary: self payloads)
  case Nil
  then show ?case by (intro exI [of _ "[]"] exI [of _ payloads]) (cases self, simp)
next
  case (Cons c cs)
  have "buffer self @ c @ concat cs = concat (map (frame_of limits) payloads)" using Cons.prems(3) by simp
  from Cons.prems(1,2) this Cons.prems(4) show ?case
  proof (cases rule: absorb_rendered)
    case waiting
    from Cons.IH [of payloads "self\<lparr>buffer := buffer self @ c\<rparr>"]
    obtain answers ps where
      "feed (absorb limits) (self\<lparr>buffer := buffer self @ c\<rparr>) cs =
         (self\<lparr>buffer := concat (map (frame_of limits) ps)\<rparr>, Inr answers)" "payloads = yielded answers @ ps"
      using Cons.prems by auto
    then show ?thesis using waiting by (intro exI [of _ "None # answers"] exI [of _ ps]) simp
  next
    case (taken p rest b)
    from Cons.IH [of rest "self\<lparr>buffer := b\<rparr>"]
    obtain answers ps where
      "feed (absorb limits) (self\<lparr>buffer := b\<rparr>) cs =
         (self\<lparr>buffer := concat (map (frame_of limits) ps)\<rparr>, Inr answers)" "rest = yielded answers @ ps"
      using Cons.prems taken by auto
    then show ?thesis using taken by (intro exI [of _ "Some p # answers"] exI [of _ ps]) simp
  qed
qed

text \<open>Calls that bring no bytes drain the frames already buffered, one per call.\<close>

lemma absorb_drains:
  assumes "prefix_fits limits" and "list_all (\<lambda>p. is_ok (read_payload limits p)) payloads"
    and "buffer self = concat (map (frame_of limits) payloads)"
    and "\<not> reader_poisoned self" and "length payloads \<le> n"
  shows "\<exists>answers. feed (absorb limits) self (replicate n []) = (self\<lparr>buffer := []\<rparr>, Inr answers) \<and>
      yielded answers = payloads"
  using assms
proof (induction n arbitrary: self payloads)
  case 0
  then show ?case by (cases self) simp
next
  case (Suc n)
  have "buffer self @ [] @ [] = concat (map (frame_of limits) payloads)" using Suc.prems(3) by simp
  from Suc.prems(1,2) this Suc.prems(4) show ?case
  proof (cases rule: absorb_rendered)
    case waiting
    then have "payloads = []" by simp
    with Suc.IH [of "[]" self] Suc.prems obtain answers where
      "feed (absorb limits) self (replicate n []) = (self\<lparr>buffer := []\<rparr>, Inr answers)" "yielded answers = []"
      by auto
    then show ?thesis using waiting \<open>payloads = []\<close>
      by (intro exI [of _ "None # answers"]) simp
  next
    case (taken p rest b)
    with Suc.IH [of rest "self\<lparr>buffer := b\<rparr>"] Suc.prems obtain answers where
      "feed (absorb limits) (self\<lparr>buffer := b\<rparr>) (replicate n []) = (self\<lparr>buffer := []\<rparr>, Inr answers)"
      "yielded answers = rest"
      by auto
    then show ?thesis using taken by (intro exI [of _ "Some p # answers"]) simp
  qed
qed

lemma frames_arrive:
  assumes "prefix_fits limits" and "list_all (\<lambda>p. is_ok (read_payload limits p)) payloads"
    and "concat chunks = concat (map (frame_of limits) payloads)"
  shows "\<exists>answers. feed (absorb limits) local_reader_new (chunks @ replicate (length payloads) []) =
      (local_reader_new, Inr answers) \<and> yielded answers = payloads"
proof -
  obtain as ps where a: "feed (absorb limits) local_reader_new chunks =
      (local_reader_new\<lparr>buffer := concat (map (frame_of limits) ps)\<rparr>, Inr as)" "payloads = yielded as @ ps"
    using absorb_chunks_rendered [OF assms(1,2), of local_reader_new chunks] assms(3)
    by (auto simp: local_reader_new_def)
  obtain bs where "feed (absorb limits) (local_reader_new\<lparr>buffer := concat (map (frame_of limits) ps)\<rparr>)
      (replicate (length payloads) []) = (local_reader_new, Inr bs)" "yielded bs = ps"
    using absorb_drains [OF assms(1), of ps "local_reader_new\<lparr>buffer := concat (map (frame_of limits) ps)\<rparr>"
        "length payloads"] assms(2) a(2)
    by (auto simp: local_reader_new_def)
  then show ?thesis using a by (auto simp: feed_append)
qed


section \<open>What the structural scan measures\<close>

text \<open>Documents and their texts.  A scalar is any run of octets that are neither structural nor
  insignificant, which includes every number and every literal name.\<close>

datatype json =
    Scalar "byte list"
  | Text "byte list"
  | Array "json list"
  | Object "(byte list \<times> json) list"

fun json_depth :: "json \<Rightarrow> nat" where
  "json_depth (Scalar bytes) = 0"
| "json_depth (Text bytes) = 0"
| "json_depth (Array vs) = Suc (foldr (\<lambda>v n. max (json_depth v) n) vs 0)"
| "json_depth (Object ms) = Suc (foldr (\<lambda>m n. max (json_depth (snd m)) n) ms 0)"

text \<open>The scan counts a name and its value as two entries of their object.\<close>

fun json_items :: "json \<Rightarrow> nat" where
  "json_items (Scalar bytes) = 0"
| "json_items (Text bytes) = 0"
| "json_items (Array vs) = foldr (\<lambda>v n. max (json_items v) n) vs (length vs)"
| "json_items (Object ms) = foldr (\<lambda>m n. max (json_items (snd m)) n) ms (2 * length ms)"

definition spaces :: "byte list \<Rightarrow> bool" where
  "spaces w \<longleftrightarrow> list_all (\<lambda>b. b \<in> set INSIGNIFICANT_BYTES) w"

definition ordinary :: "byte \<Rightarrow> bool" where
  "ordinary b \<longleftrightarrow> b \<notin> set ([0x22, 0x7B, 0x5B, 0x7D, 0x5D, 0x2C, 0x3A] @ INSIGNIFICANT_BYTES)"

fun string_body :: "byte list \<Rightarrow> bool" where
  "string_body [] = True"
| "string_body (b # bytes) =
     (if b = 0x5C then (case bytes of [] \<Rightarrow> False | _ # rest \<Rightarrow> string_body rest)
      else b \<noteq> 0x22 \<and> string_body bytes)"

inductive json_text :: "json \<Rightarrow> byte list \<Rightarrow> bool"
  and json_elements :: "json list \<Rightarrow> byte list \<Rightarrow> bool"
  and json_members :: "(byte list \<times> json) list \<Rightarrow> byte list \<Rightarrow> bool" where
  scalar: "bytes \<noteq> [] \<Longrightarrow> list_all ordinary bytes \<Longrightarrow> json_text (Scalar bytes) bytes"
| string: "string_body bytes \<Longrightarrow> json_text (Text bytes) (0x22 # bytes @ [0x22])"
| no_elements: "spaces w \<Longrightarrow> json_text (Array []) (0x5B # w @ [0x5D])"
| some_elements: "json_elements vs bytes \<Longrightarrow> json_text (Array vs) (0x5B # bytes @ [0x5D])"
| no_members: "spaces w \<Longrightarrow> json_text (Object []) (0x7B # w @ [0x7D])"
| some_members: "json_members ms bytes \<Longrightarrow> json_text (Object ms) (0x7B # bytes @ [0x7D])"
| last_element: "spaces w \<Longrightarrow> json_text v bytes \<Longrightarrow> spaces w' \<Longrightarrow> json_elements [v] (w @ bytes @ w')"
| next_element: "spaces w \<Longrightarrow> json_text v bytes \<Longrightarrow> spaces w' \<Longrightarrow> json_elements vs more_bytes \<Longrightarrow>
    json_elements (v # vs) (w @ bytes @ w' @ 0x2C # more_bytes)"
| last_member: "spaces w \<Longrightarrow> string_body k \<Longrightarrow> spaces w' \<Longrightarrow> spaces x \<Longrightarrow> json_text v bytes \<Longrightarrow> spaces x' \<Longrightarrow>
    json_members [(k, v)] (w @ 0x22 # k @ 0x22 # w' @ 0x3A # x @ bytes @ x')"
| next_member: "spaces w \<Longrightarrow> string_body k \<Longrightarrow> spaces w' \<Longrightarrow> spaces x \<Longrightarrow> json_text v bytes \<Longrightarrow> spaces x' \<Longrightarrow>
    json_members ms more_bytes \<Longrightarrow>
    json_members ((k, v) # ms) (w @ 0x22 # k @ 0x22 # w' @ 0x3A # x @ bytes @ x' @ 0x2C # more_bytes)"

definition elements_depth where "elements_depth vs = foldr (\<lambda>v n. max (json_depth v) n) vs 0"
definition elements_items where "elements_items vs = foldr (\<lambda>v n. max (json_items v) n) vs 0"

lemma foldr_max_start: "foldr (\<lambda>v n. max (f v) n) vs (k::nat) = max (foldr (\<lambda>v n. max (f v) n) vs 0) k"
  by (induction vs) auto

lemma json_text_bounds:
  "json_text v bytes \<Longrightarrow> json_depth v \<le> length bytes \<and> json_items v \<le> length bytes \<and> 0 < length bytes"
  "json_elements vs bytes \<Longrightarrow> elements_depth vs \<le> length bytes \<and> elements_items vs \<le> length bytes
     \<and> length vs \<le> length bytes \<and> vs \<noteq> []"
  "json_members ms bytes \<Longrightarrow> elements_depth (map snd ms) \<le> length bytes \<and>
     elements_items (map snd ms) \<le> length bytes \<and> 2 * length ms \<le> length bytes \<and> ms \<noteq> []"
proof (induction rule: json_text_json_elements_json_members.inducts)
qed (auto simp: elements_depth_def elements_items_def foldr_max_start [of _ _ "length _"]
   foldr_max_start [of _ _ "2 * _"] foldr_map comp_def Suc_le_eq)


text \<open>A scan that may still meet a value, and whose depth covers the containers now open.\<close>

definition fresh :: "structural_scan \<Rightarrow> bool" where
  "fresh s \<longleftrightarrow> open_containers s \<noteq> [] \<or> \<not> scan_completed s"

definition deep :: "structural_scan \<Rightarrow> bool" where
  "deep s \<longleftrightarrow> of_nat (length (open_containers s)) \<le> scan_depth s"

definition measured :: "nat \<Rightarrow> nat \<Rightarrow> structural_scan \<Rightarrow> structural_scan" where
  "measured d i s = s\<lparr>scan_depth := max (scan_depth s) (of_nat d), scan_items := max (scan_items s) (of_nat i)\<rparr>"

definition completing :: "bool \<Rightarrow> structural_scan \<Rightarrow> structural_scan" where
  "completing c s = (if c \<and> open_containers s = [] then s\<lparr>scan_completed := True\<rparr> else s)"

fun is_scalar :: "json \<Rightarrow> bool" where
  "is_scalar (Scalar _) = True"
| "is_scalar _ = False"

text \<open>What a value, and what the entries of a container, do to a scan.\<close>

definition value_seen :: "json \<Rightarrow> structural_scan \<Rightarrow> structural_scan" where
  "value_seen v s =
     measured (length (open_containers s) + json_depth v) (json_items v)
       (completing (\<not> is_scalar v) (mark_entry s))"

definition entries_seen :: "nat \<Rightarrow> json list \<Rightarrow> structural_scan \<Rightarrow> structural_scan" where
  "entries_seen n vs s =
     (let c = hd (open_containers s) in
      measured (length (open_containers s) + elements_depth vs) (elements_items vs)
        (s\<lparr>open_containers := c\<lparr>container_items := container_items c + of_nat n, entry_started := True\<rparr>
           # tl (open_containers s)\<rparr>))"

lemma max_of_nat_u32:
  "a < 2 ^ 32 \<Longrightarrow> b < 2 ^ 32 \<Longrightarrow> max (of_nat a) (of_nat b) = (of_nat (max a b) :: u32)"
  by (auto simp: max_def word_le_nat_alt unat_of_nat)

lemma max_u32_of_nat:
  "a < 2 ^ 32 \<Longrightarrow> b < 2 ^ 32 \<Longrightarrow> max (max w (of_nat a)) (of_nat b) = max w (of_nat (max a b) :: u32)"
  by (simp add: max.assoc max_of_nat_u32)

lemma scan_spaces: "spaces w \<Longrightarrow> scan_from s (w @ rest) = scan_from s rest"
  by (induction w) (auto simp: spaces_def starts_second_value_def scan_octet_def INSIGNIFICANT_BYTES_def)

lemma mark_entry_idem [simp]: "mark_entry (mark_entry s) = mark_entry s"
  by (auto simp: mark_entry_def split: list.splits)

lemma open_mark_entry [simp]:
  "open_containers (mark_entry s) = [] \<longleftrightarrow> open_containers s = []"
  "length (open_containers (mark_entry s)) = length (open_containers s)"
  "scan_completed (mark_entry s) = scan_completed s"
  "scan_depth (mark_entry s) = scan_depth s" "scan_items (mark_entry s) = scan_items s"
  by (auto simp: mark_entry_def split: list.splits)

lemma fresh_mark_entry [simp]: "fresh (mark_entry s) = fresh s" "deep (mark_entry s) = deep s"
  by (auto simp: fresh_def deep_def)

lemma fresh_starts: "fresh s \<Longrightarrow> starts_second_value s b = Inr ()"
  by (auto simp: fresh_def starts_second_value_def)

lemma scan_ordinary: "fresh s \<Longrightarrow> ordinary b \<Longrightarrow> scan_from s (b # rest) = scan_from (mark_entry s) rest"
  by (auto simp: fresh_starts ordinary_def scan_octet_def)

lemma scan_scalar:
  "fresh s \<Longrightarrow> list_all ordinary bytes \<Longrightarrow> bytes \<noteq> [] \<Longrightarrow>
     scan_from s (bytes @ rest) = scan_from (mark_entry s) rest"
proof (induction bytes arbitrary: s)
  case (Cons b bs)
  then show ?case by (cases "bs = []") (simp_all add: scan_ordinary del: scan_from.simps)
qed simp

lemma skip_string_body: "string_body bytes \<Longrightarrow> skip_string (bytes @ 0x22 # rest) = Inr rest"
proof (induction bytes rule: string_body.induct)
  case (2 b bytes)
  then show ?case by (cases bytes) (auto simp: ESCAPE_SEQUENCE_LENGTH_def split: if_splits)
qed simp

lemma scan_string:
  "fresh s \<Longrightarrow> string_body bytes \<Longrightarrow>
     scan_from s (0x22 # bytes @ 0x22 # rest) = scan_from (completing True (mark_entry s)) rest"
  by (simp add: fresh_starts skip_string_body completing_def Let_def)

lemma scan_open:
  "fresh s \<Longrightarrow> b = 0x7B \<or> b = 0x5B \<Longrightarrow> scan_from s (b # rest) = scan_from (open_container s) rest"
  by (auto simp: fresh_starts scan_octet_def)

lemma scan_separator:
  "fresh s \<Longrightarrow> b = 0x2C \<or> b = 0x3A \<Longrightarrow> scan_from s (b # rest) = scan_from (separate_entry s) rest"
  by (auto simp: fresh_starts scan_octet_def)

lemma scan_close:
  "fresh s \<Longrightarrow> b = 0x7D \<or> b = 0x5D \<Longrightarrow> close_container s = Inr s' \<Longrightarrow>
     scan_from s (b # rest) = scan_from s' rest"
  by (auto simp: fresh_starts scan_octet_def)

lemma max_absorb_u32: "(a::u32) \<le> b \<Longrightarrow> max b a = b"
  by (simp add: max_def)

lemma value_seen_flat:
  assumes "deep s" and "json_depth v = 0" and "json_items v = 0"
  shows "value_seen v s = completing (\<not> is_scalar v) (mark_entry s)"
  using assms by (simp add: value_seen_def measured_def completing_def deep_def max_absorb_u32)

lemma open_container_facts:
  "open_containers (open_container s) = \<lparr>container_items = 0, entry_started = False\<rparr> # open_containers (mark_entry s)"
  "fresh (open_container s)" "deep (open_container s)"
  by (simp_all add: open_container_def Let_def fresh_def deep_def)

lemma close_opened:
  assumes "length (open_containers s) + Suc d < 2 ^ 32" "n < 2 ^ 32" "i < 2 ^ 32" "0 < n"
    and "elements_depth vs = d" "elements_items vs = i"
    and "json_depth v = Suc d" "json_items v = max i n" "\<not> is_scalar v"
  shows "close_container (entries_seen (n - 1) vs (open_container s)) = Inr (value_seen v s)"
proof -
  have "of_nat (n - 1) + 1 = (of_nat n :: u32)" using assms(4) by (cases n) simp_all
  then show ?thesis
    using assms max_u32_of_nat [of "Suc (length (open_containers s))" "Suc (length (open_containers s) + d)" "scan_depth s"]
      max_u32_of_nat [of i n "scan_items s"]
    by (simp add: close_container_def entries_seen_def open_container_facts measured_def
        value_seen_def completing_def open_container_def Let_def add.commute)
qed


lemma entries_first:
  assumes "open_containers s \<noteq> []" and "n = 0" and "vs = [v]"
  shows "value_seen v s = entries_seen n vs s"
  using assms
  by (cases "open_containers s") (auto simp: value_seen_def entries_seen_def completing_def mark_entry_def
      measured_def elements_depth_def elements_items_def)

lemma entries_next:
  assumes s: "open_containers s \<noteq> []"
    and "length (open_containers s) + json_depth v < 2 ^ 32" "json_items v < 2 ^ 32"
    and "length (open_containers s) + elements_depth vs < 2 ^ 32" "elements_items vs < 2 ^ 32"
  shows "entries_seen n vs (separate_entry (value_seen v s)) = entries_seen (Suc n) (v # vs) s"
proof -
  obtain c outer where "open_containers s = c # outer" using s by (cases "open_containers s") auto
  then show ?thesis
    using max_u32_of_nat [OF assms(2,4), of "scan_depth s"] max_u32_of_nat [OF assms(3,5), of "scan_items s"]
    by (simp add: value_seen_def entries_seen_def separate_entry_def completing_def mark_entry_def
        measured_def elements_depth_def elements_items_def max_add_distrib_right add.commute add.left_commute)
qed

text \<open>A name and its colon are one entry of their own.\<close>

lemma entries_name:
  assumes s: "open_containers s \<noteq> []"
  shows "entries_seen n vs (separate_entry (completing True (mark_entry s))) = entries_seen (Suc n) vs s"
    "open_containers (separate_entry (completing True (mark_entry s))) \<noteq> []"
    "length (open_containers (separate_entry (completing True (mark_entry s)))) = length (open_containers s)"
    "deep (separate_entry (completing True (mark_entry s))) = deep s"
proof -
  obtain c outer where "open_containers s = c # outer" using s by (cases "open_containers s") auto
  then show "entries_seen n vs (separate_entry (completing True (mark_entry s))) = entries_seen (Suc n) vs s"
    "open_containers (separate_entry (completing True (mark_entry s))) \<noteq> []"
    "length (open_containers (separate_entry (completing True (mark_entry s)))) = length (open_containers s)"
    "deep (separate_entry (completing True (mark_entry s))) = deep s"
    by (simp_all add: entries_seen_def separate_entry_def completing_def mark_entry_def
        measured_def deep_def add.commute add.left_commute)
qed

lemma open_value_seen:
  assumes "open_containers s \<noteq> []"
  shows "open_containers (value_seen v s) \<noteq> []"
    "length (open_containers (separate_entry (value_seen v s))) = length (open_containers s)"
    "open_containers (separate_entry (value_seen v s)) \<noteq> []"
    "deep s \<Longrightarrow> deep (value_seen v s)"
    "deep s \<Longrightarrow> deep (separate_entry (value_seen v s))"
  using assms
  by (cases "open_containers s"; auto simp: value_seen_def measured_def completing_def mark_entry_def
      separate_entry_def deep_def le_max_iff_disj)+

lemma open_fresh [simp]: "open_containers s \<noteq> [] \<Longrightarrow> fresh s"
  by (simp add: fresh_def)

lemma open_entries_seen [simp]: "open_containers (entries_seen n vs s) \<noteq> []"
  by (simp add: entries_seen_def measured_def Let_def)

lemma scan_empty_container:
  assumes "fresh s" "deep s" "spaces w" "length (open_containers s) + 1 < 2 ^ 32"
    and "a = 0x5B \<and> b = 0x5D \<and> v = Array [] \<or> a = 0x7B \<and> b = 0x7D \<and> v = Object []"
  shows "scan_from s (a # w @ b # rest) = scan_from (value_seen v s) rest"
proof -
  have "scan_from s (a # w @ b # rest) = scan_from (open_container s) (b # rest)"
    using assms by (auto simp: scan_open scan_spaces simp del: scan_from.simps)
  also have "close_container (open_container s) = Inr (value_seen v s)"
    using assms(5) by (auto simp: close_container_def open_container_facts value_seen_def measured_def completing_def
        open_container_def Let_def add.commute)
  then have "scan_from (open_container s) (b # rest) = scan_from (value_seen v s) rest"
    using assms(5) open_container_facts(2) by (intro scan_close) auto
  finally show ?thesis .
qed

lemma scan_full_container:
  assumes "fresh s" "deep s" and b: "length (open_containers s) + length bytes + 2 < 2 ^ 32"
    and v: "v = Array vs \<and> a = 0x5B \<and> b = 0x5D \<and> n = length vs \<and> us = vs \<or>
      v = Object ms \<and> a = 0x7B \<and> b = 0x7D \<and> n = 2 * length ms \<and> us = map snd ms"
    and bounds: "elements_depth us \<le> length bytes" "elements_items us \<le> length bytes" "n \<le> length bytes" "0 < n"
    and entries: "\<And>s rest. open_containers s \<noteq> [] \<Longrightarrow> deep s \<Longrightarrow> length (open_containers s) + length bytes < 2 ^ 32 \<Longrightarrow>
       scan_from s (bytes @ rest) = scan_from (entries_seen (n - 1) us s) rest"
  shows "scan_from s (a # bytes @ b # rest) = scan_from (value_seen v s) rest"
proof -
  have "scan_from s (a # bytes @ b # rest) = scan_from (open_container s) (bytes @ b # rest)"
    using assms(1) v by (intro scan_open) auto
  also have "\<dots> = scan_from (entries_seen (n - 1) us (open_container s)) (b # rest)"
    using b open_container_facts [of s] by (intro entries) auto
  also have "close_container (entries_seen (n - 1) us (open_container s)) = Inr (value_seen v s)"
    using v b bounds
    by (intro close_opened [OF _ _ _ _ refl refl])
      (auto simp: elements_depth_def elements_items_def foldr_map comp_def
        foldr_max_start [of _ _ "length _"] foldr_max_start [of _ _ "2 * _"])
  then have "scan_from (entries_seen (n - 1) us (open_container s)) (b # rest) = scan_from (value_seen v s) rest"
    using v by (intro scan_close) auto
  finally show ?thesis .
qed


lemma scan_next_element:
  assumes s: "open_containers s \<noteq> []" "deep s" and w: "spaces w" "spaces w'"
    and b: "length (open_containers s) + (length w + length bytes + length w' + length more_bytes) < 2 ^ 32"
    and v: "json_depth v \<le> length bytes" "json_items v \<le> length bytes"
    and vs: "elements_depth vs \<le> length more_bytes" "elements_items vs \<le> length more_bytes"
    and scan_v: "scan_from s (bytes @ w' @ 0x2C # more_bytes @ rest) = scan_from (value_seen v s) (w' @ 0x2C # more_bytes @ rest)"
    and scan_vs: "\<And>s. open_containers s \<noteq> [] \<Longrightarrow> deep s \<Longrightarrow> length (open_containers s) + length more_bytes < 2 ^ 32 \<Longrightarrow>
       scan_from s (more_bytes @ rest) = scan_from (entries_seen n vs s) rest"
  shows "scan_from s (w @ bytes @ w' @ 0x2C # more_bytes @ rest) = scan_from (entries_seen (Suc n) (v # vs) s) rest"
proof -
  have "scan_from s (w @ bytes @ w' @ 0x2C # more_bytes @ rest) =
      scan_from (value_seen v s) (0x2C # more_bytes @ rest)"
    using w scan_v by (simp add: scan_spaces del: scan_from.simps)
  also have "\<dots> = scan_from (separate_entry (value_seen v s)) (more_bytes @ rest)"
    using open_value_seen(1) [OF s(1)] by (intro scan_separator) auto
  also have "\<dots> = scan_from (entries_seen n vs (separate_entry (value_seen v s))) rest"
    using b s open_value_seen [OF s(1)] by (intro scan_vs) auto
  also have "entries_seen n vs (separate_entry (value_seen v s)) = entries_seen (Suc n) (v # vs) s"
    using b v vs by (intro entries_next s) auto
  finally show ?thesis .
qed

text \<open>The name of a member, up to its value.\<close>

lemma scan_name:
  assumes s: "open_containers s \<noteq> []" and "spaces w" "string_body k" "spaces w'" "spaces x"
  shows "scan_from s (w @ 0x22 # k @ 0x22 # w' @ 0x3A # x @ rest) =
    scan_from (separate_entry (completing True (mark_entry s))) rest"
proof -
  have open_c: "open_containers (completing True (mark_entry s)) \<noteq> []"
    using s by (simp add: completing_def)
  have "scan_from s (w @ 0x22 # k @ 0x22 # w' @ 0x3A # x @ rest) =
      scan_from (completing True (mark_entry s)) (0x3A # x @ rest)"
    using assms by (simp add: scan_spaces scan_string del: scan_from.simps)
  also have "\<dots> = scan_from (separate_entry (completing True (mark_entry s))) (x @ rest)"
    using open_c by (intro scan_separator) auto
  finally show ?thesis using assms by (simp add: scan_spaces)
qed

lemma scan_last_element:
  assumes s: "open_containers s \<noteq> []" and w: "spaces w" "spaces w'"
    and scan_v: "scan_from s (bytes @ w' @ rest) = scan_from (value_seen v s) (w' @ rest)"
  shows "scan_from s (w @ bytes @ w' @ rest) = scan_from (entries_seen 0 [v] s) rest"
  using w scan_v entries_first [OF s refl refl] by (simp add: scan_spaces del: scan_from.simps)

lemma scan_json:
  "json_text v bytes \<Longrightarrow> fresh s \<Longrightarrow> deep s \<Longrightarrow> length (open_containers s) + length bytes < 2 ^ 32 \<Longrightarrow>
     scan_from s (bytes @ rest) = scan_from (value_seen v s) rest"
  "json_elements vs bytes \<Longrightarrow> open_containers s \<noteq> [] \<Longrightarrow> deep s \<Longrightarrow>
     length (open_containers s) + length bytes < 2 ^ 32 \<Longrightarrow>
     scan_from s (bytes @ rest) = scan_from (entries_seen (length vs - 1) vs s) rest"
  "json_members ms bytes \<Longrightarrow> open_containers s \<noteq> [] \<Longrightarrow> deep s \<Longrightarrow>
     length (open_containers s) + length bytes < 2 ^ 32 \<Longrightarrow>
     scan_from s (bytes @ rest) = scan_from (entries_seen (2 * length ms - 1) (map snd ms) s) rest"
proof (induction arbitrary: s rest and s rest and s rest rule: json_text_json_elements_json_members.inducts)
  case (scalar bytes)
  then show ?case by (simp add: scan_scalar value_seen_flat completing_def)
next
  case (string bytes)
  then show ?case by (simp add: scan_string value_seen_flat del: scan_from.simps)
next
  case (no_elements w)
  then have "scan_from s (0x5B # w @ 0x5D # rest) = scan_from (value_seen (Array []) s) rest"
    by (intro scan_empty_container) auto
  then show ?case by (simp del: scan_from.simps)
next
  case (no_members w)
  then have "scan_from s (0x7B # w @ 0x7D # rest) = scan_from (value_seen (Object []) s) rest"
    by (intro scan_empty_container) auto
  then show ?case by (simp del: scan_from.simps)
next
  case (some_elements vs bytes)
  have "scan_from s (0x5B # bytes @ 0x5D # rest) = scan_from (value_seen (Array vs) s) rest"
    using some_elements.prems json_text_bounds(2) [OF some_elements.hyps] some_elements.IH
    by (intro scan_full_container) auto
  then show ?case by (simp del: scan_from.simps)
next
  case (some_members ms bytes)
  have "scan_from s (0x7B # bytes @ 0x7D # rest) = scan_from (value_seen (Object ms) s) rest"
    using some_members.prems json_text_bounds(3) [OF some_members.hyps] some_members.IH
    by (intro scan_full_container [where n = "2 * length ms" and us = "map snd ms"]) auto
  then show ?case by (simp del: scan_from.simps)
next
  case (last_element w v bytes w')
  then have "scan_from s (w @ bytes @ w' @ rest) = scan_from (entries_seen 0 [v] s) rest"
    by (intro scan_last_element) auto
  then show ?case by simp
next
  case (next_element w v bytes w' vs more_bytes)
  have "scan_from s (w @ bytes @ w' @ 0x2C # more_bytes @ rest) =
      scan_from (entries_seen (Suc (length vs - 1)) (v # vs) s) rest"
    using next_element.prems next_element.hyps next_element.IH
      json_text_bounds(1) [OF next_element.hyps(2)] json_text_bounds(2) [OF next_element.hyps(4)]
    by (intro scan_next_element) auto
  moreover have "vs \<noteq> []" using json_text_bounds(2) [OF next_element.hyps(4)] by simp
  ultimately show ?case by (cases vs) (simp_all del: scan_from.simps)
next
  case (last_member w k w' x v bytes x')
  let ?t = "separate_entry (completing True (mark_entry s))"
  have "scan_from s (w @ 0x22 # k @ 0x22 # w' @ 0x3A # x @ bytes @ x' @ rest) = scan_from ?t ([] @ bytes @ x' @ rest)"
    using last_member by (simp add: scan_name del: scan_from.simps)
  also have "\<dots> = scan_from (entries_seen 0 [v] ?t) rest"
    using last_member.hyps last_member.prems last_member.IH entries_name [OF last_member.prems(1)]
    by (intro scan_last_element) (auto simp: spaces_def)
  finally show ?case using entries_name(1) [OF last_member.prems(1)] by (simp del: scan_from.simps)
next
  case (next_member w k w' x v bytes x' ms more_bytes)
  let ?t = "separate_entry (completing True (mark_entry s))"
  have "scan_from s (w @ 0x22 # k @ 0x22 # w' @ 0x3A # x @ bytes @ x' @ 0x2C # more_bytes @ rest) =
      scan_from ?t ([] @ bytes @ x' @ 0x2C # more_bytes @ rest)"
    using next_member by (simp add: scan_name del: scan_from.simps)
  also have "\<dots> = scan_from (entries_seen (Suc (2 * length ms - 1)) (v # map snd ms) ?t) rest"
    using next_member.prems next_member.hyps next_member.IH entries_name [OF next_member.prems(1)]
      json_text_bounds(1) [OF next_member.hyps(5)] json_text_bounds(3) [OF next_member.hyps(7)]
    by (intro scan_next_element) (auto simp: spaces_def)
  also have "\<dots> = scan_from (entries_seen (Suc (Suc (2 * length ms - 1))) (v # map snd ms) s) rest"
    using entries_name(1) [OF next_member.prems(1)] by simp
  finally have "scan_from s (w @ 0x22 # k @ 0x22 # w' @ 0x3A # x @ bytes @ x' @ 0x2C # more_bytes @ rest) = \<dots>" .
  moreover have "ms \<noteq> []" using json_text_bounds(3) [OF next_member.hyps(7)] by simp
  ultimately show ?case by (cases ms) (simp_all del: scan_from.simps)
qed



lemma scan_document:
  assumes "json_text v bytes" "spaces w" "spaces w'" "length bytes < 2 ^ 32"
  shows "scan (w @ bytes @ w') = Inr (value_seen v scan_default)"
proof -
  have "open_containers (value_seen v scan_default) = []"
    by (simp add: value_seen_def measured_def completing_def mark_entry_def scan_default_def)
  moreover have "fresh scan_default" "deep scan_default" by (simp_all add: fresh_def deep_def scan_default_def)
  ultimately show ?thesis
    using assms scan_json(1) [OF assms(1), of scan_default w'] scan_spaces [OF assms(3), of _ "[]"]
    by (simp add: scan_def scan_spaces) (simp add: scan_default_def)
qed

lemma read_payload_document:
  assumes v: "json_text v bytes" "spaces w" "spaces w'" and p: "payload = w @ bytes @ w'"
    and u: "is_ok (from_utf8 0 payload)" and l: "length payload \<le> unat (maximum_payload_bytes limits)"
  shows "read_payload limits payload =
    (if unat (maximum_nesting_depth limits) < json_depth v
     then Inl (NestingTooDeep (of_nat (json_depth v)) (maximum_nesting_depth limits))
     else if unat (maximum_collection_items limits) < json_items v
     then Inl (CollectionTooLarge (of_nat (json_items v)) (maximum_collection_items limits))
     else Inr payload)"
proof -
  have "length payload < 2 ^ 32" using l unsigned_less [of "maximum_payload_bytes limits", where 'a = nat] by simp
  then have lb: "length bytes < 2 ^ 32" by (simp add: p)
  then have s: "scan payload = Inr (value_seen v scan_default)" using scan_document [OF v] p by simp
  have d: "unat (of_nat (json_depth v) :: u32) = json_depth v" "unat (of_nat (json_items v) :: u32) = json_items v"
    using json_text_bounds(1) [OF v(1)] lb by (simp_all add: unat_of_nat)
  have m: "scan_depth (value_seen v scan_default) = of_nat (json_depth v)"
    "scan_items (value_seen v scan_default) = of_nat (json_items v)"
    "top_level_started (value_seen v scan_default)"
    by (simp_all add: value_seen_def measured_def completing_def mark_entry_def scan_default_def)
  show ?thesis using u l d m s by (auto simp: read_payload_def is_ok_iff word_less_nat_alt)
qed

lemma close_container_Inl: "close_container s = Inl f \<Longrightarrow> f = TrailingValue"
  by (auto simp: close_container_def Let_def split: list.splits)

lemma skip_string_Inl: "skip_string bytes = Inl f \<Longrightarrow> f = Unfinished"
  by (induction bytes rule: skip_string.induct) (auto split: if_splits)

lemma scan_from_Inl: "scan_from s bytes = Inl f \<Longrightarrow> f = Unfinished \<or> f = TrailingValue"
proof (induction s bytes rule: scan_from.induct)
  case (2 s b bytes)
  then show ?case
    by (auto simp: result_simps starts_second_value_def scan_octet_def Let_def
        split: if_splits sum.splits dest: skip_string_Inl close_container_Inl)
qed (auto split: if_splits)

lemma read_payload_Inl: "read_payload limits payload = Inl f \<Longrightarrow> f \<noteq> ReaderPoisoned"
  by (auto simp: read_payload_def result_simps scan_def split: if_splits sum.splits dest: scan_from_Inl)

lemma progress_Inl: "progress limits bytes = Inl f \<Longrightarrow> f \<noteq> ReaderPoisoned"
  by (auto simp: progress_def Let_def split: if_splits)

lemma absorb_Inl:
  "absorb limits received self = (self', Inl f) \<Longrightarrow> \<not> reader_poisoned self \<Longrightarrow> f \<noteq> ReaderPoisoned"
  by (auto simp: absorb_def checked_progress_def Let_def split: sum.splits frame_progress.splits
      dest: progress_Inl read_payload_Inl)

lemma drive_poisoned:
  "reader_poisoned self \<Longrightarrow> drive (absorb limits) self chunks = (self, replicate (length chunks) (Inl ReaderPoisoned))"
  by (induction chunks) (simp_all add: absorb_def)

lemma drive_absorb:
  assumes "\<not> reader_poisoned self"
  shows "\<exists>oks. snd (drive (absorb limits) self chunks) = map Inr oks \<or>
    (\<exists>failure n. failure \<noteq> ReaderPoisoned \<and>
       snd (drive (absorb limits) self chunks) = map Inr oks @ Inl failure # replicate n (Inl ReaderPoisoned))"
  using assms
proof (induction chunks arbitrary: self)
  case (Cons c cs)
  obtain t r where a: "absorb limits c self = (t, r)" by fastforce
  then show ?case
  proof (cases r)
    case (Inl f)
    then have "reader_poisoned t" "f \<noteq> ReaderPoisoned"
      using a Cons.prems frame_stream.refusal_closes absorb_Inl by blast+
    then show ?thesis using a Inl
      by (intro exI [of _ "[]"] disjI2 exI [of _ f] exI [of _ "length cs"]) (simp add: drive_poisoned)
  next
    case (Inr answer)
    from a have "\<not> reader_poisoned t" by (cases rule: absorb_cases) (use Inr Cons.prems in auto)
    from Cons.IH [OF this] obtain oks where
      "snd (drive (absorb limits) t cs) = map Inr oks \<or>
       (\<exists>failure n. failure \<noteq> ReaderPoisoned \<and>
         snd (drive (absorb limits) t cs) = map Inr oks @ Inl failure # replicate n (Inl ReaderPoisoned))" by blast
    then show ?thesis using a Inr by (intro exI [of _ "answer # oks"]) (auto simp: split_beta)
  qed
qed simp

text \<open>C27: Local framing loses nothing: the frames of any payloads that the structural scan accepts,
  cut into any chunks and followed by one call without bytes per payload, yield exactly those payloads
  in order and leave the reader empty.\<close>
theorem local_frames_roundtrip:
  assumes "prefix_fits limits"
    and "list_all (\<lambda>p. is_ok (read_payload limits p)) payloads"
    and "list_all2 (\<lambda>p f. render limits p = Inr f) payloads frames"
    and "concat chunks = concat frames"
  shows "\<exists>answers. feed (absorb limits) local_reader_new (chunks @ replicate (length payloads) []) =
      (local_reader_new, Inr answers) \<and> yielded answers = payloads"
proof -
  have "frames = map (frame_of limits) payloads"
    using assms(3,2) by (induction rule: list_all2_induct) (auto simp: render_frame_of read_payload_length)
  then show ?thesis using assms frames_arrive by simp
qed

text \<open>C28: Whatever bytes arrive, the reader takes whole frames in the order they were sent: while it
  refuses nothing, the bytes received are the frames it yielded, each a prefix that declares the length
  of an accepted payload, followed by the bytes it still holds.\<close>
theorem local_reader_conserves_bytes:
  assumes "feed (absorb limits) local_reader_new chunks = (self, Inr answers)"
  shows "\<exists>frames. concat chunks = concat frames @ buffer self \<and>
    list_all2 (framed limits) frames (yielded answers) \<and> \<not> reader_poisoned self"
  using absorb_run_conserves [OF assms] by (simp add: local_reader_new_def)

text \<open>A refusal names its cause once and poisons the reader: the answers to any chunks are
  acceptances, then at most one refusal for a reason in the bytes, then nothing but the answer that the
  reader is poisoned.\<close>

lemma local_reader_refuses_once:
  "\<exists>oks. snd (drive (absorb limits) local_reader_new chunks) = map Inr oks \<or>
    (\<exists>failure n. failure \<noteq> ReaderPoisoned \<and>
       snd (drive (absorb limits) local_reader_new chunks) =
         map Inr oks @ Inl failure # replicate n (Inl ReaderPoisoned))"
  by (rule drive_absorb) (simp add: local_reader_new_def)

text \<open>On the text of one document the structural scan decides exactly the two bounds of the
  contract: the document is refused for its depth when its nesting exceeds the limit, else for its
  largest container, a name and its value counting as two entries, and else accepted unchanged.\<close>

lemma read_payload_measures_document:
  assumes "json_text v bytes" and "spaces w" and "spaces w'" and "payload = w @ bytes @ w'"
    and "is_ok (from_utf8 0 payload)" and "length payload \<le> unat (maximum_payload_bytes limits)"
  shows "read_payload limits payload =
    (if unat (maximum_nesting_depth limits) < json_depth v
     then Inl (NestingTooDeep (of_nat (json_depth v)) (maximum_nesting_depth limits))
     else if unat (maximum_collection_items limits) < json_items v
     then Inl (CollectionTooLarge (of_nat (json_items v)) (maximum_collection_items limits))
     else Inr payload)"
  by (rule read_payload_document [OF assms])

section \<open>Instances\<close>

text \<open>The limits of the committed foundation contract.\<close>

definition foundation_limits :: framing_limits where
  "foundation_limits = \<lparr>length_prefix_bytes = 4, maximum_payload_bytes = 1048576,
     maximum_nesting_depth = 64, maximum_collection_items = 1024\<rparr>"

lemma foundation_limits_fit: "prefix_fits foundation_limits"
  by (simp add: prefix_fits_def foundation_limits_def prefix_length_def)

text \<open>The texts \<open>[1]\<close> and \<open>{}\<close>.\<close>

lemma example_text: "json_text (Array [Scalar [0x31]]) [0x5B, 0x31, 0x5D]"
proof -
  have "json_text (Scalar [0x31]) [0x31]" by (rule scalar) (simp_all add: ordinary_def INSIGNIFICANT_BYTES_def)
  then have "json_elements [Scalar [0x31]] ([] @ [0x31] @ [])" by (intro last_element) (simp_all add: spaces_def)
  from some_elements [OF this] show ?thesis by simp
qed

lemma example_utf8: "from_utf8 0 [0x5B, 0x31, 0x5D] = Inr ()" "from_utf8 0 [0x7B, 0x7D] = Inr ()"
  by (simp_all add: utf8_sequence_def)

lemma example_accepted:
  "read_payload foundation_limits [0x5B, 0x31, 0x5D] = Inr [0x5B, 0x31, 0x5D]"
  "read_payload foundation_limits [0x7B, 0x7D] = Inr [0x7B, 0x7D]"
proof -
  show "read_payload foundation_limits [0x5B, 0x31, 0x5D] = Inr [0x5B, 0x31, 0x5D]"
    using read_payload_document [OF example_text, of "[]" "[]" "[0x5B, 0x31, 0x5D]" foundation_limits] example_utf8
    by (simp add: spaces_def foundation_limits_def)
  show "read_payload foundation_limits [0x7B, 0x7D] = Inr [0x7B, 0x7D]"
    using read_payload_document [OF no_members [of "[]"], of "[]" "[]" "[0x7B, 0x7D]" foundation_limits] example_utf8
    by (simp add: spaces_def foundation_limits_def)
qed

definition example_chunks :: "byte list list" where
  "example_chunks = [[0], [0, 0, 3, 0x5B], [0x31, 0x5D, 0, 0, 0, 2, 0x7B, 0x7D]]"

lemma example_prefix: "rev [0..<4] = [3, 2, 1, 0::nat]"
  by (simp add: upt_rec)

lemma example_frames:
  "render foundation_limits [0x5B, 0x31, 0x5D] = Inr [0, 0, 0, 3, 0x5B, 0x31, 0x5D]"
  "render foundation_limits [0x7B, 0x7D] = Inr [0, 0, 0, 2, 0x7B, 0x7D]"
  by (simp_all add: render_def foundation_limits_def prefix_length_def prefix_octet_def example_prefix)

theorem local_frames_roundtrip_witness:
  "\<exists>answers. feed (absorb foundation_limits) local_reader_new (example_chunks @ [[], []]) =
      (local_reader_new, Inr answers) \<and> yielded answers = [[0x5B, 0x31, 0x5D], [0x7B, 0x7D]]"
  using local_frames_roundtrip [OF foundation_limits_fit,
      of "[[0x5B, 0x31, 0x5D], [0x7B, 0x7D]]" "[[0, 0, 0, 3, 0x5B, 0x31, 0x5D], [0, 0, 0, 2, 0x7B, 0x7D]]" example_chunks]
    example_accepted example_frames
  by (simp add: example_chunks_def)

theorem local_reader_conserves_bytes_witness:
  "\<exists>frames. concat [[0], [0, 0]] = concat frames @ buffer \<lparr>buffer = [0, 0, 0], reader_poisoned = False\<rparr> \<and>
    list_all2 (framed foundation_limits) frames (yielded [None, None])"
  using local_reader_conserves_bytes [of foundation_limits "[[0], [0, 0]]" "\<lparr>buffer = [0, 0, 0], reader_poisoned = False\<rparr>" "[None, None]"]
  by (simp add: absorb_def local_reader_new_def checked_progress_def progress_def foundation_limits_def prefix_length_def)

text \<open>Two scalars, and a container closed by the other bracket, pass the scan, although a frame is
  documented to hold exactly one value.\<close>

lemma two_scalars_accepted: "read_payload foundation_limits [0x31, 0x20, 0x32] = Inr [0x31, 0x20, 0x32]"
  by (simp add: read_payload_def foundation_limits_def utf8_sequence_def scan_def scan_default_def
      starts_second_value_def scan_octet_def INSIGNIFICANT_BYTES_def mark_entry_def)

lemma mismatched_brackets_accepted: "read_payload foundation_limits [0x7B, 0x5D] = Inr [0x7B, 0x5D]"
  by (simp add: read_payload_def foundation_limits_def utf8_sequence_def scan_def scan_default_def
      starts_second_value_def scan_octet_def INSIGNIFICANT_BYTES_def mark_entry_def
      open_container_def close_container_def Let_def)

text \<open>An object counts each of its members twice against the limit on its entries.\<close>

lemma object_entries_count_twice:
  "list_all (\<lambda>m. json_items (snd m) = 0) ms \<Longrightarrow> json_items (Object ms) = 2 * length ms"
proof -
  have "list_all (\<lambda>m. json_items (snd m) = 0) ms \<Longrightarrow> foldr (\<lambda>m n. max (json_items (snd m)) n) ms k = k" for k
    by (induction ms) auto
  then show "list_all (\<lambda>m. json_items (snd m) = 0) ms \<Longrightarrow> json_items (Object ms) = 2 * length ms" by simp
qed

end
