(* ===== verification/Response_Policy.thy ===== *)
theory Response_Policy
  imports Response_Head Rust_Text
begin

text \<open>
  The policy every author response is held to before its body is read,
  \<open>crates/slingshot-agent-connection/src/author_hypertext_transfer_protocol_policy.rs\<close>: the refusals, the
  incremental bounds of a head (whose bounds are in \<open>Response_Head\<close>), the acceptable head, the deadlines of
  an exchange and the delay before a retry.
\<close>

section \<open>Refusals and the accepted head\<close>

definition PERMITTED_PROTOCOL_VERSIONS :: "str list" where
  "PERMITTED_PROTOCOL_VERSIONS = [text_of ''HTTP/1.1'', text_of ''HTTP/2'']"

definition PERMITTED_CONTENT_CODINGS :: "str list" where
  "PERMITTED_CONTENT_CODINGS = [text_of ''identity'']"

datatype response_refusal =
    ProtocolVersion str
  | MigrationAttempted string
  | FieldTooLong u64 nat
  | TooManyFields u64 nat
  | HeadTooLong u64 nat
  | UnexpectedContentCoding str
  | TrailersDeclared
  | RedirectOffered str

record response_head =
  content_coding :: "str option"
  location :: "str option"
  protocol_version :: str
  trailers_declared :: bool
  alternative_service_offered :: bool
  informational :: bool

definition require_acceptable :: "response_head \<Rightarrow> response_refusal + unit" where
  "require_acceptable self =
     (if protocol_version self \<notin> set PERMITTED_PROTOCOL_VERSIONS
      then Inl (ProtocolVersion (protocol_version self))
      else if informational self then Inl (MigrationAttempted ''an informational head'')
      else if alternative_service_offered self then Inl (MigrationAttempted ''an alternative service'')
      else if trailers_declared self then Inl TrailersDeclared
      else (case content_coding self of
          Some coding \<Rightarrow>
            if coding \<notin> set PERMITTED_CONTENT_CODINGS then Inl (UnexpectedContentCoding coding)
            else (case location self of Some l \<Rightarrow> Inl (RedirectOffered l) | None \<Rightarrow> Inr ())
        | None \<Rightarrow> (case location self of Some l \<Rightarrow> Inl (RedirectOffered l) | None \<Rightarrow> Inr ())))"

section \<open>The bounds of a head\<close>

record policy_head_reader =
  policy_bounds :: head_bounds
  read_bytes :: nat
  read_fields :: nat

definition policy_reader_new :: "head_bounds \<Rightarrow> policy_head_reader" where
  "policy_reader_new held = \<lparr>policy_bounds = held, read_bytes = 0, read_fields = 0\<rparr>"

text \<open>A length as the \<open>u64\<close> it is compared as, the largest one if it does not fit.\<close>

definition as_u64_length :: "nat \<Rightarrow> u64" where
  "as_u64_length n = (if n < 2 ^ 64 then of_nat n else - 1)"

definition read_field ::
  "byte list \<times> byte list \<Rightarrow> (policy_head_reader, response_refusal, unit) receiver" where
  "read_field named self =
     (let field = length (fst named) + length (snd named); fields' = read_fields self + 1;
          bytes = read_bytes self + field
      in if as_u64_length field > field_bytes (policy_bounds self)
         then (self, Inl (FieldTooLong (field_bytes (policy_bounds self)) field))
         else if as_u64_length fields' > field_count (policy_bounds self)
         then (self, Inl (TooManyFields (field_count (policy_bounds self)) fields'))
         else if as_u64_length bytes > head_bytes (policy_bounds self)
         then (self, Inl (HeadTooLong (head_bytes (policy_bounds self)) bytes))
         else (self\<lparr>read_fields := fields', read_bytes := bytes\<rparr>, Inr ()))"

section \<open>Deadlines and retries\<close>

record exchange_deadlines =
  connect_milliseconds :: u64
  transport_layer_security_milliseconds :: u64
  request_body_milliseconds :: u64
  response_header_milliseconds :: u64
  finite_total_milliseconds :: u64
  finite_idle_milliseconds :: u64

definition exchange_deadlines_embedded :: exchange_deadlines where
  "exchange_deadlines_embedded =
     \<lparr>connect_milliseconds = embedded_limit ''author_connect_timeout_milliseconds'',
      transport_layer_security_milliseconds = embedded_limit ''author_tls_timeout_milliseconds'',
      request_body_milliseconds = embedded_limit ''author_request_body_timeout_milliseconds'',
      response_header_milliseconds = embedded_limit ''author_response_header_timeout_milliseconds'',
      finite_total_milliseconds = embedded_limit ''finite_response_total_timeout_milliseconds'',
      finite_idle_milliseconds = embedded_limit ''finite_response_idle_timeout_milliseconds''\<rparr>"

definition inline_submission :: "exchange_deadlines \<Rightarrow> exchange_deadlines" where
  "inline_submission self =
     self\<lparr>response_header_milliseconds :=
       max (response_header_milliseconds self) (finite_total_milliseconds self)\<rparr>"

definition retry_delay_milliseconds :: "u64 option \<Rightarrow> u64" where
  "retry_delay_milliseconds requested =
     (case requested of
        Some asked \<Rightarrow> min asked (embedded_limit ''retry_after_cap_milliseconds'')
      | None \<Rightarrow> embedded_limit ''retry_base_milliseconds'')"

section \<open>What the incremental bounds accept\<close>

lemma as_u64_length_le: "b < - 1 \<Longrightarrow> as_u64_length n \<le> b \<longleftrightarrow> n \<le> unat b"
proof (cases "n < 2 ^ 64")
  case True
  then show ?thesis by (simp add: as_u64_length_def word_le_nat_alt unat_of_nat)
next
  case False
  assume "b < - 1"
  moreover have "n > unat b" using False unsigned_less [of b, where 'a = nat] by simp
  ultimately show ?thesis using False by (auto simp: as_u64_length_def)
qed

lemma embedded_head_bounds [simp]:
  "field_bytes head_bounds_embedded = 8192" "field_count head_bounds_embedded = 64"
  "head_bytes head_bounds_embedded = 32768"
  by (simp_all add: head_bounds_embedded_def contract_simps)

definition field_length :: "byte list \<times> byte list \<Rightarrow> nat" where
  "field_length named = length (fst named) + length (snd named)"

definition policy_reader_at :: "nat \<Rightarrow> nat \<Rightarrow> policy_head_reader" where
  "policy_reader_at bytes count = \<lparr>policy_bounds = head_bounds_embedded, read_bytes = bytes, read_fields = count\<rparr>"

lemma read_field_embedded:
  "is_ok (snd (read_field named (policy_reader_at bytes count))) \<longleftrightarrow>
     field_length named \<le> 8192 \<and> Suc count \<le> 64 \<and> bytes + field_length named \<le> 32768"
  "is_ok (snd (read_field named (policy_reader_at bytes count))) \<Longrightarrow>
     read_field named (policy_reader_at bytes count) = (policy_reader_at (bytes + field_length named) (Suc count), Inr ())"
  using as_u64_length_le [of 8192 "field_length named"] as_u64_length_le [of 64 "Suc count"]
    as_u64_length_le [of 32768 "bytes + field_length named"]
  by (auto simp: read_field_def policy_reader_at_def field_length_def Let_def not_less split: if_splits)

lemma read_fields_embedded:
  "is_ok (snd (feed read_field (policy_reader_at bytes count) fs)) \<longleftrightarrow>
     list_all (\<lambda>f. field_length f \<le> 8192) fs \<and> (fs = [] \<or> count + length fs \<le> 64) \<and>
     (fs = [] \<or> bytes + sum_list (map field_length fs) \<le> 32768)"
proof (induction fs arbitrary: bytes count)
  case (Cons f fs)
  obtain s r where p: "read_field f (policy_reader_at bytes count) = (s, r)" by fastforce
  show ?case
  proof (cases "is_ok r")
    case True
    then have s: "s = policy_reader_at (bytes + field_length f) (Suc count)" "r = Inr ()"
      using read_field_embedded(2) [of f bytes count] p by auto
    have "is_ok (snd (feed read_field (policy_reader_at bytes count) (f # fs))) \<longleftrightarrow> is_ok (snd (feed read_field s fs))"
      using p s by (auto split: prod.splits sum.splits)
    then show ?thesis using Cons.IH [of "bytes + field_length f" "Suc count"] s(1) True p
        read_field_embedded(1) [of f bytes count]
      by (cases "fs = []") (auto simp: add.assoc)
  next
    case False
    then show ?thesis using p read_field_embedded(1) [of f bytes count]
      by (cases r) (auto simp: trans_le_add1)
  qed
qed simp

text \<open>Checking a response head field by field decides what checking the whole head would: the fields
  are all read exactly when no field, their number and their total length stay within the contract's
  bounds.\<close>

lemma head_fields_read_iff:
  "is_ok (snd (feed read_field (policy_reader_new head_bounds_embedded) fs)) \<longleftrightarrow>
     list_all (\<lambda>f. field_length f \<le> 8192) fs \<and> length fs \<le> 64 \<and> sum_list (map field_length fs) \<le> 32768"
  using read_fields_embedded [of 0 0 fs]
  by (cases "fs = []") (simp_all add: policy_reader_new_def policy_reader_at_def)

end
