(* ===== verification/Canonical_Json.thy ===== *)
theory Canonical_Json
  imports Rust_Text Remote_Jobs "HOL-Library.Multiset"
begin

text \<open>
  The byte contract of command documents, \<open>crates/slingshot-domain/src/command/canonical_json.rs\<close>: the
  one spelling of a value over which digests are taken, the check that bytes are that spelling, and the
  check that arrays the contract calls sets ascend and repeat nothing.  A parsed value is the tree of the
  JSON library, whose objects hold their members in the order of their names; the library's parser and
  the SHA-256 function are parameters.
\<close>

unbundle bit_operations_syntax

section \<open>Writing a value\<close>

datatype number = PosInt u64 | NegInt int | Float u64

definition as_i64 :: "number \<Rightarrow> int option" where
  "as_i64 n = (case n of
       PosInt p \<Rightarrow> if p \<le> 0x7FFFFFFFFFFFFFFF then Some (uint p) else None
     | NegInt i \<Rightarrow> Some i
     | Float _ \<Rightarrow> None)"

definition as_u64 :: "number \<Rightarrow> u64 option" where
  "as_u64 n = (case n of PosInt p \<Rightarrow> Some p | _ \<Rightarrow> None)"

datatype json_value =
    Null
  | Bool bool
  | Number number
  | String str
  | Array "json_value list"
  | Object "(str \<times> json_value) list"

datatype canonical_failure =
    NotUnicode
  | ByteOrderMark
  | InsignificantWhitespace
  | NotOneValue
  | MembersNotAscending
  | MemberRepeated
  | EscapeNotCanonical
  | IntegerNotMinimal
  | NumberNotIntegral
  | ArrayNotOrdered str
  | ArrayItemNotKeyed str
  | ComparatorUnknown str

definition show_int :: "int \<Rightarrow> str" where
  "show_int i = (if i < 0 then text_of ''-'' @ text_of (show_nat (nat (- i))) else text_of (show_nat (nat i)))"

definition write_number :: "number \<Rightarrow> canonical_failure + str" where
  "write_number number =
     (case as_i64 number of
        Some value' \<Rightarrow> Inr (show_int value')
      | None \<Rightarrow>
          (case as_u64 number of
             Some value' \<Rightarrow> Inr (show_int (uint value'))
           | None \<Rightarrow> Inl NumberNotIntegral))"

text \<open>One lowercase hexadecimal digit and the format \<open>{:04x}\<close> of a character below \<open>0x10000\<close>.\<close>

definition hex_digit :: "uchar \<Rightarrow> uchar" where
  "hex_digit n = (if n < 10 then 0x30 + n else 0x57 + n)"

definition hex4 :: "uchar \<Rightarrow> str" where
  "hex4 c = map (\<lambda>k. hex_digit (drop_bit k c AND 0x0F)) [12, 8, 4, 0]"

definition write_character :: "uchar \<Rightarrow> str" where
  "write_character c =
     (if c = 0x22 then [0x5C, 0x22]
      else if c = 0x5C then [0x5C, 0x5C]
      else if is_control c then [0x5C, 0x75] @ hex4 c
      else [c])"

definition write_string :: "str \<Rightarrow> str" where
  "write_string s = 0x22 # concat (map write_character s) @ [0x22]"

definition ascending_names :: "(str \<times> 'v) list \<Rightarrow> (str \<times> 'v) list" where
  "ascending_names members = sort_key (as_bytes \<circ> fst) members"

lemma size_ascending_names [simp]: "size_list f (ascending_names ms) = size_list f ms"
proof -
  have "size_list f xs = sum_mset (image_mset f (mset xs)) + size (mset xs)" for xs
    by (induction xs) simp_all
  then show ?thesis by (simp add: ascending_names_def)
qed

function (sequential) write_value :: "json_value \<Rightarrow> canonical_failure + str"
  and write_items :: "bool \<Rightarrow> json_value list \<Rightarrow> canonical_failure + str"
  and write_members :: "bool \<Rightarrow> (str \<times> json_value) list \<Rightarrow> canonical_failure + str" where
  "write_value Null = Inr (text_of ''null'')"
| "write_value (Bool True) = Inr (text_of ''true'')"
| "write_value (Bool False) = Inr (text_of ''false'')"
| "write_value (Number number) = write_number number"
| "write_value (String s) = Inr (write_string s)"
| "write_value (Array items) = bindE (write_items True items) (\<lambda>w. Inr (0x5B # w @ [0x5D]))"
| "write_value (Object members) =
     bindE (write_members True (ascending_names members)) (\<lambda>w. Inr (0x7B # w @ [0x7D]))"
| "write_items leading [] = Inr []"
| "write_items leading (item # items) =
     bindE (write_value item) (\<lambda>w. bindE (write_items False items) (\<lambda>ws.
       Inr ((if leading then [] else [0x2C]) @ w @ ws)))"
| "write_members leading [] = Inr []"
| "write_members leading ((name, member) # members) =
     bindE (write_value member) (\<lambda>w. bindE (write_members False members) (\<lambda>ws.
       Inr ((if leading then [] else [0x2C]) @ write_string name @ 0x3A # w @ ws)))"
  by pat_completeness auto

termination
  by (relation "measure (\<lambda>x. case x of Inl v \<Rightarrow> size v
      | Inr (Inl (_, vs)) \<Rightarrow> size_list size vs
      | Inr (Inr (_, ms)) \<Rightarrow> size_list (size_prod (\<lambda>_. 0) size) ms)") auto


definition write_canonical :: "json_value \<Rightarrow> canonical_failure + str" where
  "write_canonical v = write_value v"

section \<open>Requiring canonical bytes\<close>

text \<open>One string read out of raw text, from after its opening quote: what it spells, and the text after
  its closing quote.\<close>

fun read_string :: "bool \<Rightarrow> str \<Rightarrow> str \<times> str" where
  "read_string escaped [] = ([], [])"
| "read_string escaped (c # cs) =
     (if escaped then (let (v, rest) = read_string False cs in (c # v, rest))
      else if c = 0x5C then read_string True cs
      else if c = 0x22 then ([], cs)
      else (let (v, rest) = read_string False cs in (c # v, rest)))"

definition compare_member :: "str option \<Rightarrow> str \<Rightarrow> canonical_failure + str option" where
  "compare_member seen name =
     (case seen of
        None \<Rightarrow> Inr (Some name)
      | Some earlier \<Rightarrow>
          (case cmp (as_bytes earlier) (as_bytes name) of
             Less \<Rightarrow> Inr (Some name)
           | Equal \<Rightarrow> Inl MemberRepeated
           | Greater \<Rightarrow> Inl MembersNotAscending))"

text \<open>The loop over the characters of the text, with the last name seen in each open object, innermost
  first.  A quote reads a string ahead and the loop goes on with the character after the quote.\<close>

fun member_order :: "str option list \<Rightarrow> str \<Rightarrow> canonical_failure + unit" where
  "member_order previous [] = Inr ()"
| "member_order previous (c # cs) =
     (if c = 0x22
      then (let (name, rest) = read_string False cs in
            case previous of
              [] \<Rightarrow> member_order previous cs
            | seen # outer \<Rightarrow>
                if rest \<noteq> [] \<and> hd rest = 0x3A
                then (case compare_member seen name of
                        Inl failure \<Rightarrow> Inl failure
                      | Inr seen' \<Rightarrow> member_order (seen' # outer) cs)
                else member_order previous cs)
      else if c = 0x7B then member_order (None # previous) cs
      else if c = 0x7D then member_order (tl previous) cs
      else member_order previous cs)"

definition require_member_order :: "str \<Rightarrow> canonical_failure + unit" where
  "require_member_order s = member_order [] s"

definition BYTE_ORDER_MARK :: "byte list" where
  "BYTE_ORDER_MARK = [0xEF, 0xBB, 0xBF]"

text \<open>\<open>from_str\<close> is the JSON parser of the library.\<close>

definition require_canonical_bytes ::
  "(str \<Rightarrow> json_value option) \<Rightarrow> byte list \<Rightarrow> canonical_failure + json_value" where
  "require_canonical_bytes from_str bytes =
     (if take 3 bytes = BYTE_ORDER_MARK then Inl ByteOrderMark
      else if \<not> is_ok (from_utf8 0 bytes) then Inl NotUnicode
      else let s = utf8_chars bytes in
        if s \<noteq> trim s then Inl InsignificantWhitespace
        else (case from_str s of
                None \<Rightarrow> Inl NotOneValue
              | Some v \<Rightarrow>
                  bindE (require_member_order s) (\<lambda>_.
                  bindE (write_canonical v) (\<lambda>written.
                    if written \<noteq> s then Inl EscapeNotCanonical else Inr v))))"

section \<open>Array order\<close>

definition PRESERVE_COMPARATOR :: str where
  "PRESERVE_COMPARATOR = text_of ''preserve''"

definition COMPARATOR_MEMBERS :: "(str \<times> str list) list" where
  "COMPARATOR_MEMBERS = map (\<lambda>(c, ms). (text_of c, map text_of ms))
    [(''repository_path_utf8_ascending_unique'', [''repository_path'']),
     (''agent_identifier_utf8_ascending_unique'', [''agent_identifier'']),
     (''authorizable_identifier_utf8_ascending_unique'', [''authorizable_identifier'']),
     (''entry_identifier_utf8_ascending_unique'', [''entry_identifier'']),
     (''entry_path_utf8_ascending_unique'', [''entry_path'']),
     (''instance_identifier_utf8_ascending_unique'', [''instance_identifier'']),
     (''job_identifier_utf8_ascending_unique'', [''job_identifier'']),
     (''model_identifier_utf8_ascending_unique'', [''model_identifier'']),
     (''name_utf8_ascending_unique'', [''name'']),
     (''persistent_identifier_utf8_ascending_unique'', [''persistent_identifier'']),
     (''queue_name_utf8_ascending_unique'', [''queue_name'']),
     (''symbolic_name_then_version_utf8_ascending_unique'', [''symbolic_name'', ''version'']),
     (''work_item_identifier_utf8_ascending_unique'', [''work_item_identifier''])]"

definition DECLARED_COMPARATORS :: "str list" where
  "DECLARED_COMPARATORS = PRESERVE_COMPARATOR # text_of ''utf8_ascending_unique'' #
     text_of ''repository_path_utf8_ascending_unique'' #
     text_of ''relative_repository_path_utf8_ascending_unique'' # map fst (tl COMPARATOR_MEMBERS)"

text \<open>A \<open>BTreeMap\<close> is its entries in the order of their keys.\<close>

type_synonym array_order_inventory = "(str \<times> str) list"

fun inventory_new :: "(str \<times> str) list \<Rightarrow> canonical_failure + unit" where
  "inventory_new [] = Inr ()"
| "inventory_new ((pointer, comparator) # pointers) =
     (if comparator \<notin> set DECLARED_COMPARATORS then Inl (ComparatorUnknown pointer)
      else inventory_new pointers)"

definition array_order_inventory_new :: "(str \<times> str) list \<Rightarrow> canonical_failure + array_order_inventory" where
  "array_order_inventory_new pointers = bindE (inventory_new pointers) (\<lambda>_. Inr pointers)"

definition comparator :: "array_order_inventory \<Rightarrow> str \<Rightarrow> str" where
  "comparator inventory pointer =
     (case map_of inventory pointer of None \<Rightarrow> PRESERVE_COMPARATOR | Some c \<Rightarrow> c)"

text \<open>\<open>Value::get\<close> by a name: only an object has members.\<close>

definition get_member :: "json_value \<Rightarrow> str \<Rightarrow> json_value option" where
  "get_member item name = (case item of Object members \<Rightarrow> map_of members name | _ \<Rightarrow> None)"

definition comparison_key :: "json_value \<Rightarrow> str \<Rightarrow> json_value option" where
  "comparison_key item comparator' =
     (case map_of COMPARATOR_MEMBERS comparator' of
        None \<Rightarrow> Some item
      | Some members \<Rightarrow>
          let keyed = List.map_filter (get_member item) members in
          if length keyed = length members then Some (Array keyed) else None)"

fun ascending_from :: "str option \<Rightarrow> json_value list \<Rightarrow> str \<Rightarrow> str \<Rightarrow> canonical_failure + unit" where
  "ascending_from previous [] pointer comparator' = Inr ()"
| "ascending_from previous (item # items) pointer comparator' =
     (case comparison_key item comparator' of
        None \<Rightarrow> Inl (ArrayItemNotKeyed pointer)
      | Some keyed \<Rightarrow>
          bindE (write_canonical keyed) (\<lambda>written.
            if (case previous of None \<Rightarrow> False | Some earlier \<Rightarrow> as_bytes earlier \<ge> as_bytes written)
            then Inl (ArrayNotOrdered pointer)
            else ascending_from (Some written) items pointer comparator'))"

definition require_ascending_unique :: "json_value list \<Rightarrow> str \<Rightarrow> str \<Rightarrow> canonical_failure + unit" where
  "require_ascending_unique items pointer comparator' = ascending_from None items pointer comparator'"

fun require_array_order_at :: "json_value \<Rightarrow> array_order_inventory \<Rightarrow> str \<Rightarrow> canonical_failure + unit"
  and require_items_order :: "nat \<Rightarrow> json_value list \<Rightarrow> array_order_inventory \<Rightarrow> str \<Rightarrow> canonical_failure + unit"
  and require_members_order :: "(str \<times> json_value) list \<Rightarrow> array_order_inventory \<Rightarrow> str \<Rightarrow> canonical_failure + unit" where
  "require_array_order_at (Array items) inventory pointer =
     bindE (let c = comparator inventory pointer in
            if c \<noteq> PRESERVE_COMPARATOR then require_ascending_unique items pointer c else Inr ())
       (\<lambda>_. require_items_order 0 items inventory pointer)"
| "require_array_order_at (Object members) inventory pointer = require_members_order members inventory pointer"
| "require_array_order_at _ inventory pointer = Inr ()"
| "require_items_order position [] inventory pointer = Inr ()"
| "require_items_order position (item # items) inventory pointer =
     bindE (require_array_order_at item inventory (pointer @ 0x2F # text_of (show_nat position)))
       (\<lambda>_. require_items_order (Suc position) items inventory pointer)"
| "require_members_order [] inventory pointer = Inr ()"
| "require_members_order ((name, member) # members) inventory pointer =
     bindE (require_array_order_at member inventory (pointer @ 0x2F # name))
       (\<lambda>_. require_members_order members inventory pointer)"

definition require_array_order :: "json_value \<Rightarrow> array_order_inventory \<Rightarrow> canonical_failure + unit" where
  "require_array_order v inventory = require_array_order_at v inventory []"

text \<open>\<open>sha256\<close> is the digest of the library.\<close>

definition hex_octet :: "byte \<Rightarrow> str" where
  "hex_octet b = [hex_digit (ucast (drop_bit 4 b)), hex_digit (ucast (b AND 0x0F))]"

definition canonical_digest :: "(byte list \<Rightarrow> byte list) \<Rightarrow> str \<Rightarrow> str" where
  "canonical_digest sha256 canonical = concat (map hex_octet (sha256 (as_bytes canonical)))"

section \<open>One spelling for every value\<close>

fun wf_number :: "number \<Rightarrow> bool" where
  "wf_number (NegInt i) = (- (2 ^ 63) \<le> i \<and> i < 0)"
| "wf_number _ = True"

text \<open>A value as the library builds it: an integer that fits is never a negative one, and the members of
  an object ascend by their names.\<close>

fun wf_value :: "json_value \<Rightarrow> bool" where
  "wf_value (Number n) = wf_number n"
| "wf_value (Array vs) = list_all wf_value vs"
| "wf_value (Object ms) =
     (sorted_wrt (\<lambda>a b. as_bytes (fst a) < as_bytes (fst b)) ms \<and> list_all (\<lambda>m. wf_value (snd m)) ms)"
| "wf_value _ = True"

lemma ascending_names_id:
  "sorted_wrt (\<lambda>a b. as_bytes (fst a) < as_bytes (fst b)) ms \<Longrightarrow> ascending_names ms = ms"
  unfolding ascending_names_def
  by (rule sort_key_id_if_sorted) (auto simp: sorted_wrt_map intro: sorted_wrt_mono_rel [rotated] less_imp_le)

lemma hex_digit_inj: "n < 16 \<Longrightarrow> m < 16 \<Longrightarrow> hex_digit n = hex_digit m \<Longrightarrow> n = m"
  by (auto simp: hex_digit_def word_less_nat_alt word_unat_eq_iff unat_word_ariths split: if_splits)

lemma nibble: "(w::uchar) AND 0x0F = take_bit 4 w"
  by (simp add: take_bit_eq_mask mask_eq_exp_minus_1)

lemma nibble_less: "take_bit 4 (w::uchar) < 16"
  using take_bit_nat_less_exp [of 4 "unat w"] by (simp add: word_less_nat_alt unsigned_take_bit_eq)

lemma hex4_inj:
  assumes "c < 0x10000" "d < 0x10000" "hex4 c = hex4 d"
  shows "c = d"
proof (rule bit_eqI)
  fix n
  assume "possible_bit TYPE(uchar) n"
  have eq: "take_bit 4 (drop_bit k c) = take_bit 4 (drop_bit k d)" if "k \<in> set [12, 8, 4, 0]" for k
    using assms(3) that by (auto simp: hex4_def nibble intro!: hex_digit_inj [OF nibble_less nibble_less])
  have high: "\<not> bit w n" if "w < 0x10000" "16 \<le> n" for w :: uchar and n
  proof -
    have "take_bit 16 w = w" using that(1) by (simp add: word_unat_eq_iff word_less_nat_alt unsigned_take_bit_eq take_bit_nat_eq_self)
    then show ?thesis using that(2) by (metis bit_take_bit_iff not_le)
  qed
  show "bit c n = bit d n"
  proof (cases "16 \<le> n")
    case True
    then show ?thesis using high assms by simp
  next
    case False
    define k where "k = n div 4 * 4"
    have "k \<in> set [12, 8, 4, 0]" "n - k < 4" "k \<le> n" using False by (auto simp: k_def)
    then have "bit (take_bit 4 (drop_bit k c)) (n - k) = bit (take_bit 4 (drop_bit k d)) (n - k)"
      using eq by simp
    then show ?thesis using \<open>n - k < 4\<close> \<open>k \<le> n\<close> by (simp add: bit_simps)
  qed
qed


lemma write_character_start: obtains y ys where "write_character c = y # ys" "y \<noteq> 0x22"
proof -
  have "\<exists>y ys. write_character c = y # ys \<and> y \<noteq> 0x22" by (auto simp: write_character_def)
  then show thesis using that by blast
qed

lemma write_character_prefix:
  "write_character c @ r = write_character d @ r' \<Longrightarrow> c = d \<and> r = r'"
  using hex4_inj [of c d]
  by (auto simp: write_character_def is_control_def word_less_nat_alt word_le_nat_alt hex4_def split: if_splits)

lemma write_string_chars_prefix:
  "concat (map write_character s) @ 0x22 # r = concat (map write_character t) @ 0x22 # r' \<Longrightarrow> s = t \<and> r = r'"
proof (induction s arbitrary: t)
  case Nil
  show ?case
  proof (cases t)
    case (Cons d t')
    obtain y ys where "write_character d = y # ys" "y \<noteq> 0x22" by (rule write_character_start)
    then show ?thesis using Nil Cons by simp
  qed (use Nil in simp)
next
  case (Cons c s)
  obtain y ys where "write_character c = y # ys" "y \<noteq> 0x22" by (rule write_character_start)
  then obtain d t' where t: "t = d # t'" using Cons.prems by (cases t) auto
  have "write_character c @ (concat (map write_character s) @ 0x22 # r) =
      write_character d @ (concat (map write_character t') @ 0x22 # r')" using Cons.prems t by simp
  from write_character_prefix [OF this] show ?case using Cons.IH t by blast
qed

lemma write_string_prefix: "write_string s @ r = write_string t @ r' \<Longrightarrow> s = t \<and> r = r'"
  using write_string_chars_prefix [of s r t r'] by (auto simp: write_string_def)

lemma of_char_u32: "(of_char c :: uchar) = of_nat (of_char c)"
  by (simp add: of_nat_of_char)

lemma unat_of_char_u32 [simp]: "unat (of_char c :: uchar) = of_char c"
proof -
  have "(of_char c :: nat) < 4294967296" by (rule less_trans [OF nat_of_char_less_256]) simp
  then show ?thesis unfolding of_char_u32 by (simp add: unat_of_nat del: of_nat_of_char)
qed

lemma text_of_inj: "text_of s = text_of t \<longleftrightarrow> s = t"
proof -
  have "inj (of_char :: char \<Rightarrow> uchar)" by (rule injI) (metis unat_of_char_u32 of_char_eq_iff)
  then show ?thesis by (simp add: text_of_def inj_map_eq_map)
qed

definition digit :: "uchar \<Rightarrow> bool" where
  "digit c \<longleftrightarrow> 0x30 \<le> c \<and> c \<le> 0x39"

lemma show_nat_ascii: "list_all digit (text_of (show_nat n))"
proof -
  have "digit (of_char c)" if "c \<in> set (show_nat n)" for c
    using show_nat_digits [OF that]
    by (simp add: digit_def word_le_nat_alt digit_value_def split: if_splits)
  then show ?thesis by (simp add: list_all_iff text_of_def)
qed

lemma show_nat_inj: "n < 2 ^ 64 \<Longrightarrow> m < 2 ^ 64 \<Longrightarrow> show_nat n = show_nat m \<Longrightarrow> n = m"
  by (metis parse_digits_show option.inject)

text \<open>What may follow a value inside a document.\<close>

definition ends :: "str \<Rightarrow> bool" where
  "ends r \<longleftrightarrow> r = [] \<or> hd r = 0x2C \<or> hd r = 0x5D \<or> hd r = 0x7D"

lemma digits_prefix:
  assumes "list_all digit a" "list_all digit b" "a @ r = b @ r'" "ends r" "ends r'"
  shows "a = b \<and> r = r'"
proof -
  have stop: "takeWhile digit r = []" if "ends r" for r using that by (cases r) (auto simp: ends_def digit_def)
  have "takeWhile digit (a @ r) = a" "takeWhile digit (b @ r') = b"
    using assms(1,2) stop [OF assms(4)] stop [OF assms(5)] by (auto simp: takeWhile_append list_all_iff)
  then show ?thesis using assms(3) by simp
qed

lemma nat_bound: "k < 2 ^ 64 \<Longrightarrow> nat k < 2 ^ 64"
  by (cases "0 \<le> k") (simp_all add: nat_less_iff)

lemma show_int_prefix:
  assumes "\<bar>i\<bar> < 2 ^ 64" "\<bar>j\<bar> < 2 ^ 64" "show_int i @ r = show_int j @ r'" "ends r" "ends r'"
  shows "i = j \<and> r = r'"
proof -
  have digits: "text_of (show_nat n) = text_of (show_nat m) \<and> r = r'"
    if "text_of (show_nat n) @ r = text_of (show_nat m) @ r'" for n m
    using digits_prefix [OF show_nat_ascii show_nat_ascii that assms(4,5)] .
  have minus: "text_of ''-'' @ x \<noteq> text_of (show_nat n) @ y" for x y n
    using show_nat_ascii [of n] show_nat_nonempty [of n]
    by (cases "show_nat n") (auto simp: text_of_def digit_def)
  have same: "n = m \<and> r = r'" if "text_of (show_nat n) @ r = text_of (show_nat m) @ r'" "n < 2 ^ 64" "m < 2 ^ 64" for n m
    using digits [OF that(1)] that(2,3) show_nat_inj by (simp add: text_of_inj)
  have bound: "nat i < 2 ^ 64" "nat j < 2 ^ 64" "nat (- i) < 2 ^ 64" "nat (- j) < 2 ^ 64"
    using assms(1,2) by (auto simp: abs_less_iff intro!: nat_bound)
  consider "i < 0" "j < 0" | "i < 0" "\<not> j < 0" | "\<not> i < 0" "j < 0" | "\<not> i < 0" "\<not> j < 0" by blast
  then show ?thesis
  proof cases
    case 1
    then have "text_of (show_nat (nat (- i))) @ r = text_of (show_nat (nat (- j))) @ r'"
      using assms(3) by (simp add: show_int_def)
    then have "nat (- i) = nat (- j) \<and> r = r'" using same bound(3,4) by blast
    then show ?thesis using 1 by (auto simp: eq_nat_nat_iff)
  next
    case 2
    then show ?thesis using assms(3) minus by (simp add: show_int_def)
  next
    case 3
    then show ?thesis using assms(3) minus by (metis append_assoc show_int_def)
  next
    case 4
    then have "text_of (show_nat (nat i)) @ r = text_of (show_nat (nat j)) @ r'"
      using assms(3) by (simp add: show_int_def)
    then have "nat i = nat j \<and> r = r'" using same bound(1,2) by blast
    then show ?thesis using 4 by (auto simp: eq_nat_nat_iff)
  qed
qed


lemma write_number_shape:
  "write_number n = Inr a \<longleftrightarrow> (\<exists>p. n = PosInt p \<and> a = show_int (uint p)) \<or> (\<exists>i. n = NegInt i \<and> a = show_int i)"
  by (cases n) (auto simp: write_number_def as_i64_def as_u64_def)

lemma uint_bound: "\<bar>uint (p::u64)\<bar> < 2 ^ 64"
  using unsigned_less [of p, where 'a = int] by simp

lemma write_number_prefix:
  assumes "wf_number n" "wf_number m" "write_number n = Inr a" "write_number m = Inr b"
    and "a @ r = b @ r'" "ends r" "ends r'"
  shows "n = m \<and> r = r'"
proof -
  have neg: "\<bar>i\<bar> < 2 ^ 64 \<and> i < 0" if "wf_number (NegInt i)" for i using that by simp
  have "uint (p::u64) = uint q \<Longrightarrow> p = q" for p q by (simp add: word_uint_eq_iff)
  moreover have "\<not> uint (p::u64) < 0" for p by simp
  ultimately show ?thesis
    using assms show_int_prefix [OF _ _ _ assms(6,7)] neg uint_bound
    unfolding write_number_shape by metis
qed

text \<open>The first character of a value tells what it is.\<close>

lemma write_value_start:
  assumes "write_value v = Inr a"
  shows "\<exists>y ys. a = y # ys \<and>
    (case v of Null \<Rightarrow> y = 0x6E | Bool b \<Rightarrow> y = (if b then 0x74 else 0x66) | Number _ \<Rightarrow> y = 0x2D \<or> digit y
     | String _ \<Rightarrow> y = 0x22 | Array _ \<Rightarrow> y = 0x5B | Object _ \<Rightarrow> y = 0x7B)"
proof (cases v)
  case (Number n)
  then obtain i where "a = show_int i" using assms by (auto simp: write_number_shape)
  then show ?thesis using Number show_nat_ascii [of "nat i"] show_nat_nonempty [of "nat i"]
    by (cases "show_nat (nat i)") (auto simp: show_int_def text_of_def)
next
  case (Bool b)
  then show ?thesis using assms by (cases b) (auto simp: text_of_def)
qed (use assms in \<open>auto simp: text_of_def write_string_def result_simps\<close>)

definition uniquely_read :: "json_value \<Rightarrow> bool" where
  "uniquely_read v \<longleftrightarrow> (\<forall>w a b r r'. wf_value w \<longrightarrow> write_value v = Inr a \<longrightarrow> write_value w = Inr b \<longrightarrow>
     a @ r = b @ r' \<longrightarrow> ends r \<longrightarrow> ends r' \<longrightarrow> v = w \<and> r = r')"

lemma write_items_ends: "write_items False vs = Inr a \<Longrightarrow> ends (a @ 0x5D # r)"
  by (cases vs) (auto simp: ends_def result_simps)

lemma write_members_ends: "write_members False ms = Inr a \<Longrightarrow> ends (a @ 0x7D # r)"
  by (cases ms) (auto simp: ends_def result_simps)

lemma write_items_prefix:
  assumes "\<forall>v \<in> set vs. uniquely_read v" "list_all wf_value ws"
    and "write_items leading vs = Inr a" "write_items leading ws = Inr b" "a @ 0x5D # r = b @ 0x5D # r'"
  shows "vs = ws \<and> r = r'"
  using assms
proof (induction vs arbitrary: ws leading a b)
  case Nil
  then show ?case
    by (cases ws) (auto simp: result_simps digit_def split: if_splits json_value.splits dest!: write_value_start)
next
  case (Cons v vs)
  obtain x xs where v: "write_value v = Inr x" "write_items False vs = Inr xs"
    and a: "a = (if leading then [] else [0x2C]) @ x @ xs" using Cons.prems(3) by (auto simp: result_simps)
  show ?case
  proof (cases ws)
    case Nil
    then show ?thesis using Cons.prems v a
      by (auto split: if_splits json_value.splits simp: digit_def dest!: write_value_start)
  next
    case (Cons w ws')
    then obtain y ys where w: "write_value w = Inr y" "write_items False ws' = Inr ys"
      and b: "b = (if leading then [] else [0x2C]) @ y @ ys" using Cons.prems(4) by (auto simp: result_simps)
    have eq: "x @ (xs @ 0x5D # r) = y @ (ys @ 0x5D # r')" using Cons.prems(5) a b by (auto split: if_splits)
    have "v = w \<and> xs @ 0x5D # r = ys @ 0x5D # r'"
      using Cons.prems(1,2) Cons v(1) w(1) eq write_items_ends [OF v(2)] write_items_ends [OF w(2)]
      unfolding uniquely_read_def by (metis list.set_intros(1) list.pred_inject(2))
    then show ?thesis using Cons.IH [of ws' False xs ys] Cons.prems Cons v(2) w(2) by simp
  qed
qed

lemma write_members_prefix:
  assumes "\<forall>m \<in> set ms. uniquely_read (snd m)" "list_all (\<lambda>m. wf_value (snd m)) ns"
    and "write_members leading ms = Inr a" "write_members leading ns = Inr b" "a @ 0x7D # r = b @ 0x7D # r'"
  shows "ms = ns \<and> r = r'"
  using assms
proof (induction ms arbitrary: ns leading a b)
  case Nil
  then show ?case
    by (cases ns) (auto simp: result_simps write_string_def split: if_splits)
next
  case (Cons m ms)
  obtain k v where m: "m = (k, v)" by fastforce
  obtain x xs where v: "write_value v = Inr x" "write_members False ms = Inr xs"
    and a: "a = (if leading then [] else [0x2C]) @ write_string k @ 0x3A # x @ xs"
    using Cons.prems(3) m by (auto simp: result_simps)
  show ?case
  proof (cases ns)
    case Nil
    then show ?thesis using Cons.prems v a by (auto split: if_splits simp: write_string_def)
  next
    case (Cons n ns')
    obtain l w where n: "n = (l, w)" by fastforce
    then obtain y ys where w: "write_value w = Inr y" "write_members False ns' = Inr ys"
      and b: "b = (if leading then [] else [0x2C]) @ write_string l @ 0x3A # y @ ys"
      using Cons.prems(4) Cons by (auto simp: result_simps)
    have "write_string k @ (0x3A # x @ xs @ 0x7D # r) = write_string l @ (0x3A # y @ ys @ 0x7D # r')"
      using Cons.prems(5) a b by (auto split: if_splits)
    then have kl: "k = l" and eq: "x @ (xs @ 0x7D # r) = y @ (ys @ 0x7D # r')"
      using write_string_prefix by blast+
    have "v = w \<and> xs @ 0x7D # r = ys @ 0x7D # r'"
      using Cons.prems(1,2) Cons m n v(1) w(1) eq write_members_ends [OF v(2)] write_members_ends [OF w(2)]
      unfolding uniquely_read_def by (metis list.set_intros(1) list.pred_inject(2) snd_conv)
    then show ?thesis using Cons.IH [of ns' False xs ys] Cons.prems Cons v(2) w(2) kl m n by simp
  qed
qed


lemma write_value_unique: "wf_value v \<Longrightarrow> uniquely_read v"
proof (induction v)
  case Null
  show ?case unfolding uniquely_read_def
  proof (intro allI impI)
    fix w a b r r' assume h: "write_value Null = Inr a" "write_value w = Inr b" "a @ r = b @ r'"
    then show "Null = w \<and> r = r'"
      using write_value_start [OF h(2)] by (cases w) (auto simp: text_of_def digit_def split: if_splits)
  qed
next
  case (Bool x)
  show ?case unfolding uniquely_read_def
  proof (intro allI impI)
    fix w a b r r' assume h: "write_value (Bool x) = Inr a" "write_value w = Inr b" "a @ r = b @ r'"
    then show "Bool x = w \<and> r = r'"
      using write_value_start [OF h(2)] by (cases w; cases x) (auto simp: text_of_def digit_def split: if_splits)
  qed
next
  case (Number n)
  show ?case unfolding uniquely_read_def
  proof (intro allI impI)
    fix w a b r r' assume h: "wf_value w" "write_value (Number n) = Inr a" "write_value w = Inr b" "a @ r = b @ r'"
      "ends r" "ends r'"
    then obtain m where "w = Number m"
      using write_value_start [OF h(2)] write_value_start [OF h(3)] by (cases w) (auto simp: digit_def split: if_splits)
    then show "Number n = w \<and> r = r'" using h Number write_number_prefix [of n m a b r r'] by simp
  qed
next
  case (String s)
  show ?case unfolding uniquely_read_def
  proof (intro allI impI)
    fix w a b r r' assume h: "write_value (String s) = Inr a" "write_value w = Inr b" "a @ r = b @ r'"
    then obtain t where "w = String t"
      using write_value_start [OF h(1)] write_value_start [OF h(2)] by (cases w) (auto simp: digit_def split: if_splits)
    then show "String s = w \<and> r = r'" using h write_string_prefix [of s r t r'] by simp
  qed
next
  case (Array vs)
  have u: "\<forall>v \<in> set vs. uniquely_read v" using Array by (auto simp: list_all_iff)
  show ?case unfolding uniquely_read_def
  proof (intro allI impI)
    fix w a b r r' assume h: "wf_value w" "write_value (Array vs) = Inr a" "write_value w = Inr b" "a @ r = b @ r'"
    then obtain ws where w: "w = Array ws"
      using write_value_start [OF h(2)] write_value_start [OF h(3)] by (cases w) (auto simp: digit_def split: if_splits)
    obtain x y where x: "write_items True vs = Inr x" "a = 0x5B # x @ [0x5D]"
      and y: "write_items True ws = Inr y" "b = 0x5B # y @ [0x5D]" using h w by (auto simp: result_simps)
    then show "Array vs = w \<and> r = r'" using h w write_items_prefix [OF u _ x(1) y(1), of r r'] by simp
  qed
next
  case (Object ms)
  have u: "\<forall>m \<in> set ms. uniquely_read (snd m)" using Object by (auto simp: list_all_iff)
  show ?case unfolding uniquely_read_def
  proof (intro allI impI)
    fix w a b r r' assume h: "wf_value w" "write_value (Object ms) = Inr a" "write_value w = Inr b" "a @ r = b @ r'"
    then obtain ns where w: "w = Object ns"
      using write_value_start [OF h(2)] write_value_start [OF h(3)] by (cases w) (auto simp: digit_def split: if_splits)
    have "ascending_names ms = ms" "ascending_names ns = ns"
      using Object.prems h(1) w by (auto intro: ascending_names_id)
    then obtain x y where x: "write_members True ms = Inr x" "a = 0x7B # x @ [0x7D]"
      and y: "write_members True ns = Inr y" "b = 0x7B # y @ [0x7D]" using h w by (auto simp: result_simps)
    then show "Object ms = w \<and> r = r'" using h w write_members_prefix [OF u _ x(1) y(1), of r r'] by simp
  qed
qed

text \<open>Two values the JSON library can build that are written alike are the same value.\<close>

lemma write_canonical_injective:
  assumes "wf_value v" "wf_value w" "write_canonical v = Inr a" "write_canonical w = Inr a"
  shows "v = w"
  using write_value_unique [OF assms(1)] assms(2-4)
  unfolding uniquely_read_def write_canonical_def by (metis ends_def)


section \<open>Array order, as a property of the document\<close>

text \<open>The arrays of a document with their pointers, and the arrays that ascend under a comparator.\<close>

fun arrays_of :: "json_value \<Rightarrow> str \<Rightarrow> (str \<times> json_value list) list"
  and arrays_of_items :: "nat \<Rightarrow> json_value list \<Rightarrow> str \<Rightarrow> (str \<times> json_value list) list"
  and arrays_of_members :: "(str \<times> json_value) list \<Rightarrow> str \<Rightarrow> (str \<times> json_value list) list" where
  "arrays_of (Array items) pointer = (pointer, items) # arrays_of_items 0 items pointer"
| "arrays_of (Object members) pointer = arrays_of_members members pointer"
| "arrays_of _ pointer = []"
| "arrays_of_items position [] pointer = []"
| "arrays_of_items position (item # items) pointer =
     arrays_of item (pointer @ 0x2F # text_of (show_nat position)) @ arrays_of_items (Suc position) items pointer"
| "arrays_of_members [] pointer = []"
| "arrays_of_members ((name, member) # members) pointer =
     arrays_of member (pointer @ 0x2F # name) @ arrays_of_members members pointer"

definition key_text :: "str \<Rightarrow> json_value \<Rightarrow> str option" where
  "key_text comparator' item =
     Option.bind (comparison_key item comparator') (\<lambda>k. case write_canonical k of Inl _ \<Rightarrow> None | Inr t \<Rightarrow> Some t)"

definition ascending_set :: "str \<Rightarrow> json_value list \<Rightarrow> bool" where
  "ascending_set comparator' items \<longleftrightarrow>
     (let keys = map (key_text comparator') items in
      None \<notin> set keys \<and> sorted_wrt (<) (map (as_bytes \<circ> the) keys))"

lemma ascending_from_iff:
  "ascending_from previous items pointer c = Inr () \<longleftrightarrow>
     ascending_set c items \<and>
     (case previous of None \<Rightarrow> True | Some earlier \<Rightarrow>
        (case items of [] \<Rightarrow> True | item # _ \<Rightarrow> as_bytes earlier < as_bytes (the (key_text c item))))"
proof (induction items arbitrary: previous)
  case Nil
  then show ?case by (simp add: ascending_set_def split: option.split)
next
  case (Cons item items)
  show ?case
  proof (cases "key_text c item")
    case None
    then show ?thesis
      by (auto simp: ascending_set_def key_text_def result_simps split: option.splits sum.splits if_splits)
  next
    case (Some k)
    obtain v where key: "comparison_key item c = Some v"
      using Some by (cases "comparison_key item c") (auto simp: key_text_def)
    then have v: "comparison_key item c = Some v" "write_canonical v = Inr k"
      using Some by (cases "write_canonical v"; simp add: key_text_def)+
    have chain: "ascending_set c (item # items) \<longleftrightarrow> ascending_set c items \<and>
        (case items of [] \<Rightarrow> True | i # _ \<Rightarrow> as_bytes k < as_bytes (the (key_text c i)))"
      using Some by (cases items) (auto simp: ascending_set_def)
    have "ascending_from previous (item # items) pointer c =
        (if (case previous of None \<Rightarrow> False | Some earlier \<Rightarrow> as_bytes earlier \<ge> as_bytes k)
         then Inl (ArrayNotOrdered pointer) else ascending_from (Some k) items pointer c)"
      using v by simp
    then show ?thesis using Cons.IH [of "Some k"] chain Some by (auto split: option.splits)
  qed
qed

definition set_ordered :: "array_order_inventory \<Rightarrow> str \<times> json_value list \<Rightarrow> bool" where
  "set_ordered inventory = (\<lambda>(pointer, items). comparator inventory pointer = PRESERVE_COMPARATOR \<or>
     ascending_set (comparator inventory pointer) items)"

lemma bindE_unit: "bindE m f = Inr () \<longleftrightarrow> m = Inr () \<and> f () = Inr ()" for m :: "'e + unit"
  by (cases m) auto

lemma require_array_order_at_iff:
  "require_array_order_at v inventory pointer = Inr () \<longleftrightarrow> list_all (set_ordered inventory) (arrays_of v pointer)"
  "require_items_order n items inventory pointer = Inr () \<longleftrightarrow>
     list_all (set_ordered inventory) (arrays_of_items n items pointer)"
  "require_members_order members inventory pointer = Inr () \<longleftrightarrow>
     list_all (set_ordered inventory) (arrays_of_members members pointer)"
  by (induction v inventory pointer and n items inventory pointer and members inventory pointer
      rule: require_array_order_at_require_items_order_require_members_order.induct)
    (auto simp: bindE_unit set_ordered_def require_ascending_unique_def ascending_from_iff Let_def)

text \<open>The array check accepts a document exactly when every array whose pointer the inventory gives
  a comparator has a key in every row and its keys ascend strictly by their canonical bytes.\<close>

lemma require_array_order_iff:
  "require_array_order v inventory = Inr () \<longleftrightarrow> list_all (set_ordered inventory) (arrays_of v [])"
  by (simp add: require_array_order_def require_array_order_at_iff)

section \<open>The member scan\<close>

text \<open>The text of a document with its members in the order it holds them, whether that is canonical or
  not: this is what arrives, before any parser has sorted it.\<close>

fun joined :: "str list \<Rightarrow> str" where
  "joined [] = []"
| "joined [t] = t"
| "joined (t # u # ts) = t @ 0x2C # joined (u # ts)"

definition number_text :: "number \<Rightarrow> str" where
  "number_text n = (case n of PosInt p \<Rightarrow> text_of (show_nat (unat p)) | NegInt i \<Rightarrow> show_int i | Float _ \<Rightarrow> [])"

fun document_text :: "json_value \<Rightarrow> str" where
  "document_text Null = text_of ''null''"
| "document_text (Bool b) = text_of (if b then ''true'' else ''false'')"
| "document_text (Number n) = number_text n"
| "document_text (String t) = write_string t"
| "document_text (Array vs) = 0x5B # joined (map document_text vs) @ [0x5D]"
| "document_text (Object ms) =
     0x7B # joined (map (\<lambda>m. write_string (fst m) @ 0x3A # document_text (snd m)) ms) @ [0x7D]"

text \<open>Documents without a fraction, and documents whose members ascend in every object.\<close>

fun integral :: "json_value \<Rightarrow> bool" where
  "integral (Number n) = (case n of Float _ \<Rightarrow> False | _ \<Rightarrow> True)"
| "integral (Array vs) = list_all integral vs"
| "integral (Object ms) = list_all (\<lambda>m. integral (snd m)) ms"
| "integral _ = True"

fun members_ascend :: "json_value \<Rightarrow> bool" where
  "members_ascend (Array vs) = list_all members_ascend vs"
| "members_ascend (Object ms) =
     (sorted_wrt (\<lambda>a b. as_bytes (fst a) < as_bytes (fst b)) ms \<and> list_all (\<lambda>m. members_ascend (snd m)) ms)"
| "members_ascend _ = True"

text \<open>The scan walks through the inside of strings too.  These are the documents it does not lose its
  place in: no string holds a quote or a brace or begins with a colon, and no name holds a control.\<close>

definition scan_safe :: "str \<Rightarrow> bool" where
  "scan_safe t \<longleftrightarrow> list_all (\<lambda>c. c \<notin> {0x22, 0x7B, 0x7D}) t \<and> (t = [] \<or> hd t \<noteq> 0x3A)"

definition name_safe :: "str \<Rightarrow> bool" where
  "name_safe t \<longleftrightarrow> scan_safe t \<and> list_all (\<lambda>c. \<not> is_control c) t"

fun strings_safe :: "json_value \<Rightarrow> bool" where
  "strings_safe (String t) = scan_safe t"
| "strings_safe (Array vs) = list_all strings_safe vs"
| "strings_safe (Object ms) = list_all (\<lambda>m. name_safe (fst m) \<and> strings_safe (snd m)) ms"
| "strings_safe _ = True"

definition quiet :: "str \<Rightarrow> bool" where
  "quiet t \<longleftrightarrow> list_all (\<lambda>c. c \<notin> {0x22, 0x7B, 0x7D}) t"

definition calm :: "str \<Rightarrow> bool" where
  "calm r \<longleftrightarrow> (let rest = snd (read_string False r) in rest = [] \<or> hd rest \<noteq> 0x3A)"

lemma quiet_scan: "quiet a \<Longrightarrow> member_order p (a @ r) = member_order p r"
  by (induction a) (auto simp: quiet_def)

lemma calm_skip: "list_all (\<lambda>c. c \<notin> {0x22, 0x5C}) a \<Longrightarrow> calm (a @ r) = calm r"
  by (induction a) (auto simp: calm_def Let_def split: prod.split)

lemma hex_digit_plain: "hex_digit (take_bit 4 c) \<notin> {0x22, 0x5C, 0x7B, 0x7D}"
  using nibble_less [of c]
  by (auto simp: hex_digit_def word_less_nat_alt word_unat_eq_iff unat_word_ariths split: if_splits)

lemma read_plain: "c \<notin> {0x22, 0x5C} \<Longrightarrow> snd (read_string False (c # cs)) = snd (read_string False cs)"
  by (simp split: prod.split)

lemma read_written_rest: "snd (read_string False (concat (map write_character t) @ 0x22 # r)) = r"
proof (induction t)
  case (Cons c t)
  have "snd (read_string False (hex4 c @ cs)) = snd (read_string False cs)" for cs
    using hex_digit_plain by (simp add: hex4_def nibble read_plain del: read_string.simps)
  then show ?case using Cons by (simp add: write_character_def case_prod_beta')
qed simp

lemma read_written:
  "list_all (\<lambda>c. \<not> is_control c) t \<Longrightarrow> read_string False (concat (map write_character t) @ 0x22 # r) = (t, r)"
  by (induction t) (auto simp: write_character_def)

lemma written_quiet: "scan_safe t \<Longrightarrow> quiet (concat (map write_character t))"
  using hex_digit_plain
  by (auto simp: scan_safe_def quiet_def list_all_iff write_character_def hex4_def nibble split: if_splits)

lemma calm_string: "scan_safe t \<Longrightarrow> calm (write_string t @ r)"
  by (cases t) (auto simp: calm_def write_string_def scan_safe_def write_character_def)

lemma closing_quote: "calm r \<Longrightarrow> member_order p (0x22 # r) = member_order p r"
  by (cases p) (auto simp: calm_def Let_def split: prod.split)

lemma member_scan_string:
  assumes "scan_safe t" "calm r" "ends r"
  shows "member_order p (write_string t @ r) = member_order p r"
proof -
  let ?w = "concat (map write_character t)"
  have "\<not> (snd (read_string False (?w @ 0x22 # r)) \<noteq> [] \<and> hd (snd (read_string False (?w @ 0x22 # r))) = 0x3A)"
    using assms(3) unfolding read_written_rest by (auto simp: ends_def)
  then have "member_order p (write_string t @ r) = member_order p (?w @ 0x22 # r)"
    by (cases p) (auto simp: write_string_def split: prod.split)
  then show ?thesis using quiet_scan [OF written_quiet [OF assms(1)]] closing_quote [OF assms(2)] by simp
qed

lemma member_scan_name:
  assumes "name_safe t" "calm r"
  shows "member_order (seen # p) (write_string t @ 0x3A # r) =
    (case compare_member seen t of Inl failure \<Rightarrow> Inl failure | Inr seen' \<Rightarrow> member_order (seen' # p) r)"
proof -
  have "calm (0x3A # r)" using calm_skip [of "[0x3A]" r] assms(2) by simp
  then have "member_order q (concat (map write_character t) @ 0x22 # 0x3A # r) = member_order q r" for q
    using quiet_scan [OF written_quiet, of t q "0x22 # 0x3A # r"] closing_quote [of "0x3A # r" q] assms(1)
    by (simp add: name_safe_def)
  then show ?thesis
    using read_written [of t "0x3A # r"] assms(1)
    by (simp add: write_string_def name_safe_def split: sum.split)
qed

lemma number_text_plain: "list_all (\<lambda>c. c \<notin> {0x22, 0x5C, 0x7B, 0x7D}) (number_text n)"
proof -
  have d: "list_all (\<lambda>c. c \<notin> {0x22, 0x5C, 0x7B, 0x7D}) (text_of (show_nat k))" for k
    using show_nat_ascii [of k] by (auto simp: list_all_iff digit_def)
  then show ?thesis by (auto simp: number_text_def show_int_def text_of_def split: number.split)
qed

lemma calm_joined:
  "\<forall>t \<in> set ts. \<forall>r. calm r \<longrightarrow> calm (t @ r) \<Longrightarrow> calm r \<Longrightarrow> calm (joined ts @ r)"
proof (induction ts rule: joined.induct)
  case (3 t u ts)
  then have "calm (joined (u # ts) @ r)" by simp
  then have "calm (0x2C # joined (u # ts) @ r)" using calm_skip [of "[0x2C]"] by simp
  then show ?case using 3 by simp
qed simp_all

lemma calm_one: "c \<notin> {0x22, 0x5C} \<Longrightarrow> calm r \<Longrightarrow> calm (c # r)"
  using calm_skip [of "[c]" r] by simp

lemma calm_value: "strings_safe u \<Longrightarrow> calm r \<Longrightarrow> calm (document_text u @ r)"
proof (induction u arbitrary: r)
  case (Number n)
  then show ?case using number_text_plain [of n] by (subst document_text.simps, subst calm_skip) (auto simp: list_all_iff)
next
  case (Array vs)
  have "calm (joined (map document_text vs) @ 0x5D # r)"
    using Array by (intro calm_joined) (auto simp: list_all_iff intro: calm_one)
  then show ?case by (simp add: calm_one)
next
  case (Object ms)
  have "calm (joined (map (\<lambda>m. write_string (fst m) @ 0x3A # document_text (snd m)) ms) @ 0x7D # r)"
    using Object by (intro calm_joined) (auto simp: list_all_iff name_safe_def intro: calm_one calm_string)
  then show ?case by (simp add: calm_one)
qed (auto simp: text_of_def calm_one calm_string split: if_splits)

text \<open>Names that ascend, after a name that was seen.\<close>

definition ascend_after :: "str option \<Rightarrow> (str \<times> json_value) list \<Rightarrow> bool" where
  "ascend_after seen ms \<longleftrightarrow> sorted_wrt (\<lambda>a b. as_bytes (fst a) < as_bytes (fst b)) ms \<and>
     (case seen of None \<Rightarrow> True | Some e \<Rightarrow> list_all (\<lambda>m. as_bytes e < as_bytes (fst m)) ms)"

lemma compare_member_ascends:
  "(case compare_member seen t of Inl failure \<Rightarrow> Inl failure | Inr s \<Rightarrow> k s) = Inr () \<longleftrightarrow>
     k (Some t) = Inr () \<and> (case seen of None \<Rightarrow> True | Some e \<Rightarrow> as_bytes e < as_bytes t)"
  by (auto simp: compare_member_def cmp_def split: option.split if_splits)

lemma ascend_after_Cons:
  "ascend_after seen ((t, v) # ms) \<longleftrightarrow>
     (case seen of None \<Rightarrow> True | Some e \<Rightarrow> as_bytes e < as_bytes t) \<and> ascend_after (Some t) ms"
  by (auto simp: ascend_after_def list_all_iff split: option.split)

definition scans :: "json_value \<Rightarrow> bool" where
  "scans u \<longleftrightarrow> (\<forall>p r. ends r \<longrightarrow> calm r \<longrightarrow>
     (member_order p (document_text u @ r) = Inr () \<longleftrightarrow> members_ascend u \<and> member_order p r = Inr ()))"

lemma scansD:
  "scans u \<Longrightarrow> ends r \<Longrightarrow> calm r \<Longrightarrow>
     member_order p (document_text u @ r) = Inr () \<longleftrightarrow> members_ascend u \<and> member_order p r = Inr ()"
  by (simp add: scans_def)

lemma ends_one [simp]: "ends (0x2C # r)" "ends (0x5D # r)" "ends (0x7D # r)"
  by (simp_all add: ends_def)

lemma member_scan_items:
  assumes "\<forall>v \<in> set vs. scans v \<and> strings_safe v" "calm r"
  shows "member_order p (joined (map document_text vs) @ 0x5D # r) = Inr () \<longleftrightarrow>
    list_all members_ascend vs \<and> member_order p r = Inr ()"
  using assms(1)
proof (induction vs rule: induct_list012)
  case (2 v)
  then show ?case using scansD [of v "0x5D # r" p] assms(2) by (simp add: calm_one)
next
  case (3 v w vs)
  let ?rest = "joined (map document_text (w # vs)) @ 0x5D # r"
  have "calm ?rest"
    using 3 assms(2) by (intro calm_joined) (auto simp: calm_value calm_one)
  then have "member_order p (document_text v @ 0x2C # ?rest) = Inr () \<longleftrightarrow>
      members_ascend v \<and> member_order p (0x2C # ?rest) = Inr ()"
    using 3 by (intro scansD) (simp_all add: calm_one)
  then show ?case using 3 by simp
qed simp

lemma member_scan_members:
  assumes "\<forall>m \<in> set ms. scans (snd m) \<and> name_safe (fst m) \<and> strings_safe (snd m)" "calm r"
  shows "member_order (seen # p)
      (joined (map (\<lambda>m. write_string (fst m) @ 0x3A # document_text (snd m)) ms) @ 0x7D # r) = Inr () \<longleftrightarrow>
    ascend_after seen ms \<and> list_all (\<lambda>m. members_ascend (snd m)) ms \<and> member_order p r = Inr ()"
  using assms(1)
proof (induction ms arbitrary: seen rule: induct_list012)
  case 1
  then show ?case by (simp add: ascend_after_def split: option.split)
next
  case (2 m)
  obtain n v where m: "m = (n, v)" by fastforce
  have c: "calm (document_text v @ 0x7D # r)" using 2 m assms(2) by (simp add: calm_value calm_one)
  show ?case
    using 2 m member_scan_name [OF _ c, of n seen p] scansD [of v "0x7D # r" "Some n # p"] assms(2)
    by (simp add: compare_member_ascends ascend_after_Cons calm_one) (auto simp: ascend_after_def)
next
  case (3 m l ms)
  obtain n v where m: "m = (n, v)" by fastforce
  let ?rest = "joined (map (\<lambda>m. write_string (fst m) @ 0x3A # document_text (snd m)) (l # ms)) @ 0x7D # r"
  have r: "calm ?rest"
    using 3 assms(2) by (intro calm_joined) (auto simp: name_safe_def calm_string calm_one)
  then have c: "calm (document_text v @ 0x2C # ?rest)" using 3 m by (simp add: calm_value calm_one)
  show ?case
    using 3 m member_scan_name [OF _ c, of n seen p] scansD [of v "0x2C # ?rest" "Some n # p"] r
    by (simp add: compare_member_ascends ascend_after_Cons [of _ n v] calm_one) auto
qed

lemma document_scans: "strings_safe u \<Longrightarrow> scans u"
proof (induction u)
  case (Number n)
  have "quiet (number_text n)" using number_text_plain [of n] by (auto simp: quiet_def list_all_iff)
  then show ?case by (simp add: scans_def quiet_scan)
next
  case (String t)
  then show ?case by (simp add: scans_def member_scan_string)
next
  case (Array vs)
  then have "\<forall>v \<in> set vs. scans v \<and> strings_safe v" by (auto simp: list_all_iff)
  then show ?case by (simp add: scans_def member_scan_items)
next
  case (Object ms)
  then have "\<forall>m \<in> set ms. scans (snd m) \<and> name_safe (fst m) \<and> strings_safe (snd m)"
    by (auto simp: list_all_iff)
  then show ?case by (simp add: scans_def member_scan_members ascend_after_def)
qed (auto simp: scans_def text_of_def split: if_splits)

lemma member_order_iff:
  assumes "strings_safe u"
  shows "require_member_order (document_text u) = Inr () \<longleftrightarrow> members_ascend u"
  using scansD [OF document_scans [OF assms], of "[]" "[]"]
  by (simp add: require_member_order_def ends_def calm_def)

section \<open>Canonical documents\<close>

lemma write_items_text:
  "\<forall>v \<in> set vs. write_value v = Inr (document_text v) \<Longrightarrow>
   write_items leading vs =
     Inr ((if leading \<or> vs = [] then [] else [0x2C]) @ joined (map document_text vs))"
  by (induction vs arbitrary: leading rule: induct_list012) simp_all

lemma write_members_text:
  "\<forall>m \<in> set ms. write_value (snd m) = Inr (document_text (snd m)) \<Longrightarrow>
   write_members leading ms =
     Inr ((if leading \<or> ms = [] then [] else [0x2C]) @
       joined (map (\<lambda>m. write_string (fst m) @ 0x3A # document_text (snd m)) ms))"
  by (induction ms arbitrary: leading rule: induct_list012) auto

lemma write_number_text:
  "write_number n = (if integral (Number n) then Inr (number_text n) else Inl NumberNotIntegral)"
  by (cases n) (auto simp: write_number_def as_i64_def as_u64_def number_text_def show_int_def
      unsigned_greater_eq not_less)

lemma write_items_fraction:
  "\<forall>v \<in> set vs. write_value v = (if integral v then Inr (document_text v) else Inl NumberNotIntegral) \<Longrightarrow>
   \<not> list_all integral vs \<Longrightarrow> write_items leading vs = Inl NumberNotIntegral"
proof (induction vs arbitrary: leading)
  case (Cons v vs)
  then show ?case
    using write_items_text [of vs False] by (cases "integral v"; cases "list_all integral vs") (auto simp: list_all_iff)
qed simp

lemma write_members_fraction:
  "\<forall>m \<in> set ms. write_value (snd m) =
      (if integral (snd m) then Inr (document_text (snd m)) else Inl NumberNotIntegral) \<Longrightarrow>
   \<not> list_all (\<lambda>m. integral (snd m)) ms \<Longrightarrow> write_members leading ms = Inl NumberNotIntegral"
proof (induction ms arbitrary: leading)
  case (Cons m ms)
  then show ?case
    using write_members_text [of ms False]
    by (cases m; cases "integral (snd m)"; cases "list_all (\<lambda>m. integral (snd m)) ms") (auto simp: list_all_iff)
qed simp

lemma write_value_text:
  "members_ascend v \<Longrightarrow>
   write_value v = (if integral v then Inr (document_text v) else Inl NumberNotIntegral)"
proof (induction v)
  case (Bool b)
  then show ?case by (cases b) simp_all
next
  case (Number n)
  then show ?case by (simp only: write_value.simps write_number_text document_text.simps)
next
  case (Array vs)
  then have w: "\<forall>v \<in> set vs. write_value v =
      (if integral v then Inr (document_text v) else Inl NumberNotIntegral)" by (auto simp: list_all_iff)
  then show ?case
    using write_items_text [of vs True] write_items_fraction [OF w, of True]
    by (cases "list_all integral vs") (auto simp: list_all_iff)
next
  case (Object ms)
  then have w: "\<forall>m \<in> set ms. write_value (snd m) =
      (if integral (snd m) then Inr (document_text (snd m)) else Inl NumberNotIntegral)"
    by (auto simp: list_all_iff)
  have "ascending_names ms = ms" using Object.prems by (intro ascending_names_id) simp
  then show ?case
    using w write_members_text [of ms True] write_members_fraction [OF w, of True]
    by (cases "list_all (\<lambda>m. integral (snd m)) ms") (auto simp: list_all_iff)
qed simp_all

lemma wf_members_ascend: "wf_value v \<Longrightarrow> members_ascend v"
  by (induction v rule: wf_value.induct) (auto simp: list_all_iff)

text \<open>The ends of a document are no whitespace, and its first character is no byte-order mark.\<close>

lemma document_ends:
  assumes "integral u"
  shows "document_text u \<noteq> [] \<and> \<not> is_whitespace (hd (document_text u)) \<and>
    \<not> is_whitespace (last (document_text u)) \<and> hd (document_text u) \<noteq> 0xFEFF"
proof (cases u)
  case (Number n)
  have d: "show_nat k \<noteq> []" "digit (hd (text_of (show_nat k)))" "digit (last (text_of (show_nat k)))"
    "last (x # text_of (show_nat k)) = last (text_of (show_nat k))" for k x
    using show_nat_nonempty [of k] show_nat_ascii [of k]
    by (simp_all add: list_all_iff text_of_def hd_map last_map)
  have w: "\<not> is_whitespace c \<and> c \<noteq> 0xFEFF" if "digit c" for c
    using that by (auto simp: digit_def is_whitespace_def word_le_nat_alt)
  have t: "text_of s \<noteq> [] \<longleftrightarrow> s \<noteq> []" "text_of ''-'' @ x = 0x2D # x" for s x by (simp_all add: text_of_def)
  have m: "\<not> is_whitespace 0x2D" by (simp add: is_whitespace_def)
  show ?thesis using assms Number d w m by (cases n) (auto simp: number_text_def show_int_def t)
qed (simp_all add: text_of_def write_string_def is_whitespace_def)

lemma trim_id: "s \<noteq> [] \<Longrightarrow> \<not> is_whitespace (hd s) \<Longrightarrow> \<not> is_whitespace (last s) \<Longrightarrow> trim s = s"
proof -
  assume s: "s \<noteq> []" "\<not> is_whitespace (hd s)" "\<not> is_whitespace (last s)"
  have "dropWhile is_whitespace xs = xs" if "xs \<noteq> []" "\<not> is_whitespace (hd xs)" for xs
    using that by (cases xs) simp_all
  then show ?thesis using s by (simp add: trim_def hd_rev)
qed

lemma byte_order_mark_char:
  assumes "take 3 bytes = BYTE_ORDER_MARK"
  shows "\<exists>r. utf8_chars bytes = 0xFEFF # r"
proof -
  have "bytes = [0xEF, 0xBB, 0xBF] @ drop 3 bytes"
    using assms append_take_drop_id [of 3 bytes] by (simp add: BYTE_ORDER_MARK_def)
  then obtain rest where "bytes = 0xEF # 0xBB # 0xBF # rest" by auto
  then show ?thesis by simp
qed

text \<open>C29: Exactly which documents are accepted as canonical.  Take any bytes that spell a document of
  integers without insignificant whitespace and with the contract's escapes, in whatever order its
  members stand and however often a name is repeated.  They are accepted exactly when they are valid
  UTF-8 and in every object, at every depth, the names ascend strictly by their bytes; the value is then
  the document.  This is claimed of documents whose strings hold no quote and no brace and do not begin
  with a colon and whose names hold no control, with a JSON parser that reads a document with ascending
  members as itself.\<close>

theorem canonical_documents_accepted_iff:
  assumes "integral u" and "strings_safe u" and "utf8_chars bytes = document_text u"
    and "members_ascend u \<Longrightarrow> from_str (document_text u) = Some u"
  shows "require_canonical_bytes from_str bytes = Inr v \<longleftrightarrow>
    is_ok (from_utf8 0 bytes) \<and> members_ascend u \<and> v = u"
proof -
  have e: "document_text u \<noteq> []" "trim (document_text u) = document_text u" "hd (document_text u) \<noteq> 0xFEFF"
    using document_ends [OF assms(1)] by (auto intro: trim_id)
  have mark: "take 3 bytes \<noteq> BYTE_ORDER_MARK"
    using byte_order_mark_char [of bytes] e(3) assms(3) by (metis list.sel(1))
  show ?thesis
  proof (cases "members_ascend u")
    case True
    then have "write_canonical u = Inr (document_text u)" "require_member_order (document_text u) = Inr ()"
      using write_value_text [of u] member_order_iff [OF assms(2)] assms(1) by (simp_all add: write_canonical_def)
    then show ?thesis
      using True assms(3,4) e(2) mark by (auto simp: require_canonical_bytes_def Let_def)
  next
    case False
    then have "require_member_order (document_text u) \<noteq> Inr ()" using member_order_iff [OF assms(2)] by simp
    then show ?thesis
      using False assms(3) by (auto simp: require_canonical_bytes_def Let_def result_simps split: if_splits option.splits)
  qed
qed

text \<open>C33: Every value without a fraction has one canonical text, and no two values share it.  A value as
  the library builds it is refused exactly when it holds a fraction, and is otherwise written with the
  members of every object in ascending order, the items of every array in theirs, and no character
  but those of the values and the punctuation between them; two values are written alike only when they
  are the same value.  So two documents share a digest input exactly when they mean the same.\<close>

theorem canonical_text_is_unique:
  assumes "wf_value v" and "wf_value w"
  shows "write_canonical v = (if integral v then Inr (document_text v) else Inl NumberNotIntegral) \<and>
    (write_canonical v = Inr s \<and> write_canonical w = Inr s \<longleftrightarrow>
       v = w \<and> integral v \<and> s = document_text v)"
proof -
  have written: "write_canonical u = (if integral u then Inr (document_text u) else Inl NumberNotIntegral)"
    if "wf_value u" for u
    using write_value_text [OF wf_members_ascend [OF that]] by (simp add: write_canonical_def)
  have "write_canonical v = Inr s \<and> write_canonical w = Inr s \<longleftrightarrow> v = w \<and> write_canonical v = Inr s"
    using write_canonical_injective [OF assms] by blast
  then show ?thesis using written [OF assms(1)] by auto
qed

text \<open>The scan loses its place after a text that begins with a colon.  In an object of one member,
  whose name stands above the colon, such a text is refused, although this is the one spelling of the
  value: the closing quote of the name and the opening quote of the text are read as a string, and what
  is between them is taken for a name.\<close>

lemma colon_text_refused:
  assumes "name_safe n" and "[0x3A] < as_bytes n"
  shows "require_member_order (document_text (Object [(n, String (0x3A # t))])) = Inl MembersNotAscending"
proof -
  let ?rest = "0x3A # concat (map write_character t) @ [0x22, 0x7D]"
  have spelled: "document_text (Object [(n, String (0x3A # t))]) =
      0x7B # write_string n @ 0x3A # 0x22 # ?rest"
    by (simp add: write_string_def write_character_def is_control_def)
  have "member_order [Some n] (0x22 # 0x3A # 0x22 # ?rest) = Inl MembersNotAscending"
    using assms(2) by (auto simp: compare_member_def cmp_def as_bytes_def encode_utf8_def)
  then have "member_order [Some n] (concat (map write_character n) @ 0x22 # 0x3A # 0x22 # ?rest) =
      Inl MembersNotAscending"
    using quiet_scan [OF written_quiet] assms(1) by (simp add: name_safe_def del: member_order.simps)
  then show ?thesis
    using read_written [of n "0x3A # 0x22 # ?rest"] assms(1) unfolding require_member_order_def spelled
    by (simp add: write_string_def name_safe_def compare_member_def)
qed

section \<open>Instances\<close>

definition plain_value :: json_value where
  "plain_value = Object [(text_of ''a'', Array [Number (NegInt (- 5)), Bool True])]"

definition plain_bytes :: "byte list" where
  "plain_bytes = [0x7B, 0x22, 0x61, 0x22, 0x3A, 0x5B, 0x2D, 0x35, 0x2C, 0x74, 0x72, 0x75, 0x65, 0x5D, 0x7D]"

definition plain_parser :: "str \<Rightarrow> json_value option" where
  "plain_parser s = (if s = text_of ''{\"a\":[-5,true]}'' then Some plain_value else None)"

lemma plain_chars: "utf8_chars plain_bytes = text_of ''{\"a\":[-5,true]}''"
  by (simp add: plain_bytes_def text_of_def)

lemma plain_is_text: "is_ok (from_utf8 0 plain_bytes)"
  by (simp add: plain_bytes_def utf8_sequence_def)

lemma plain_text: "document_text plain_value = text_of ''{\"a\":[-5,true]}''"
  by (simp add: plain_value_def write_string_def write_character_def is_control_def number_text_def
      show_int_def show_nat.simps text_of_def)

theorem canonical_documents_accepted_iff_witness:
  "require_canonical_bytes plain_parser plain_bytes = Inr plain_value"
  by (subst canonical_documents_accepted_iff [of plain_value])
    (simp_all add: plain_text plain_is_text plain_chars plain_parser_def,
      simp_all add: plain_value_def name_safe_def scan_safe_def is_control_def text_of_def)

theorem canonical_text_is_unique_witness:
  "write_canonical plain_value = Inr (text_of ''{\"a\":[-5,true]}'') \<and>
   write_canonical (Array [plain_value, Number (Float 0)]) = Inl NumberNotIntegral"
  using canonical_text_is_unique [of plain_value plain_value "[]"]
    canonical_text_is_unique [of "Array [plain_value, Number (Float 0)]" plain_value "[]"]
  unfolding plain_text by (simp add: plain_value_def)

end
