(* ===== verification/Event_Stream.thy ===== *)
theory Event_Stream
  imports Response_Policy Canonical_Json Job_Reduction
begin

text \<open>
  The author's event stream, \<open>crates/slingshot-agent-connection/src/server_sent_event_decoder.rs\<close>: bytes in
  whatever chunks the transport delivers become heartbeats and authenticated events.  A Rust \<open>String\<close> of
  this component is the list of its octets.  The JSON library, SHA-256, the resolver of retained
  expectations and the installed contracts are parameters, gathered in one record; the consumer of the
  items is a method on a state of its own.
\<close>

section \<open>Data\<close>

definition EVENT_STREAM_MEDIA_TYPE :: str where
  "EVENT_STREAM_MEDIA_TYPE = text_of ''text/event-stream''"

definition PERMITTED_MEDIA_PARAMETERS :: "str list" where
  "PERMITTED_MEDIA_PARAMETERS = [[], text_of ''charset=utf-8'']"

definition LINE_FEED :: byte where "LINE_FEED = 0x0A"
definition CARRIAGE_RETURN :: byte where "CARRIAGE_RETURN = 0x0D"

record decoder_bounds =
  bound_event_bytes :: u64
  bound_identifier_bytes :: u64
  bound_line_bytes :: u64

definition decoder_bounds_embedded :: decoder_bounds where
  "decoder_bounds_embedded =
     \<lparr>bound_event_bytes = embedded_limit ''maximum_server_sent_event_bytes'',
      bound_identifier_bytes = embedded_limit ''maximum_agent_operation_identifier_bytes'',
      bound_line_bytes = embedded_limit ''maximum_server_sent_event_line_bytes''\<rparr>"

datatype stream_refusal =
    StreamClosed
  | StreamConsumer
  | StreamHead response_refusal
  | StreamMediaType str
  | StreamMediaParameters str
  | StreamUndeclaredTrailer
  | StreamLineTooLong u64 nat
  | StreamEventTooLarge u64 nat
  | StreamIdentifierTooLong u64 nat
  | StreamNotUnicode
  | StreamMalformed string
  | StreamAnotherSubscription
  | StreamAnotherGeneration u64 u64
  | StreamAnotherSubmission
  | StreamTerminalWithoutCorrelation
  | StreamCorrelationOnNonTerminal
  | StreamProvenance wire_refusal

definition stream_cursor_new :: "string \<Rightarrow> u64 \<Rightarrow> stream_refusal + string" where
  "stream_cursor_new spelled allowed =
     (if as_u64_length (length spelled) > allowed
      then Inl (StreamIdentifierTooLong allowed (length spelled)) else Inr spelled)"

datatype job_event_state = StateQueued | StateRunning | StateSucceeded | StateFailed

record job_event_document =
  doc_generation :: u64
  doc_operation :: string
  doc_subscription :: string
  doc_sling_job :: string
  doc_kind :: job_event_kind
  doc_state :: job_event_state
  doc_sequence :: u64
  doc_attempt :: "u64 option"
  doc_progress :: "u64 option"
  doc_terminal :: "terminal_correlation option"

record operation_stream_expectation =
  expected_subscription :: string
  expected_generation :: u64
  expected_operation :: string
  expected_contract :: expected_provenance
  expected_command_digest :: string

record decoded_event =
  ev_subscription :: string
  ev_canonical_digest :: str
  ev_canonical_bytes :: u64
  ev_sling_job :: string
  ev_state :: job_event_state
  ev_attempt :: "u64 option"
  ev_progress :: "u64 option"
  ev_cursor :: "string option"
  ev_generation :: u64
  ev_operation :: string
  ev_kind :: job_event_kind
  ev_sequence :: u64
  ev_name :: string
  ev_terminal :: "terminal_correlation option"

datatype stream_item = Heartbeat | Event decoded_event

text \<open>What the decoder calls and this development does not define: the parser and the serializer of the
  JSON library, SHA-256, the resolver, the installed contract of a command and the two digests of the
  installed contracts.\<close>

record 'r stream_environment =
  parse_document :: "string \<Rightarrow> job_event_document option"
  document_value :: "job_event_document \<Rightarrow> json_value option"
  sha256 :: "byte list \<Rightarrow> byte list"
  resolve :: "string \<Rightarrow> ('r, stream_refusal, operation_stream_expectation) receiver"
  installed :: "string \<Rightarrow> contract_identity option"
  installed_canonical_digest :: string
  installed_transport_digest :: string

record 'r sse_decoder =
  sse_poisoned :: bool
  after_carriage_return :: bool
  sse_bounds :: decoder_bounds
  sse_data :: string
  event_name :: string
  event_bytes :: nat
  sse_subscription :: string
  sse_generation :: u64
  sse_resolver :: 'r
  sse_identifier :: "string option"
  pending :: "byte list"
  saw_field :: bool

section \<open>Attaching\<close>

definition to_ascii_lowercase :: "str \<Rightarrow> str" where
  "to_ascii_lowercase s = map (\<lambda>c. if 0x41 \<le> c \<and> c \<le> 0x5A then c + 0x20 else c) s"

definition require_event_stream :: "str \<Rightarrow> stream_refusal + unit" where
  "require_event_stream named =
     (let lowered = to_ascii_lowercase (trim named);
          (essence, parameters) =
            (case split_once 0x3B lowered of
               Some (essence, rest) \<Rightarrow> (trim essence, trim rest)
             | None \<Rightarrow> (lowered, []))
      in if essence \<noteq> EVENT_STREAM_MEDIA_TYPE then Inl (StreamMediaType named)
         else if parameters \<notin> set PERMITTED_MEDIA_PARAMETERS then Inl (StreamMediaParameters named)
         else Inr ())"

definition sse_new :: "decoder_bounds \<Rightarrow> string \<Rightarrow> u64 \<Rightarrow> 'r \<Rightarrow> 'r sse_decoder" where
  "sse_new held subscription generation resolver =
     \<lparr>sse_poisoned = False, after_carriage_return = False, sse_bounds = held, sse_data = [],
      event_name = [], event_bytes = 0, sse_subscription = subscription, sse_generation = generation,
      sse_resolver = resolver, sse_identifier = None, pending = [], saw_field = False\<rparr>"

definition attached_subscription ::
  "response_head \<Rightarrow> str \<Rightarrow> decoder_bounds \<Rightarrow> string \<Rightarrow> u64 \<Rightarrow> 'r \<Rightarrow> stream_refusal + 'r sse_decoder" where
  "attached_subscription head' media_type held subscription generation resolver =
     (case require_acceptable head' of
        Inl refusal \<Rightarrow> Inl (StreamHead refusal)
      | Inr _ \<Rightarrow>
          bindE (require_event_stream media_type) (\<lambda>_.
            Inr (sse_new held subscription generation resolver)))"

text \<open>The single-command constructor, whose resolver answers every operation with one retained
  correlation.\<close>

record stream_expectation =
  se_generation :: u64
  se_subscription :: string
  se_provenance :: expected_provenance
  se_command_digest :: string

record fixed_terminal_expectation =
  fixed_subscription :: string
  fixed_generation :: u64
  fixed_provenance :: expected_provenance
  fixed_digest :: string

definition fixed_resolve ::
  "string \<Rightarrow> (fixed_terminal_expectation, stream_refusal, operation_stream_expectation) receiver" where
  "fixed_resolve operation self =
     (self, Inr \<lparr>expected_subscription = fixed_subscription self, expected_generation = fixed_generation self,
        expected_operation = operation, expected_contract = fixed_provenance self,
        expected_command_digest = fixed_digest self\<rparr>)"

definition sse_attached ::
  "response_head \<Rightarrow> str \<Rightarrow> decoder_bounds \<Rightarrow> stream_expectation \<Rightarrow>
     stream_refusal + fixed_terminal_expectation sse_decoder" where
  "sse_attached head' media_type held expectation =
     attached_subscription head' media_type held (se_subscription expectation) (se_generation expectation)
       \<lparr>fixed_subscription = se_subscription expectation, fixed_generation = se_generation expectation,
        fixed_provenance = se_provenance expectation, fixed_digest = se_command_digest expectation\<rparr>"

section \<open>Lines and fields\<close>

definition discard :: "'r sse_decoder \<Rightarrow> 'r sse_decoder" where
  "discard self = self\<lparr>sse_data := [], event_bytes := 0, event_name := [], sse_identifier := None,
     pending := [], saw_field := False\<rparr>"

definition octets :: "byte list \<Rightarrow> string" where
  "octets bytes = map (\<lambda>b. char_of (unat b)) bytes"

text \<open>The name and the value of a field line.\<close>

definition field_parts :: "string \<Rightarrow> string \<times> string" where
  "field_parts line =
     (case split_once CHR '':'' line of
        Some (name, raw) \<Rightarrow> (name, if raw \<noteq> [] \<and> hd raw = CHR '' '' then tl raw else raw)
      | None \<Rightarrow> (line, []))"

definition absorb_field :: "string \<Rightarrow> ('r sse_decoder, stream_refusal, unit) receiver" where
  "absorb_field line self =
     (let (name, field_value) = field_parts line in
      if name = ''data''
      then (self\<lparr>sse_data := sse_data self @ field_value @ [char_of (10::nat)], saw_field := True\<rparr>, Inr ())
      else if name = ''event'' then (self\<lparr>event_name := field_value, saw_field := True\<rparr>, Inr ())
      else if name = ''id''
      then (case stream_cursor_new field_value (bound_identifier_bytes (sse_bounds self)) of
              Inl refusal \<Rightarrow> (self, Inl refusal)
            | Inr _ \<Rightarrow> (self\<lparr>sse_identifier := Some field_value, saw_field := True\<rparr>, Inr ()))
      else (self, Inr ()))"

section \<open>Authenticating an event\<close>

definition is_lowercase_hexadecimal :: "string \<Rightarrow> nat \<Rightarrow> bool" where
  "is_lowercase_hexadecimal s characters \<longleftrightarrow>
     length s = characters \<and>
     list_all (\<lambda>c. (48::nat) \<le> of_char c \<and> of_char c \<le> (57::nat) \<or> (97::nat) \<le> of_char c \<and> of_char c \<le> (102::nat)) s"

fun state_of_kind :: "job_event_kind \<Rightarrow> job_event_state" where
  "state_of_kind EventAccepted = StateQueued"
| "state_of_kind EventStarted = StateRunning"
| "state_of_kind EventProgress = StateRunning"
| "state_of_kind EventSucceeded = StateSucceeded"
| "state_of_kind EventFailed = StateFailed"

definition require_requested :: "'r sse_decoder \<Rightarrow> job_event_document \<Rightarrow> stream_refusal + unit" where
  "require_requested self document =
     (if \<not> is_ok (agent_job_identifier_new (doc_sling_job document))
      then Inl (StreamMalformed ''sling_job_identifier'')
      else if doc_state document \<noteq> state_of_kind (doc_kind document) then Inl (StreamMalformed ''state'')
      else if doc_subscription document \<noteq> sse_subscription self then Inl StreamAnotherSubscription
      else if doc_generation document \<noteq> sse_generation self
      then Inl (StreamAnotherGeneration (sse_generation self) (doc_generation document))
      else if \<not> is_lowercase_hexadecimal (doc_operation document) 64
      then Inl (StreamMalformed ''agent_operation_identifier'')
      else Inr ())"

text \<open>What the decoder checks of an expectation that was resolved, and of the correlation against it.\<close>

definition require_expected ::
  "'r stream_environment \<Rightarrow> 'r sse_decoder \<Rightarrow> job_event_document \<Rightarrow> terminal_correlation \<Rightarrow>
     operation_stream_expectation \<Rightarrow> stream_refusal + unit" where
  "require_expected env self document terminal expected =
     (if expected_subscription expected \<noteq> sse_subscription self then Inl StreamAnotherSubscription
      else if expected_generation expected \<noteq> sse_generation self
      then Inl (StreamAnotherGeneration (sse_generation self) (expected_generation expected))
      else if expected_operation expected \<noteq> doc_operation document then Inl StreamAnotherSubmission
      else (case installed env (command_wire_name (command_contract (expected_contract expected))) of
          None \<Rightarrow> Inl StreamAnotherSubmission
        | Some contract \<Rightarrow>
            let installed_provenance =
              \<lparr>canonical_json_contract_digest = installed_canonical_digest env, command_contract = contract,
               transport_contract_digest = installed_transport_digest env\<rparr> in
            (case require_matching installed_provenance (provenance_of (expected_contract expected)) of
               Inl refusal \<Rightarrow> Inl (StreamProvenance refusal)
             | Inr _ \<Rightarrow>
                 if \<not> is_lowercase_hexadecimal (expected_command_digest expected) 64
                 then Inl StreamAnotherSubmission
                 else (case require_matching (expected_contract expected) (correlated_provenance terminal) of
                     Inl refusal \<Rightarrow> Inl (StreamProvenance refusal)
                   | Inr _ \<Rightarrow>
                       if correlated_command_digest terminal \<noteq> expected_command_digest expected
                       then Inl StreamAnotherSubmission else Inr ()))))"

definition require_correlated ::
  "'r stream_environment \<Rightarrow> job_event_document \<Rightarrow> ('r sse_decoder, stream_refusal, unit) receiver" where
  "require_correlated env document self =
     (case (doc_terminal document, kind_is_terminal (doc_kind document)) of
        (Some terminal, True) \<Rightarrow>
          (case resolve env (doc_operation document) (sse_resolver self) of
             (resolver, Inl refusal) \<Rightarrow> (self\<lparr>sse_resolver := resolver\<rparr>, Inl refusal)
           | (resolver, Inr expected) \<Rightarrow>
               let self = self\<lparr>sse_resolver := resolver\<rparr> in
               (self, require_expected env self document terminal expected))
      | (None, False) \<Rightarrow> (self, Inr ())
      | (None, True) \<Rightarrow> (self, Inl StreamTerminalWithoutCorrelation)
      | (Some _, False) \<Rightarrow> (self, Inl StreamCorrelationOnNonTerminal))"

section \<open>Dispatching and pushing\<close>

definition decoded_from :: "job_event_document \<Rightarrow> str \<Rightarrow> u64 \<Rightarrow> string option \<Rightarrow> string \<Rightarrow> decoded_event" where
  "decoded_from document digest bytes cursor name =
     \<lparr>ev_subscription = doc_subscription document, ev_canonical_digest = digest, ev_canonical_bytes = bytes,
      ev_sling_job = doc_sling_job document, ev_state = doc_state document, ev_attempt = doc_attempt document,
      ev_progress = doc_progress document, ev_cursor = cursor, ev_generation = doc_generation document,
      ev_operation = doc_operation document, ev_kind = doc_kind document,
      ev_sequence = doc_sequence document, ev_name = name, ev_terminal = doc_terminal document\<rparr>"

text \<open>The event of an authenticated document: its canonical bytes are hashed in full.\<close>

definition event_of ::
  "'r stream_environment \<Rightarrow> decoder_bounds \<Rightarrow> job_event_document \<Rightarrow> string option \<Rightarrow> string \<Rightarrow>
     stream_refusal + decoded_event" where
  "event_of env held document identifier name =
     (case document_value env document of
        None \<Rightarrow> Inl (StreamMalformed ''payload'')
      | Some written \<Rightarrow>
          (case write_canonical written of
             Inl _ \<Rightarrow> Inl (StreamMalformed ''payload'')
           | Inr canonical \<Rightarrow>
               if \<not> length (as_bytes canonical) < 2 ^ 64 then Inl (StreamMalformed ''payload'')
               else
                 let event = decoded_from document (canonical_digest (sha256 env) canonical)
                       (of_nat (length (as_bytes canonical))) in
                 (case identifier of
                    None \<Rightarrow> Inr (event None name)
                  | Some spelled \<Rightarrow>
                      bindE (stream_cursor_new spelled (bound_identifier_bytes held)) (\<lambda>cursor.
                        Inr (event (Some cursor) name)))))"

definition stripped_data :: "string \<Rightarrow> string" where
  "stripped_data s = (if s \<noteq> [] \<and> last s = char_of (10::nat) then butlast s else s)"

definition dispatch ::
  "'r stream_environment \<Rightarrow> ('r sse_decoder, stream_refusal, stream_item option) receiver" where
  "dispatch env self =
     (if \<not> saw_field self then (discard self, Inr None)
      else
        let payload = stripped_data (sse_data self); name = event_name self;
            identifier = sse_identifier self; self = discard self in
        (case parse_document env payload of
           None \<Rightarrow> (self, Inl (StreamMalformed ''payload''))
         | Some document \<Rightarrow>
             (case require_requested self document of
                Inl refusal \<Rightarrow> (self, Inl refusal)
              | Inr _ \<Rightarrow>
                  (case require_correlated env document self of
                     (self, Inl refusal) \<Rightarrow> (self, Inl refusal)
                   | (self, Inr _) \<Rightarrow>
                       (case event_of env (sse_bounds self) document identifier name of
                          Inl refusal \<Rightarrow> (self, Inl refusal)
                        | Inr event \<Rightarrow> (self, Inr (Some (Event event))))))))"

definition complete_line ::
  "'r stream_environment \<Rightarrow> ('r sse_decoder, stream_refusal, stream_item option) receiver" where
  "complete_line env self =
     (let bytes = pending self; self = self\<lparr>pending := []\<rparr> in
      if \<not> is_ok (from_utf8 0 bytes) then (self, Inl StreamNotUnicode)
      else let line = octets bytes in
        if line = [] then dispatch env self
        else if hd line = CHR '':'' then (self, Inr (Some Heartbeat))
        else let self = self\<lparr>event_bytes := event_bytes self + length line\<rparr> in
          if as_u64_length (event_bytes self) > bound_event_bytes (sse_bounds self)
          then (self, Inl (StreamEventTooLarge (bound_event_bytes (sse_bounds self)) (event_bytes self)))
          else (case absorb_field line self of
                  (self, Inl refusal) \<Rightarrow> (self, Inl refusal)
                | (self, Inr _) \<Rightarrow> (self, Inr None)))"

definition sse_absorb ::
  "'r stream_environment \<Rightarrow> byte \<Rightarrow> ('r sse_decoder, stream_refusal, stream_item option) receiver" where
  "sse_absorb env byte self =
     (if byte = CARRIAGE_RETURN then complete_line env (self\<lparr>after_carriage_return := True\<rparr>)
      else if byte = LINE_FEED
      then (if after_carriage_return self then (self\<lparr>after_carriage_return := False\<rparr>, Inr None)
            else complete_line env self)
      else
        let self = self\<lparr>after_carriage_return := False\<rparr>; reached = length (pending self) + 1 in
        if as_u64_length reached > bound_line_bytes (sse_bounds self)
        then (self, Inl (StreamLineTooLong (bound_line_bytes (sse_bounds self)) reached))
        else (self\<lparr>pending := pending self @ [byte]\<rparr>, Inr None))"

fun push_bytes ::
  "'r stream_environment \<Rightarrow> (stream_item \<Rightarrow> ('c, stream_refusal, unit) receiver) \<Rightarrow> byte list \<Rightarrow>
     ('r sse_decoder \<times> 'c, stream_refusal, unit) receiver" where
  "push_bytes env consume [] (self, consumer) = ((self, consumer), Inr ())"
| "push_bytes env consume (byte # chunk) (self, consumer) =
     (case sse_absorb env byte self of
        (self, Inr None) \<Rightarrow> push_bytes env consume chunk (self, consumer)
      | (self, Inr (Some item)) \<Rightarrow>
          (case consume item consumer of
             (consumer, Inl refusal) \<Rightarrow> (((discard self)\<lparr>sse_poisoned := True\<rparr>, consumer), Inl refusal)
           | (consumer, Inr _) \<Rightarrow> push_bytes env consume chunk (self, consumer))
      | (self, Inl refusal) \<Rightarrow> (((discard self)\<lparr>sse_poisoned := True\<rparr>, consumer), Inl refusal))"

definition push_each ::
  "'r stream_environment \<Rightarrow> (stream_item \<Rightarrow> ('c, stream_refusal, unit) receiver) \<Rightarrow> byte list \<Rightarrow>
     ('r sse_decoder \<times> 'c, stream_refusal, unit) receiver" where
  "push_each env consume chunk = (\<lambda>(self, consumer).
     if sse_poisoned self then ((self, consumer), Inl StreamClosed)
     else (case push_bytes env consume chunk (self\<lparr>sse_poisoned := True\<rparr>, consumer) of
             (closed, Inl refusal) \<Rightarrow> (closed, Inl refusal)
           | ((self, consumer), Inr _) \<Rightarrow> ((self\<lparr>sse_poisoned := False\<rparr>, consumer), Inr ())))"

text \<open>The consumer that keeps every item, in order.\<close>

definition record_item :: "stream_item \<Rightarrow> (stream_item list, stream_refusal, unit) receiver" where
  "record_item item items = (items @ [item], Inr ())"

definition sse_push ::
  "'r stream_environment \<Rightarrow> byte list \<Rightarrow> ('r sse_decoder, stream_refusal, stream_item list) receiver" where
  "sse_push env chunk self =
     (case push_each env record_item chunk (self, []) of
        ((self, _), Inl refusal) \<Rightarrow> (self, Inl refusal)
      | ((self, items), Inr _) \<Rightarrow> (self, Inr items))"

definition has_partial_event :: "'r sse_decoder \<Rightarrow> bool" where
  "has_partial_event self \<longleftrightarrow> pending self \<noteq> [] \<or> saw_field self"

section \<open>The stream is closed by a refusal and not by fragmentation\<close>

text \<open>Two flags of a decoder, its closed flag and its carriage return flag, are read by the loop alone:
  every operation on lines and events commutes with setting them.\<close>

locale inert_mark =
  fixes mark :: "'r sse_decoder \<Rightarrow> 'r sse_decoder"
  assumes mark_fields: "sse_bounds (mark s) = sse_bounds s" "sse_data (mark s) = sse_data s"
    "event_name (mark s) = event_name s" "event_bytes (mark s) = event_bytes s"
    "sse_subscription (mark s) = sse_subscription s" "sse_generation (mark s) = sse_generation s"
    "sse_resolver (mark s) = sse_resolver s" "sse_identifier (mark s) = sse_identifier s"
    "pending (mark s) = pending s" "saw_field (mark s) = saw_field s"
  and mark_updates: "(mark s)\<lparr>sse_data := x2\<rparr> = mark (s\<lparr>sse_data := x2\<rparr>)"
    "(mark s)\<lparr>event_name := x3\<rparr> = mark (s\<lparr>event_name := x3\<rparr>)"
    "(mark s)\<lparr>event_bytes := x4\<rparr> = mark (s\<lparr>event_bytes := x4\<rparr>)"
    "(mark s)\<lparr>sse_resolver := x5\<rparr> = mark (s\<lparr>sse_resolver := x5\<rparr>)"
    "(mark s)\<lparr>sse_identifier := x6\<rparr> = mark (s\<lparr>sse_identifier := x6\<rparr>)"
    "(mark s)\<lparr>pending := x7\<rparr> = mark (s\<lparr>pending := x7\<rparr>)"
    "(mark s)\<lparr>saw_field := x8\<rparr> = mark (s\<lparr>saw_field := x8\<rparr>)"
begin

lemma discard_mark: "discard (mark s) = mark (discard s)"
  by (simp add: discard_def mark_updates)

lemma require_mark:
  "require_requested (mark s) d = require_requested s d"
  "require_expected env (mark s) d t x = require_expected env s d t x"
  by (simp_all add: require_requested_def require_expected_def mark_fields)

lemma require_correlated_mark:
  "require_correlated env d (mark s) = apfst mark (require_correlated env d s)"
  by (auto simp: require_correlated_def Let_def mark_fields mark_updates require_mark
      split: option.split bool.split prod.split sum.split)

lemma dispatch_mark: "dispatch env (mark s) = apfst mark (dispatch env s)"
  by (auto simp: dispatch_def Let_def require_correlated_mark mark_fields discard_mark require_mark
      split: option.split sum.split prod.split)

lemma absorb_field_mark: "absorb_field line (mark s) = apfst mark (absorb_field line s)"
  by (auto simp: absorb_field_def Let_def mark_fields mark_updates split: prod.split sum.split)

lemma complete_line_mark: "complete_line env (mark s) = apfst mark (complete_line env s)"
  by (auto simp: complete_line_def Let_def dispatch_mark absorb_field_mark mark_fields mark_updates
      split: prod.split sum.split)

end

definition poison :: "bool \<Rightarrow> 'r sse_decoder \<Rightarrow> 'r sse_decoder" where
  "poison p self = self\<lparr>sse_poisoned := p\<rparr>"

definition returned :: "bool \<Rightarrow> 'r sse_decoder \<Rightarrow> 'r sse_decoder" where
  "returned p self = self\<lparr>after_carriage_return := p\<rparr>"

interpretation poison: inert_mark "poison p" for p
  by unfold_locales (simp_all add: poison_def)

interpretation returned: inert_mark "returned p" for p
  by unfold_locales (simp_all add: returned_def)

lemma poison_simps [simp]:
  "sse_poisoned (poison p s) = p" "poison p (poison q s) = poison p s" "poison (sse_poisoned s) s = s"
  "(poison p s)\<lparr>sse_poisoned := q\<rparr> = poison q s" "discard (poison p s) = poison p (discard s)"
  by (simp_all add: poison_def discard_def)

lemma sse_absorb_poison: "sse_absorb env b (poison p s) = apfst (poison p) (sse_absorb env b s)"
proof -
  have "(poison p s)\<lparr>after_carriage_return := x\<rparr> = poison p (s\<lparr>after_carriage_return := x\<rparr>)" for x
    by (simp add: poison_def)
  moreover have "after_carriage_return (poison p s) = after_carriage_return s" by (simp add: poison_def)
  ultimately show ?thesis
    by (simp add: sse_absorb_def Let_def poison.complete_line_mark poison.mark_fields poison.mark_updates)
qed

text \<open>The loop under the closed flag is the loop under any flag, up to the flag.\<close>

lemma push_bytes_poison:
  "push_bytes env consume chunk (poison p s, c) =
     (case push_bytes env consume chunk (s, c) of
        ((s', c'), Inl refusal) \<Rightarrow> ((s', c'), Inl refusal)
      | ((s', c'), Inr u) \<Rightarrow> ((poison p s', c'), Inr u))"
proof (induction chunk arbitrary: s c)
  case (Cons b chunk)
  obtain t r where a: "sse_absorb env b s = (t, r)" by fastforce
  show ?case
  proof (cases r)
    case (Inl refusal)
    then show ?thesis using a by (simp add: sse_absorb_poison) (simp add: poison_def)
  next
    case (Inr item)
    show ?thesis
    proof (cases item)
      case None
      then show ?thesis using a Inr Cons.IH [of t c] by (simp add: sse_absorb_poison)
    next
      case (Some i)
      obtain d q where "consume i c = (d, q)" by fastforce
      then show ?thesis using a Inr Some Cons.IH [of t d] by (cases q) (simp_all add: sse_absorb_poison, simp add: poison_def)
    qed
  qed
qed simp

lemma push_bytes_refused: "push_bytes env consume chunk (s, c) = ((s', c'), Inl refusal) \<Longrightarrow> sse_poisoned s'"
  by (induction chunk arbitrary: s c) (auto split: prod.splits sum.splits option.splits)

lemma push_bytes_kept:
  assumes "push_bytes env consume chunk (s, c) = ((s', c'), Inr u)"
  shows "sse_poisoned s' = sse_poisoned s"
proof -
  have "push_bytes env consume chunk (poison (sse_poisoned s) s, c) = ((poison (sse_poisoned s) s', c'), Inr u)"
    unfolding push_bytes_poison using assms by simp
  then have "s' = poison (sse_poisoned s) s'" using assms by simp
  then show ?thesis by (metis poison_simps(1))
qed

lemma push_each_live:
  assumes "\<not> sse_poisoned s"
  shows "push_each env consume chunk (s, c) = push_bytes env consume chunk (s, c)"
proof -
  obtain s' c' r where p: "push_bytes env consume chunk (s, c) = ((s', c'), r)" by (metis prod.exhaust)
  have "push_bytes env consume chunk (s\<lparr>sse_poisoned := True\<rparr>, c) =
      push_bytes env consume chunk (poison True s, c)" by (simp add: poison_def)
  then show ?thesis
  proof (cases r)
    case (Inl refusal)
    then show ?thesis using assms p by (simp add: push_each_def push_bytes_poison flip: poison_def)
  next
    case (Inr u)
    then have "\<not> sse_poisoned s'" using push_bytes_kept [of env consume chunk s c s' c' u] p assms by simp
    then have "poison False s' = s'" by (metis poison_simps(3))
    then show ?thesis using assms p Inr by (simp add: push_each_def push_bytes_poison flip: poison_def)
  qed
qed

lemma push_each_closed: "sse_poisoned s \<Longrightarrow> push_each env consume chunk (s, c) = ((s, c), Inl StreamClosed)"
  by (simp add: push_each_def)

lemma push_bytes_Cons:
  "push_bytes env consume (b # chunk) state' =
     (case push_bytes env consume [b] state' of
        (t, Inl refusal) \<Rightarrow> (t, Inl refusal) | (t, Inr _) \<Rightarrow> push_bytes env consume chunk t)"
  by (cases state') (auto split: prod.splits sum.splits option.splits)

interpretation event_stream: fragment_reader "push_each env consume" "\<lambda>s. sse_poisoned (fst s)"
  "\<lambda>b. push_each env consume [b]" for env consume
proof
  fix env :: "'r stream_environment" and consume :: "stream_item \<Rightarrow> ('c, stream_refusal, unit) receiver"
    and i e and s s' :: "'r sse_decoder \<times> 'c"
  assume h: "push_each env consume i s = (s', Inl e)"
  obtain d c where "s = (d, c)" by fastforce
  then show "sse_poisoned (fst s')"
    using h push_bytes_refused [of env consume i d c "fst s'" "snd s'" e]
    by (cases "sse_poisoned d") (auto simp: push_each_closed push_each_live)
next
  fix env :: "'r stream_environment" and consume :: "stream_item \<Rightarrow> ('c, stream_refusal, unit) receiver"
    and i r and s s' :: "'r sse_decoder \<times> 'c"
  assume "sse_poisoned (fst s)" "push_each env consume i s = (s', r)"
  then show "\<not> is_ok r" by (cases s) (auto simp: push_each_closed)
next
  fix env :: "'r stream_environment" and consume :: "stream_item \<Rightarrow> ('c, stream_refusal, unit) receiver"
    and "is" and s :: "'r sse_decoder \<times> 'c"
  assume "\<not> sse_poisoned (fst s)"
  then show "push_each env consume is s = settled (feed (\<lambda>b. push_each env consume [b]) s is)"
  proof (induction "is" arbitrary: s)
    case Nil
    then show ?case by (cases s) (simp add: push_each_live)
  next
    case (Cons b bs)
    obtain d c where s: "s = (d, c)" by fastforce
    obtain t r where one: "push_bytes env consume [b] (d, c) = (t, r)" by fastforce
    have live: "\<not> sse_poisoned d" using Cons.prems s by simp
    show ?case
    proof (cases r)
      case (Inl refusal)
      then show ?thesis
        using one live s push_bytes_Cons [of env consume b bs "(d, c)"] by (simp add: push_each_live)
    next
      case (Inr u)
      then have t: "\<not> sse_poisoned (fst t)"
        using one live push_bytes_kept [of env consume "[b]" d c "fst t" "snd t" u] by simp
      have "push_each env consume (b # bs) s = push_each env consume bs t"
        using one live s Inr t push_bytes_Cons [of env consume b bs "(d, c)"]
        by (cases t) (simp add: push_each_live)
      also have "\<dots> = settled (feed (\<lambda>b. push_each env consume [b]) t bs)" using Cons.IH [OF t] .
      finally show ?thesis using one live s Inr
        by (cases "feed (\<lambda>b. push_each env consume [b]) t bs"; cases "snd (feed (\<lambda>b. push_each env consume [b]) t bs)")
          (simp_all add: push_each_live)
    qed
  qed
next
  fix env :: "'r stream_environment" and consume :: "stream_item \<Rightarrow> ('c, stream_refusal, unit) receiver"
    and i b and s s' :: "'r sse_decoder \<times> 'c"
  assume h: "push_each env consume [i] s = (s', Inr b)"
  obtain d c where s: "s = (d, c)" by fastforce
  then have live: "\<not> sse_poisoned d" using h by (auto simp: push_each_closed)
  then show "\<not> sse_poisoned (fst s')"
    using h s push_bytes_kept [of env consume "[i]" d c "fst s'" "snd s'" b] by (simp add: push_each_live)
qed


section \<open>Every event that leaves the decoder is authenticated\<close>

text \<open>What an event promises: it belongs to the subscription and generation asked for, its identities and
  its state are well formed, and an ending carries the correlation that retained state expects, made under
  contracts that are installed.  The expectation is the resolver's answer in some state of the
  resolver: exact for the immutable correlation of an operation that resolvers are documented to return.\<close>

definition correlation_authentic ::
  "'r stream_environment \<Rightarrow> string \<Rightarrow> u64 \<Rightarrow> string \<Rightarrow> terminal_correlation \<Rightarrow> bool" where
  "correlation_authentic env subscription generation operation terminal \<longleftrightarrow>
     (\<exists>r r' x contract. resolve env operation r = (r', Inr x) \<and>
        expected_subscription x = subscription \<and> expected_generation x = generation \<and>
        expected_operation x = operation \<and>
        installed env (command_wire_name (command_contract (expected_contract x))) = Some contract \<and>
        expected_contract x = \<lparr>canonical_json_contract_digest = installed_canonical_digest env,
          command_contract = contract, transport_contract_digest = installed_transport_digest env\<rparr> \<and>
        correlated_provenance terminal = provenance_of (expected_contract x) \<and>
        correlated_command_digest terminal = expected_command_digest x \<and>
        is_lowercase_hexadecimal (expected_command_digest x) 64)"

definition event_authentic :: "'r stream_environment \<Rightarrow> string \<Rightarrow> u64 \<Rightarrow> decoded_event \<Rightarrow> bool" where
  "event_authentic env subscription generation e \<longleftrightarrow>
     ev_subscription e = subscription \<and> ev_generation e = generation \<and>
     is_lowercase_hexadecimal (ev_operation e) 64 \<and> is_ok (agent_job_identifier_new (ev_sling_job e)) \<and>
     ev_state e = state_of_kind (ev_kind e) \<and>
     (case ev_terminal e of
        None \<Rightarrow> \<not> kind_is_terminal (ev_kind e)
      | Some terminal \<Rightarrow> kind_is_terminal (ev_kind e) \<and>
          correlation_authentic env subscription generation (ev_operation e) terminal)"

fun item_authentic :: "'r stream_environment \<Rightarrow> string \<Rightarrow> u64 \<Rightarrow> stream_item \<Rightarrow> bool" where
  "item_authentic env subscription generation Heartbeat = True"
| "item_authentic env subscription generation (Event e) = event_authentic env subscription generation e"

lemma provenance_of_inj: "provenance_of a = provenance_of b \<longleftrightarrow> a = b"
  by (cases a; cases b) (auto simp: provenance_of_def)

lemma require_expected_Inr:
  assumes "require_expected env self document terminal x = Inr ()" "resolve env (doc_operation document) r = (r', Inr x)"
  shows "correlation_authentic env (sse_subscription self) (sse_generation self) (doc_operation document) terminal"
proof -
  obtain contract where c: "installed env (command_wire_name (command_contract (expected_contract x))) = Some contract"
    using assms(1) by (auto simp: require_expected_def split: if_splits option.splits)
  let ?i = "\<lparr>canonical_json_contract_digest = installed_canonical_digest env, command_contract = contract,
    transport_contract_digest = installed_transport_digest env\<rparr>"
  have m: "require_matching ?i (provenance_of (expected_contract x)) = Inr ()"
    "require_matching (expected_contract x) (correlated_provenance terminal) = Inr ()"
    using assms(1) c by (auto simp: require_expected_def Let_def split: if_splits sum.splits)
  have "expected_contract x = ?i" using m(1) by (simp add: require_matching_Inr provenance_of_inj)
  moreover have "correlated_provenance terminal = provenance_of (expected_contract x)"
    using m(2) by (simp add: require_matching_Inr)
  moreover have "expected_subscription x = sse_subscription self" "expected_generation x = sse_generation self"
    "expected_operation x = doc_operation document" "correlated_command_digest terminal = expected_command_digest x"
    "is_lowercase_hexadecimal (expected_command_digest x) 64"
    using assms(1) c m by (auto simp: require_expected_def Let_def split: if_splits)
  ultimately show ?thesis unfolding correlation_authentic_def using assms(2) c by blast
qed

lemma require_requested_Inr:
  "require_requested self document = Inr () \<Longrightarrow>
     is_ok (agent_job_identifier_new (doc_sling_job document)) \<and>
     doc_state document = state_of_kind (doc_kind document) \<and>
     doc_subscription document = sse_subscription self \<and> doc_generation document = sse_generation self \<and>
     is_lowercase_hexadecimal (doc_operation document) 64"
  by (auto simp: require_requested_def split: if_splits)

lemma require_correlated_Inr:
  assumes "require_correlated env document self = (self', Inr ())"
  shows "case doc_terminal document of
      None \<Rightarrow> \<not> kind_is_terminal (doc_kind document)
    | Some terminal \<Rightarrow> kind_is_terminal (doc_kind document) \<and>
        correlation_authentic env (sse_subscription self) (sse_generation self) (doc_operation document) terminal"
proof (cases "doc_terminal document")
  case None
  then show ?thesis using assms by (auto simp: require_correlated_def split: bool.splits)
next
  case (Some terminal)
  then have k: "kind_is_terminal (doc_kind document)" using assms by (auto simp: require_correlated_def split: bool.splits)
  obtain r x where "resolve env (doc_operation document) (sse_resolver self) = (r, Inr x)"
    "require_expected env (self\<lparr>sse_resolver := r\<rparr>) document terminal x = Inr ()"
    using assms Some k by (auto simp: require_correlated_def Let_def split: prod.splits sum.splits)
  from require_expected_Inr [OF this(2,1)] show ?thesis using Some k by simp
qed

lemma require_correlated_keeps:
  "require_correlated env document self = (self', r) \<Longrightarrow> \<exists>x. self' = self\<lparr>sse_resolver := x\<rparr>"
  by (auto simp: require_correlated_def Let_def split: prod.splits sum.splits option.splits bool.splits)
    (metis sse_decoder.surjective sse_decoder.update_convs(9))+

lemma event_of_Inr:
  "event_of env held document identifier name = Inr e \<Longrightarrow>
     \<exists>digest bytes cursor. e = decoded_from document digest bytes cursor name"
  by (auto simp: event_of_def Let_def result_simps split: option.splits sum.splits if_splits)

lemma dispatch_authentic:
  assumes "dispatch env self = (self', Inr (Some item))"
  shows "item_authentic env (sse_subscription self) (sse_generation self) item"
proof -
  obtain document t e where d: "require_requested (discard self) document = Inr ()"
    "require_correlated env document (discard self) = (t, Inr ())"
    "event_of env (sse_bounds t) document (sse_identifier self) (event_name self) = Inr e" "item = Event e"
    using assms by (auto simp: dispatch_def Let_def split: if_splits option.splits sum.splits prod.splits)
  have "sse_subscription (discard self) = sse_subscription self" "sse_generation (discard self) = sse_generation self"
    by (simp_all add: discard_def)
  then show ?thesis
    using require_requested_Inr [OF d(1)] require_correlated_Inr [OF d(2)] event_of_Inr [OF d(3)] d(4)
    by (auto simp: event_authentic_def decoded_from_def split: option.splits)
qed


section \<open>What the decoder holds is bounded\<close>

text \<open>Whom a decoder reads for, and what it may hold between bytes.\<close>

definition reads_for :: "decoder_bounds \<Rightarrow> string \<Rightarrow> u64 \<Rightarrow> 'r sse_decoder \<Rightarrow> bool" where
  "reads_for held subscription generation s \<longleftrightarrow>
     sse_bounds s = held \<and> sse_subscription s = subscription \<and> sse_generation s = generation"

definition holds_within :: "decoder_bounds \<Rightarrow> 'r sse_decoder \<Rightarrow> bool" where
  "holds_within held s \<longleftrightarrow>
     length (pending s) \<le> unat (bound_line_bytes held) \<and>
     event_bytes s \<le> unat (bound_event_bytes held) \<and>
     length (sse_data s) \<le> event_bytes s \<and> length (event_name s) \<le> event_bytes s \<and>
     pred_option (\<lambda>i. length i \<le> unat (bound_identifier_bytes held)) (sse_identifier s)"

definition sane :: "decoder_bounds \<Rightarrow> bool" where
  "sane held \<longleftrightarrow> bound_line_bytes held < - 1 \<and> bound_event_bytes held < - 1 \<and> bound_identifier_bytes held < - 1"

lemma holds_discard [simp]: "holds_within held (discard s)"
  by (simp add: holds_within_def discard_def)

lemma reads_for_discard [simp]: "reads_for held subscription generation (discard s) = reads_for held subscription generation s"
  by (simp add: reads_for_def discard_def)

lemma poison_within [simp]:
  "holds_within held (s\<lparr>sse_poisoned := p\<rparr>) = holds_within held s"
  "reads_for held subscription generation (s\<lparr>sse_poisoned := p\<rparr>) = reads_for held subscription generation s"
  by (simp_all add: holds_within_def reads_for_def)

lemma field_parts_length: "field_parts line = (name, v) \<Longrightarrow> length name + length v \<le> length line"
  by (auto simp: field_parts_def split_once_Some split: option.splits if_splits)

lemma absorb_field_within:
  assumes "absorb_field line s = (s', r)" "reads_for held subscription generation s" "sane held"
    and "length (pending s) \<le> unat (bound_line_bytes held)" "event_bytes s \<le> unat (bound_event_bytes held)"
      "length (sse_data s) + length line \<le> event_bytes s" "length (event_name s) \<le> event_bytes s"
      "pred_option (\<lambda>i. length i \<le> unat (bound_identifier_bytes held)) (sse_identifier s)"
  shows "reads_for held subscription generation s'" "r = Inr () \<Longrightarrow> holds_within held s'"
proof -
  obtain name v where f: "field_parts line = (name, v)" by fastforce
  note l = field_parts_length [OF f]
  have cursor: "length v \<le> unat (bound_identifier_bytes held)" if "stream_cursor_new v (bound_identifier_bytes held) = Inr x" for x
    using that assms(3) as_u64_length_le [of "bound_identifier_bytes held" "length v"]
    by (auto simp: stream_cursor_new_def sane_def not_less split: if_splits)
  show "reads_for held subscription generation s'"
    using assms(1,2) f by (auto simp: absorb_field_def reads_for_def split: if_splits sum.splits)
  show "holds_within held s'" if "r = Inr ()"
    using assms f l that cursor
    by (auto simp: absorb_field_def holds_within_def reads_for_def split: if_splits sum.splits)
qed

lemma dispatch_state: "dispatch env s = (s', r) \<Longrightarrow> \<exists>x. s' = (discard s)\<lparr>sse_resolver := x\<rparr>"
proof -
  assume h: "dispatch env s = (s', r)"
  have same: "\<exists>x. discard s = (discard s)\<lparr>sse_resolver := x\<rparr>"
    by (rule exI [of _ "sse_resolver (discard s)"]) simp
  show ?thesis
  proof (cases "saw_field s")
    case False
    then show ?thesis using h same by (simp add: dispatch_def)
  next
    case saw: True
    show ?thesis
    proof (cases "parse_document env (stripped_data (sse_data s))")
      case None
      then show ?thesis using h saw same by (simp add: dispatch_def Let_def)
    next
      case (Some document)
      show ?thesis
      proof (cases "require_requested (discard s) document")
        case (Inl refusal)
        then show ?thesis using h saw Some same by (simp add: dispatch_def Let_def)
      next
        case (Inr u)
        obtain t q where c: "require_correlated env document (discard s) = (t, q)" by fastforce
        have "s' = t" using h saw Some Inr c by (auto simp: dispatch_def Let_def split: sum.splits)
        then show ?thesis using require_correlated_keeps [OF c] by simp
      qed
    qed
  qed
qed

lemma dispatch_within:
  assumes "dispatch env s = (s', r)" "reads_for held subscription generation s"
  shows "reads_for held subscription generation s'" "holds_within held s'"
  using dispatch_state [OF assms(1)] assms(2) by (auto simp: reads_for_def holds_within_def discard_def)

text \<open>What a step must establish, whatever it answers.\<close>

definition step_within ::
  "'r stream_environment \<Rightarrow> decoder_bounds \<Rightarrow> string \<Rightarrow> u64 \<Rightarrow> 'r sse_decoder \<times> (stream_refusal + stream_item option) \<Rightarrow> bool" where
  "step_within env held subscription generation = (\<lambda>(s', r).
     reads_for held subscription generation s' \<and>
     (case r of Inl _ \<Rightarrow> True | Inr answer \<Rightarrow> holds_within held s' \<and>
        pred_option (item_authentic env subscription generation) answer))"

lemma dispatch_step:
  assumes "reads_for held subscription generation s"
  shows "step_within env held subscription generation (dispatch env s)"
proof -
  obtain s' r where d: "dispatch env s = (s', r)" by fastforce
  have a: "item_authentic env subscription generation item" if "r = Inr (Some item)" for item
    using dispatch_authentic [of env s s' item] assms that d by (simp add: reads_for_def)
  show ?thesis
    using dispatch_within [OF d assms] a by (auto simp: step_within_def d option.pred_set split: sum.split)
qed

lemma complete_line_step:
  assumes s: "reads_for held subscription generation s" "sane held" "holds_within held s"
  shows "step_within env held subscription generation (complete_line env s)"
proof -
  define t where "t = s\<lparr>pending := []\<rparr>"
  define line where "line = octets (pending s)"
  define u where "u = t\<lparr>event_bytes := event_bytes t + length line\<rparr>"
  have t: "reads_for held subscription generation t" "holds_within held t"
    using assms by (simp_all add: t_def reads_for_def holds_within_def)
  have u: "reads_for held subscription generation u" using t(1) by (simp add: u_def reads_for_def)
  have held: "sse_bounds u = held" using u by (simp add: reads_for_def)
  have eq: "complete_line env s =
      (if \<not> is_ok (from_utf8 0 (pending s)) then (t, Inl StreamNotUnicode)
       else if line = [] then dispatch env t
       else if hd line = CHR '':'' then (t, Inr (Some Heartbeat))
       else if as_u64_length (event_bytes u) > bound_event_bytes held
       then (u, Inl (StreamEventTooLarge (bound_event_bytes held) (event_bytes u)))
       else (case absorb_field line u of (self, Inl refusal) \<Rightarrow> (self, Inl refusal) | (self, Inr _) \<Rightarrow> (self, Inr None)))"
    using held by (simp add: complete_line_def t_def u_def line_def Let_def)
  have field: "step_within env held subscription generation
      (case absorb_field line u of (self, Inl refusal) \<Rightarrow> (self, Inl refusal) | (self, Inr _) \<Rightarrow> (self, Inr None))"
    if "\<not> as_u64_length (event_bytes u) > bound_event_bytes held"
  proof -
    obtain s' v where v: "absorb_field line u = (s', v)" by fastforce
    have b: "event_bytes u \<le> unat (bound_event_bytes held)"
      using that s(2) as_u64_length_le [of "bound_event_bytes held"] by (auto simp: sane_def not_less)
    have h: "length (pending u) \<le> unat (bound_line_bytes held)" "length (sse_data u) + length line \<le> event_bytes u"
      "length (event_name u) \<le> event_bytes u"
      "pred_option (\<lambda>i. length i \<le> unat (bound_identifier_bytes held)) (sse_identifier u)"
      using t(2) by (simp_all add: u_def holds_within_def)
    show ?thesis using absorb_field_within [OF v u s(2) h(1) b h(2-4)] v
      by (cases v) (simp_all add: step_within_def)
  qed
  have rest: "step_within env held subscription generation (dispatch env t)"
    "step_within env held subscription generation (t, Inl StreamNotUnicode)"
    "step_within env held subscription generation (t, Inr (Some Heartbeat))"
    "step_within env held subscription generation (u, Inl (StreamEventTooLarge (bound_event_bytes held) (event_bytes u)))"
    using t u by (simp_all add: dispatch_step) (simp_all add: step_within_def)
  show ?thesis unfolding eq using field rest by (simp split: if_split)
qed

lemma sse_absorb_step:
  assumes s: "reads_for held subscription generation s" "sane held" "holds_within held s"
  shows "step_within env held subscription generation (sse_absorb env byte s)"
proof -
  have cr: "reads_for held subscription generation (s\<lparr>after_carriage_return := x\<rparr>)"
    "holds_within held (s\<lparr>after_carriage_return := x\<rparr>)" for x
    using assms by (simp_all add: reads_for_def holds_within_def)
  have line: "step_within env held subscription generation (complete_line env (s\<lparr>after_carriage_return := True\<rparr>))"
    "step_within env held subscription generation (complete_line env s)"
    using cr s complete_line_step by blast+
  have "bound_line_bytes (sse_bounds s) = bound_line_bytes held" using s(1) by (simp add: reads_for_def)
  then have eq: "sse_absorb env byte s =
     (if byte = CARRIAGE_RETURN then complete_line env (s\<lparr>after_carriage_return := True\<rparr>)
      else if byte = LINE_FEED
      then (if after_carriage_return s then (s\<lparr>after_carriage_return := False\<rparr>, Inr None) else complete_line env s)
      else if as_u64_length (length (pending s) + 1) > bound_line_bytes held
      then (s\<lparr>after_carriage_return := False\<rparr>, Inl (StreamLineTooLong (bound_line_bytes held) (length (pending s) + 1)))
      else (s\<lparr>after_carriage_return := False, pending := pending s @ [byte]\<rparr>, Inr None))"
    by (simp add: sse_absorb_def Let_def)
  have grow: "step_within env held subscription generation
      (s\<lparr>after_carriage_return := False, pending := pending s @ [byte]\<rparr>, Inr None)"
    if "\<not> as_u64_length (length (pending s) + 1) > bound_line_bytes held"
  proof -
    have "length (pending s) + 1 \<le> unat (bound_line_bytes held)"
      using that s(2) as_u64_length_le [of "bound_line_bytes held" "length (pending s) + 1"]
      by (auto simp: sane_def not_less)
    then show ?thesis using s by (simp add: step_within_def reads_for_def holds_within_def)
  qed
  show ?thesis unfolding eq using line grow cr by (auto simp: step_within_def)
qed


text \<open>What a chunk establishes, for any consumer that keeps a property of its state when it is given
  authenticated items.\<close>

definition consumer_keeps ::
  "'r stream_environment \<Rightarrow> string \<Rightarrow> u64 \<Rightarrow> (stream_item \<Rightarrow> ('c, stream_refusal, unit) receiver) \<Rightarrow>
     ('c \<Rightarrow> bool) \<Rightarrow> bool" where
  "consumer_keeps env subscription generation consume P \<longleftrightarrow>
     (\<forall>item c. item_authentic env subscription generation item \<longrightarrow> P c \<longrightarrow> P (fst (consume item c)))"

lemma push_bytes_within:
  assumes "push_bytes env consume chunk (s, c) = ((s', c'), r)"
    and "reads_for held subscription generation s" "sane held" "holds_within held s"
    and "consumer_keeps env subscription generation consume P"
    and "P c"
  shows "reads_for held subscription generation s' \<and> holds_within held s' \<and> P c'"
  using assms(1,2,4,6)
proof (induction chunk arbitrary: s c)
  case (Cons b chunk)
  obtain t q where a: "sse_absorb env b s = (t, q)" by fastforce
  note step = sse_absorb_step [OF Cons.prems(2) assms(3) Cons.prems(3), of env b, unfolded a step_within_def]
  have closed: "reads_for held subscription generation ((discard t)\<lparr>sse_poisoned := True\<rparr>)"
    using step by simp
  show ?case
  proof (cases q)
    case (Inl refusal)
    then show ?thesis using Cons.prems a closed by auto
  next
    case (Inr answer)
    show ?thesis
    proof (cases answer)
      case None
      then show ?thesis using Cons.IH [of t c] Cons.prems a Inr step by simp
    next
      case (Some item)
      obtain d v where d: "consume item c = (d, v)" by fastforce
      have "item_authentic env subscription generation item" using step Inr Some by simp
      then have "P (fst (consume item c))" using assms(5) Cons.prems(4) by (simp add: consumer_keeps_def)
      then have "P d" using d by simp
      then show ?thesis
        using Cons.IH [of t d] Cons.prems a Inr Some d step closed by (cases v) auto
    qed
  qed
qed simp

lemma push_each_within:
  assumes "push_each env consume chunk (s, c) = ((s', c'), r)"
    and "reads_for held subscription generation s" "sane held" "holds_within held s"
    and "consumer_keeps env subscription generation consume P"
    and "P c"
  shows "reads_for held subscription generation s' \<and> holds_within held s' \<and> P c'"
proof (cases "sse_poisoned s")
  case True
  then show ?thesis using assms by (simp add: push_each_closed)
next
  case False
  then show ?thesis using push_bytes_within [OF _ assms(2-6), of chunk s' c' r] assms(1) by (simp add: push_each_live)
qed

lemma drive_push_each_within:
  assumes "fst (drive (push_each env consume) (s, c) chunks) = (s', c')"
    and "reads_for held subscription generation s" "sane held" "holds_within held s"
    and "consumer_keeps env subscription generation consume P"
    and "P c"
  shows "reads_for held subscription generation s' \<and> holds_within held s' \<and> P c'"
  using assms(1,2,4,6)
proof (induction chunks arbitrary: s c)
  case (Cons chunk chunks)
  obtain t d q where p: "push_each env consume chunk (s, c) = ((t, d), q)" by (metis prod.exhaust)
  have "reads_for held subscription generation t \<and> holds_within held t \<and> P d"
    using push_each_within [OF p Cons.prems(2) assms(3) Cons.prems(3) assms(5) Cons.prems(4)] .
  then show ?case using Cons.IH [of t d] Cons.prems(1) p by (simp add: split_beta)
qed simp

lemma sane_embedded: "sane decoder_bounds_embedded"
  by (simp add: sane_def decoder_bounds_embedded_def contract_simps)

lemma sse_new_within:
  "reads_for held subscription generation (sse_new held subscription generation resolver)"
  "holds_within held (sse_new held subscription generation resolver)"
  "\<not> sse_poisoned (sse_new held subscription generation resolver)"
  by (simp_all add: reads_for_def holds_within_def sse_new_def)

text \<open>C30: Every event a stream delivers is authenticated: whatever bytes arrive in whatever chunks, each
  item handed to the consumer, even before a refusal, is a heartbeat or an event of the subscription and
  generation that were asked for, well formed, and an ending exactly when it carries the correlation that
  retained state and the installed contracts expect.\<close>
theorem delivered_events_are_authentic:
  "list_all (item_authentic env subscription generation)
     (snd (fst (drive (push_each env record_item)
       (sse_new decoder_bounds_embedded subscription generation resolver, []) chunks)))"
proof -
  obtain s' items where d: "fst (drive (push_each env record_item)
      (sse_new decoder_bounds_embedded subscription generation resolver, []) chunks) = (s', items)" by fastforce
  then show ?thesis
    using drive_push_each_within [OF d sse_new_within(1) sane_embedded sse_new_within(2),
        where P = "list_all (item_authentic env subscription generation)"]
    by (simp add: record_item_def consumer_keeps_def)
qed

text \<open>C31: A stream never decides how much memory the decoder holds: after any chunks the pending line, the
  data and the name of the event being assembled and its cursor stay within the contract's bounds.\<close>
theorem decoder_memory_is_bounded:
  "let s = fst (fst (drive (push_each env consume)
       (sse_new decoder_bounds_embedded subscription generation resolver, consumer) chunks))
   in length (pending s) \<le> 65536 \<and> length (sse_data s) \<le> 1048576 \<and> length (event_name s) \<le> 1048576 \<and>
      pred_option (\<lambda>i. length i \<le> 96) (sse_identifier s)"
proof -
  obtain s' c' where d: "fst (drive (push_each env consume)
      (sse_new decoder_bounds_embedded subscription generation resolver, consumer) chunks) = (s', c')" by fastforce
  have "holds_within decoder_bounds_embedded s'"
    using drive_push_each_within [OF d sse_new_within(1) sane_embedded sse_new_within(2), where P = "\<lambda>_. True"] by (simp add: consumer_keeps_def)
  then show ?thesis using d by (simp add: holds_within_def decoder_bounds_embedded_def contract_simps)
qed

text \<open>C32: Where the transport cuts the stream makes no difference: pushing chunks one after another until
  one is refused leaves the decoder and the consumer as one push of all the bytes does, with the same
  answer.\<close>
theorem stream_chunks_do_not_matter:
  "settled (feed (push_each env consume) (sse_new held subscription generation resolver, consumer) chunks) =
     push_each env consume (concat chunks) (sse_new held subscription generation resolver, consumer)"
  by (rule event_stream.fragments_do_not_matter) (simp add: sse_new_within)

section \<open>Lines\<close>

text \<open>The stream read line by line: a line too long is refused at the first byte beyond the bound, any
  other line is completed as a whole.\<close>

definition line_answer ::
  "'r stream_environment \<Rightarrow> byte list \<Rightarrow> ('r sse_decoder, stream_refusal, stream_item option) receiver" where
  "line_answer env line self =
     (if length line > unat (bound_line_bytes (sse_bounds self))
      then (self, Inl (StreamLineTooLong (bound_line_bytes (sse_bounds self))
              (unat (bound_line_bytes (sse_bounds self)) + 1)))
      else complete_line env (self\<lparr>pending := line\<rparr>))"

fun read_lines ::
  "'r stream_environment \<Rightarrow> (stream_item \<Rightarrow> ('c, stream_refusal, unit) receiver) \<Rightarrow> byte list list \<Rightarrow>
     ('r sse_decoder \<times> 'c, stream_refusal, unit) receiver" where
  "read_lines env consume [] (self, consumer) = ((self, consumer), Inr ())"
| "read_lines env consume (line # lines) (self, consumer) =
     (case line_answer env line self of
        (self, Inr None) \<Rightarrow> read_lines env consume lines (self, consumer)
      | (self, Inr (Some item)) \<Rightarrow>
          (case consume item consumer of
             (consumer, Inl refusal) \<Rightarrow> (((discard self)\<lparr>sse_poisoned := True\<rparr>, consumer), Inl refusal)
           | (consumer, Inr _) \<Rightarrow> read_lines env consume lines (self, consumer))
      | (self, Inl refusal) \<Rightarrow> (((discard self)\<lparr>sse_poisoned := True\<rparr>, consumer), Inl refusal))"

definition plain_line :: "byte list \<Rightarrow> bool" where
  "plain_line line \<longleftrightarrow> CARRIAGE_RETURN \<notin> set line \<and> LINE_FEED \<notin> set line"

lemma returned_simps [simp]:
  "after_carriage_return (returned p s) = p" "returned p (returned q s) = returned p s"
  "returned (after_carriage_return s) s = s" "(returned p s)\<lparr>after_carriage_return := q\<rparr> = returned q s"
  "sse_bounds (returned p s) = sse_bounds s" "pending (returned p s) = pending s"
  "(returned p s)\<lparr>pending := x\<rparr> = returned p (s\<lparr>pending := x\<rparr>)"
  by (simp_all add: returned_def)

lemma returned_pending: "returned p (s\<lparr>pending := x\<rparr>) = s\<lparr>after_carriage_return := p, pending := x\<rparr>"
  by (simp add: returned_def)

lemma closed_returned [simp]:
  "returned q ((discard (returned p s))\<lparr>sse_poisoned := True\<rparr>) = returned q ((discard s)\<lparr>sse_poisoned := True\<rparr>)"
  by (simp add: returned_def discard_def)

lemma push_plain:
  assumes "plain_line line" "bound_line_bytes (sse_bounds s) < - 1"
    and "length (pending s) \<le> unat (bound_line_bytes (sse_bounds s))"
  shows "push_bytes env consume (line @ rest) (s, c) =
    (if length (pending s) + length line \<le> unat (bound_line_bytes (sse_bounds s))
     then push_bytes env consume rest
       (returned (line = [] \<and> after_carriage_return s) (s\<lparr>pending := pending s @ line\<rparr>), c)
     else (((discard (returned False s))\<lparr>sse_poisoned := True\<rparr>, c),
           Inl (StreamLineTooLong (bound_line_bytes (sse_bounds s)) (unat (bound_line_bytes (sse_bounds s)) + 1))))"
  using assms
proof (induction line arbitrary: s)
  case Nil
  then show ?case by (simp add: returned_def)
next
  case (Cons b line)
  let ?bound = "bound_line_bytes (sse_bounds s)"
  have b: "b \<noteq> CARRIAGE_RETURN" "b \<noteq> LINE_FEED" "plain_line line" using Cons.prems(1) by (auto simp: plain_line_def)
  have gt: "as_u64_length (length (pending s) + 1) > ?bound \<longleftrightarrow> length (pending s) + 1 > unat ?bound"
    using as_u64_length_le [OF Cons.prems(2), of "length (pending s) + 1"] by (simp add: not_le [symmetric])
  show ?case
  proof (cases "length (pending s) + 1 > unat ?bound")
    case True
    then have "length (pending s) = unat ?bound" using Cons.prems(3) by simp
    then show ?thesis using b True gt by (simp add: sse_absorb_def Let_def returned_def)
  next
    case False
    let ?t = "returned False (s\<lparr>pending := pending s @ [b]\<rparr>)"
    have "push_bytes env consume ((b # line) @ rest) (s, c) = push_bytes env consume (line @ rest) (?t, c)"
      using b False gt by (simp add: sse_absorb_def Let_def returned_pending)
    then show ?thesis
      using Cons.IH [of ?t] Cons.prems b False
      by (simp add: returned_def discard_def)
  qed
qed

definition deliver ::
  "(stream_item \<Rightarrow> ('c, stream_refusal, unit) receiver) \<Rightarrow> ('r sse_decoder \<times> 'c, stream_refusal, unit) receiver \<Rightarrow>
     'c \<Rightarrow> 'r sse_decoder \<times> (stream_refusal + stream_item option) \<Rightarrow>
     ('r sse_decoder \<times> 'c) \<times> (stream_refusal + unit)" where
  "deliver consume next c = (\<lambda>(s, r). case r of
       Inl refusal \<Rightarrow> (((discard s)\<lparr>sse_poisoned := True\<rparr>, c), Inl refusal)
     | Inr None \<Rightarrow> next (s, c)
     | Inr (Some item) \<Rightarrow>
         (case consume item c of
            (c, Inl refusal) \<Rightarrow> (((discard s)\<lparr>sse_poisoned := True\<rparr>, c), Inl refusal)
          | (c, Inr _) \<Rightarrow> next (s, c)))"

lemma push_bytes_deliver:
  "push_bytes env consume (b # chunk) (s, c) = deliver consume (push_bytes env consume chunk) c (sse_absorb env b s)"
  by (auto simp: deliver_def split: prod.split sum.split option.split)

lemma read_lines_deliver:
  "read_lines env consume (line # lines) (s, c) = deliver consume (read_lines env consume lines) c (line_answer env line s)"
  by (auto simp: deliver_def split: prod.split sum.split option.split)

definition unreturned :: "('r sse_decoder \<times> 'c) \<times> 'x \<Rightarrow> ('r sse_decoder \<times> 'c) \<times> 'x" where
  "unreturned = apfst (apfst (returned False))"

lemma unreturned_deliver:
  assumes "\<And>c. is_ok (snd a) \<Longrightarrow> unreturned (f (returned p (fst a), c)) = unreturned (g (fst a, c))"
  shows "unreturned (deliver consume f c (apfst (returned p) a)) = unreturned (deliver consume g c a)"
  using assms by (cases a) (auto simp: deliver_def unreturned_def split: sum.split option.split prod.split)

lemma complete_line_start:
  assumes "complete_line env s = (s', r)"
  shows "pending s' = []" "sse_bounds s' = sse_bounds s"
proof -
  have "pending s' = [] \<and> sse_bounds s' = sse_bounds s" if "dispatch env (s\<lparr>pending := []\<rparr>) = (s', r)"
    using dispatch_state [OF that] by (auto simp: discard_def)
  moreover have "pending s' = pending t \<and> sse_bounds s' = sse_bounds t" if "absorb_field l t = (s', q)" for l t q
    using that by (auto simp: absorb_field_def split: if_splits prod.splits sum.splits)
  ultimately have "pending s' = [] \<and> sse_bounds s' = sse_bounds s"
    using assms unfolding complete_line_def Let_def by (auto split: if_splits prod.splits sum.splits)
  then show "pending s' = []" "sse_bounds s' = sse_bounds s" by simp_all
qed

lemma push_lines:
  assumes t: "t = [LINE_FEED] \<or> t = [CARRIAGE_RETURN] \<or> t = [CARRIAGE_RETURN, LINE_FEED]"
    and "list_all plain_line lines" "pending s = []" "bound_line_bytes (sse_bounds s) < - 1"
    and "p \<longrightarrow> t = [CARRIAGE_RETURN]"
  shows "unreturned (push_bytes env consume (concat (map (\<lambda>l. l @ t) lines)) (returned p s, c)) =
    unreturned (read_lines env consume lines (s, c))"
  using assms(2-5)
proof (induction lines arbitrary: s c p)
  case Nil
  then show ?case by (simp add: unreturned_def)
next
  case (Cons l lines)
  let ?R = "concat (map (\<lambda>l. l @ t) lines)"
  let ?bound = "bound_line_bytes (sse_bounds s)"
  have plain: "push_bytes env consume (l @ t @ ?R) (returned p s, c) =
    (if length l \<le> unat ?bound
     then push_bytes env consume (t @ ?R) (returned (l = [] \<and> p) (s\<lparr>pending := l\<rparr>), c)
     else (((discard (returned False s))\<lparr>sse_poisoned := True\<rparr>, c), Inl (StreamLineTooLong ?bound (unat ?bound + 1))))"
    using push_plain [of l "returned p s" env consume "t @ ?R" c] Cons.prems by simp
  show ?case
  proof (cases "length l \<le> unat ?bound")
    case False
    then show ?thesis using plain
      by (simp add: read_lines_deliver line_answer_def deliver_def unreturned_def del: read_lines.simps)
  next
    case True
    define a where "a = complete_line env (s\<lparr>pending := l\<rparr>)"
    have answer: "line_answer env l s = a" using True by (simp add: line_answer_def a_def)
    have next_line: "unreturned (push_bytes env consume ?R (returned q (fst a), d)) =
        unreturned (read_lines env consume lines (fst a, d))" if "q \<longrightarrow> t = [CARRIAGE_RETURN]" for q d
      using Cons.IH [of "fst a" q d] Cons.prems that complete_line_start [of env "s\<lparr>pending := l\<rparr>" "fst a" "snd a"]
      by (simp add: a_def)
    have lf: "push_bytes env consume (LINE_FEED # ?R) (returned True x, d) = push_bytes env consume ?R (returned False x, d)" for x d
      by (simp add: sse_absorb_def LINE_FEED_def CARRIAGE_RETURN_def)
    have marked: "complete_line env (returned q (s\<lparr>pending := l\<rparr>)) = apfst (returned q) a" for q
      by (simp add: a_def returned.complete_line_mark)
    have cr: "push_bytes env consume (CARRIAGE_RETURN # R) (returned q (s\<lparr>pending := l\<rparr>), c) =
        deliver consume (push_bytes env consume R) c (apfst (returned True) a)" for q R
      unfolding push_bytes_deliver by (simp add: sse_absorb_def marked)
    have go: "unreturned (deliver consume f c (apfst (returned q) a)) = unreturned (deliver consume (read_lines env consume lines) c a)"
      if "\<And>d. unreturned (f (returned q (fst a), d)) = unreturned (read_lines env consume lines (fst a, d))" for f q
      by (rule unreturned_deliver) (rule that)
    consider "t = [LINE_FEED]" "\<not> p" | "t = [CARRIAGE_RETURN]" | "t = [CARRIAGE_RETURN, LINE_FEED]" "\<not> p"
      using t Cons.prems(4) by (auto simp: LINE_FEED_def CARRIAGE_RETURN_def)
    then have "unreturned (push_bytes env consume (t @ ?R) (returned (l = [] \<and> p) (s\<lparr>pending := l\<rparr>), c)) =
        unreturned (deliver consume (read_lines env consume lines) c a)"
    proof cases
      case 1
      have "push_bytes env consume (LINE_FEED # ?R) (returned False (s\<lparr>pending := l\<rparr>), c) =
          deliver consume (push_bytes env consume ?R) c (apfst (returned False) a)"
        unfolding push_bytes_deliver by (simp add: sse_absorb_def marked LINE_FEED_def CARRIAGE_RETURN_def)
      then show ?thesis using 1 go [of "push_bytes env consume ?R" False] next_line [of False] by simp
    next
      case 2
      then show ?thesis using go [of "push_bytes env consume ?R" True] next_line [of True] by (simp add: cr del: push_bytes.simps(2))
    next
      case 3
      have "unreturned (push_bytes env consume (LINE_FEED # ?R) (returned True (fst a), d)) =
          unreturned (read_lines env consume lines (fst a, d))" for d
        unfolding lf using next_line [of False] by simp
      then show ?thesis using 3 go [of "push_bytes env consume (LINE_FEED # ?R)" True] by (simp add: cr del: push_bytes.simps(2))
    qed
    then show ?thesis using plain True answer by (simp add: read_lines_deliver del: read_lines.simps)
  qed
qed

text \<open>The decoder reads lines, however they end: a stream of whole lines ended by line feeds, by
  carriage returns or by pairs of them delivers the items, leaves the state and gives the answer of a
  reader that takes one line at a time, apart from the flag that waits for the second half of a pair.\<close>

lemma stream_reads_lines:
  assumes "t \<in> {[LINE_FEED], [CARRIAGE_RETURN], [CARRIAGE_RETURN, LINE_FEED]}"
    and "list_all plain_line lines"
  shows "unreturned (push_each env consume (concat (map (\<lambda>l. l @ t) lines))
      (sse_new decoder_bounds_embedded subscription generation resolver, c)) =
    unreturned (read_lines env consume lines
      (sse_new decoder_bounds_embedded subscription generation resolver, c))"
proof -
  let ?s = "sse_new decoder_bounds_embedded subscription generation resolver"
  have "returned False ?s = ?s" "pending ?s = []" by (simp_all add: sse_new_def returned_def)
  moreover have "bound_line_bytes (sse_bounds ?s) < - 1"
    using sane_embedded by (simp add: sse_new_def sane_def)
  ultimately show ?thesis
    using push_lines [of t lines ?s False env consume c] assms by (simp add: push_each_live sse_new_within)
qed

end
