(* ===== verification/Event_Delivery.thy ===== *)
theory Event_Delivery
  imports Event_Stream
begin

text \<open>
  Liveness of an event stream, \<open>crates/slingshot-agent-connection/src/event_stream_heartbeat.rs\<close>, and the
  delivery that couples it with the decoder, \<open>EventDelivery\<close> of \<open>selected_author_events.rs\<close>.  Time is a
  reading in milliseconds since the stream attached: the clock is a parameter that yields one reading at a
  time.
\<close>

section \<open>The heartbeat\<close>

datatype connection_state = Healthy | TimedOut

fun requires_reconnection :: "connection_state \<Rightarrow> bool" where
  "requires_reconnection TimedOut = True"
| "requires_reconnection Healthy = False"

datatype heartbeat_fault = ClockRegressed u64 u64

record event_stream_heartbeat =
  last_activity_milliseconds :: u64
  timeout_milliseconds :: u64

definition heartbeat_timeout_milliseconds :: u64 where
  "heartbeat_timeout_milliseconds = the (formula embedded_contract ''heartbeat_timeout_milliseconds'')"

definition heartbeat_interval_milliseconds :: u64 where
  "heartbeat_interval_milliseconds = embedded_limit ''heartbeat_interval_milliseconds''"

definition attachment_deadlines :: exchange_deadlines where
  "attachment_deadlines = exchange_deadlines_embedded"

definition attached_with_timeout :: "u64 \<Rightarrow> u64 \<Rightarrow> event_stream_heartbeat" where
  "attached_with_timeout now timeout = \<lparr>last_activity_milliseconds = now, timeout_milliseconds = timeout\<rparr>"

definition attached_at :: "u64 \<Rightarrow> event_stream_heartbeat" where
  "attached_at now = \<lparr>last_activity_milliseconds = now, timeout_milliseconds = heartbeat_timeout_milliseconds\<rparr>"

definition require_monotonic :: "event_stream_heartbeat \<Rightarrow> u64 \<Rightarrow> heartbeat_fault + unit" where
  "require_monotonic self now =
     (if now < last_activity_milliseconds self then Inl (ClockRegressed (last_activity_milliseconds self) now)
      else Inr ())"

definition refresh :: "u64 \<Rightarrow> event_stream_heartbeat \<Rightarrow> heartbeat_fault + event_stream_heartbeat" where
  "refresh now self = bindE (require_monotonic self now) (\<lambda>_. Inr (self\<lparr>last_activity_milliseconds := now\<rparr>))"

definition heartbeat_observe ::
  "stream_item \<Rightarrow> u64 \<Rightarrow> (event_stream_heartbeat, heartbeat_fault, connection_state) receiver" where
  "heartbeat_observe item now self =
     (case refresh now self of Inl fault \<Rightarrow> (self, Inl fault) | Inr self' \<Rightarrow> (self', Inr Healthy))"

definition state_at :: "event_stream_heartbeat \<Rightarrow> u64 \<Rightarrow> heartbeat_fault + connection_state" where
  "state_at self now =
     bindE (require_monotonic self now) (\<lambda>_.
       let quiet_for = now - last_activity_milliseconds self in
       Inr (if quiet_for > timeout_milliseconds self then TimedOut else Healthy))"

section \<open>Delivery\<close>

text \<open>The failures of a finite exchange that delivery reports.\<close>

datatype delivery_failure = DeliveryHead | DeliveryBody | DeliveryHeartbeat

text \<open>The consumer of a delivery and the clock are one state, because the items are consumed between
  readings: \<open>elapsed\<close> reads the milliseconds since attachment.\<close>

record ('r, 'c) event_delivery =
  delivery_decoder :: "'r sse_decoder"
  delivery_consumer :: 'c
  delivery_heartbeat :: event_stream_heartbeat
  delivery_poisoned :: bool

definition delivery_attached ::
  "response_head \<Rightarrow> str \<Rightarrow> string \<Rightarrow> u64 \<Rightarrow> 'r \<Rightarrow> 'c \<Rightarrow> delivery_failure + ('r, 'c) event_delivery" where
  "delivery_attached head' media subscription generation resolver consumer =
     (if location head' \<noteq> None then Inl DeliveryHead
      else (case attached_subscription head' media decoder_bounds_embedded subscription generation resolver of
          Inl _ \<Rightarrow> Inl DeliveryHead
        | Inr decoder \<Rightarrow>
            Inr \<lparr>delivery_decoder = decoder, delivery_consumer = consumer,
              delivery_heartbeat = attached_at 0, delivery_poisoned = False\<rparr>))"

definition deadline :: "event_stream_heartbeat \<Rightarrow> u64" where
  "deadline h = saturating_add (saturating_add (last_activity_milliseconds h) (timeout_milliseconds h)) 1"

text \<open>The closure that \<open>push\<close> hands to the decoder: the item counts only while the connection is alive.\<close>

definition deliver_item ::
  "('k \<Rightarrow> 'k \<times> u64) \<Rightarrow> (stream_item \<Rightarrow> ('c, delivery_failure, unit) receiver) \<Rightarrow> stream_item \<Rightarrow>
     (event_stream_heartbeat \<times> 'c \<times> 'k, stream_refusal, unit) receiver" where
  "deliver_item elapsed consume item = (\<lambda>(heartbeat, consumer, clock).
     let (clock, now) = elapsed clock in
     case state_at heartbeat now of
       Inl _ \<Rightarrow> ((heartbeat, consumer, clock), Inl StreamConsumer)
     | Inr state' \<Rightarrow>
         if requires_reconnection state' then ((heartbeat, consumer, clock), Inl StreamConsumer)
         else (case heartbeat_observe item now heartbeat of
             (heartbeat, Inl _) \<Rightarrow> ((heartbeat, consumer, clock), Inl StreamConsumer)
           | (heartbeat, Inr _) \<Rightarrow>
               (case consume item consumer of
                  (consumer, Inl _) \<Rightarrow> ((heartbeat, consumer, clock), Inl StreamConsumer)
                | (consumer, Inr _) \<Rightarrow> ((heartbeat, consumer, clock), Inr ()))))"

definition delivery_push ::
  "'r stream_environment \<Rightarrow> ('k \<Rightarrow> 'k \<times> u64) \<Rightarrow> (stream_item \<Rightarrow> ('c, delivery_failure, unit) receiver) \<Rightarrow>
     byte list \<Rightarrow> (('r, 'c) event_delivery \<times> 'k, delivery_failure, unit) receiver" where
  "delivery_push env elapsed consume bytes = (\<lambda>(self, clock).
     if delivery_poisoned self then ((self, clock), Inl DeliveryBody)
     else
       let self = self\<lparr>delivery_poisoned := True\<rparr>; (clock, now) = elapsed clock in
       if now \<ge> deadline (delivery_heartbeat self) then ((self, clock), Inl DeliveryHeartbeat)
       else
         let ((decoder, heartbeat, consumer, clock), answer) =
               push_each env (deliver_item elapsed consume) bytes
                 (delivery_decoder self, delivery_heartbeat self, delivery_consumer self, clock);
             self = self\<lparr>delivery_decoder := decoder, delivery_heartbeat := heartbeat,
                      delivery_consumer := consumer\<rparr>;
             (clock, now) = elapsed clock
         in if now \<ge> deadline heartbeat then ((self, clock), Inl DeliveryHeartbeat)
            else (case answer of
                Inl _ \<Rightarrow> ((self, clock), Inl DeliveryBody)
              | Inr _ \<Rightarrow> ((self\<lparr>delivery_poisoned := False\<rparr>, clock), Inr ())))"

definition delivery_finish ::
  "('k \<Rightarrow> 'k \<times> u64) \<Rightarrow> ('r, 'c) event_delivery \<Rightarrow> 'k \<Rightarrow> 'k \<times> (delivery_failure + unit)" where
  "delivery_finish elapsed self clock =
     (let (clock, now) = elapsed clock in
      if now \<ge> deadline (delivery_heartbeat self) then (clock, Inl DeliveryHeartbeat)
      else if delivery_poisoned self \<or> has_partial_event (delivery_decoder self) then (clock, Inl DeliveryBody)
      else (clock, Inr ()))"


section \<open>What liveness decides\<close>

lemma unat_deadline:
  assumes "unat (last_activity_milliseconds h) + unat (timeout_milliseconds h) + 1 < 2 ^ 64"
  shows "unat (deadline h) = unat (last_activity_milliseconds h) + unat (timeout_milliseconds h) + 1"
  using assms by (simp add: deadline_def unat_saturating_add min_def)

lemma timed_out_iff:
  assumes "last_activity_milliseconds h \<le> now"
  shows "state_at h now =
    Inr (if unat (last_activity_milliseconds h) + unat (timeout_milliseconds h) < unat now then TimedOut else Healthy)"
  using assms
  by (auto simp: state_at_def require_monotonic_def Let_def word_less_nat_alt word_le_nat_alt unat_sub)

lemma deadline_iff:
  assumes "last_activity_milliseconds h \<le> now"
    and "unat (last_activity_milliseconds h) + unat (timeout_milliseconds h) + 1 < 2 ^ 64"
  shows "now \<ge> deadline h \<longleftrightarrow> state_at h now = Inr TimedOut"
  using assms by (auto simp: timed_out_iff word_le_nat_alt unat_deadline)

lemma delivery_push_closed:
  "delivery_poisoned self \<Longrightarrow> delivery_push env elapsed consume bytes (self, clock) = ((self, clock), Inl DeliveryBody)"
  by (simp add: delivery_push_def)

interpretation delivery: closing_decoder "delivery_push env elapsed consume" "\<lambda>s. delivery_poisoned (fst s)"
  for env elapsed consume
proof
  fix env :: "'r stream_environment" and elapsed :: "'k \<Rightarrow> 'k \<times> u64"
    and consume :: "stream_item \<Rightarrow> ('c, delivery_failure, unit) receiver" and i e
    and s s' :: "('r, 'c) event_delivery \<times> 'k"
  assume "delivery_push env elapsed consume i s = (s', Inl e)"
  then show "delivery_poisoned (fst s')"
    by (cases s) (auto simp: delivery_push_def Let_def split: if_splits prod.splits sum.splits)
next
  fix env :: "'r stream_environment" and elapsed :: "'k \<Rightarrow> 'k \<times> u64"
    and consume :: "stream_item \<Rightarrow> ('c, delivery_failure, unit) receiver" and i r
    and s s' :: "('r, 'c) event_delivery \<times> 'k"
  assume "delivery_poisoned (fst s)" "delivery_push env elapsed consume i s = (s', r)"
  then show "\<not> is_ok r" by (cases s) (auto simp: delivery_push_closed)
qed

lemma drive_delivery_closed:
  "delivery_poisoned self \<Longrightarrow>
     drive (delivery_push env elapsed consume) (self, clock) chunks =
       ((self, clock), replicate (length chunks) (Inl DeliveryBody))"
  by (induction chunks) (simp_all add: delivery_push_closed)

text \<open>Two checks of silence agree: the transport's deadline has passed exactly when the heartbeat calls
  the connection timed out, so a gap of exactly the timeout is still alive and one millisecond more is
  not.\<close>

lemma deadline_agrees_with_heartbeat:
  assumes "last_activity_milliseconds h \<le> now"
    and "unat (last_activity_milliseconds h) + unat (timeout_milliseconds h) + 1 < 2 ^ 64"
  shows "(now \<ge> deadline h \<longleftrightarrow> state_at h now = Inr TimedOut) \<and>
    (state_at h now = Inr TimedOut \<longleftrightarrow> unat (last_activity_milliseconds h) + unat (timeout_milliseconds h) < unat now)"
  using deadline_iff [OF assms] timed_out_iff [OF assms(1)] by simp

text \<open>A stream that stays silent past its timeout is dropped and stays dropped: the push that arrives
  too late is refused as a lost heartbeat, no byte of it or of any later push reaches the decoder or the
  consumer, and every later push is refused.\<close>

lemma silence_ends_delivery:
  assumes "\<not> delivery_poisoned self"
    and "elapsed clock = (clock', now)" and "now \<ge> deadline (delivery_heartbeat self)"
  shows "drive (delivery_push env elapsed consume) (self, clock) (bytes # chunks) =
    ((self\<lparr>delivery_poisoned := True\<rparr>, clock'),
     Inl DeliveryHeartbeat # replicate (length chunks) (Inl DeliveryBody))"
proof -
  have "delivery_push env elapsed consume bytes (self, clock) =
      ((self\<lparr>delivery_poisoned := True\<rparr>, clock'), Inl DeliveryHeartbeat)"
    using assms by (simp add: delivery_push_def)
  then show ?thesis by (simp add: drive_delivery_closed)
qed

definition example_delivery :: "(unit, nat) event_delivery" where
  "example_delivery = \<lparr>delivery_decoder = sse_new decoder_bounds_embedded ''s'' 1 (), delivery_consumer = 0,
     delivery_heartbeat = attached_at 0, delivery_poisoned = False\<rparr>"

end
