(* ===== verification/Logical_Operation.thy ===== *)
theory Logical_Operation
  imports Remote_Jobs "HOL-Library.Multiset"
begin

text \<open>
  One logical command and the physical records a queue makes of it:
  \<open>slingshot-domain/src/logical_agent_operation.rs\<close>.  Every method of the operation is a
  function of the receiver, and \<open>perform\<close> lets any caller make any call in any order.  The
  theorems show that whatever callers do, one of them starts the work and only that one ever
  records its effect, that a repeated or late delivery of a job record changes nothing, and that
  no order of calls leaves an operation in a state nobody can act on.
\<close>

section \<open>The operation\<close>

datatype logical_execution_state = ExecutionNotStarted | ExecutionStarted | Effected

datatype logical_execution_failure =
    AlreadyStarted
  | NotTheHolder
  | NotStarted
  | AttemptsExhausted u64
  | TooManyRecords u64 nat

record logical_agent_operation =
  attempts :: u64
  holder :: "u64 option"
  physical_records :: "string list"
  execution_state :: logical_execution_state

definition recorded :: logical_agent_operation where
  "recorded = \<lparr>attempts = 0, holder = None, physical_records = [],
     execution_state = ExecutionNotStarted\<rparr>"

definition maximum_attempts :: u64 where
  "maximum_attempts = embedded_limit ''maximum_logical_outbox_attempts''"

definition maximum_records :: u64 where
  "maximum_records = embedded_limit ''maximum_physical_sling_job_matches''"

text \<open>A Rust string is compared bytewise, which is the order \<open>sort\<close> uses here.\<close>

definition physical_record ::
  "string \<Rightarrow> (logical_agent_operation, logical_execution_failure, unit) receiver" where
  "physical_record sling_job_identifier self =
     (if sling_job_identifier \<in> set (physical_records self) then (self, Inr ())
      else if length (physical_records self) \<ge> unat maximum_records
      then (self, Inl (TooManyRecords maximum_records (length (physical_records self) + 1)))
      else (self\<lparr>physical_records := sort (physical_records self @ [sling_job_identifier])\<rparr>,
            Inr ()))"

definition start :: "u64 \<Rightarrow> (logical_agent_operation, logical_execution_failure, unit) receiver" where
  "start lease self =
     (if execution_state self \<noteq> ExecutionNotStarted then (self, Inl AlreadyStarted)
      else if attempts self \<ge> maximum_attempts
      then (self, Inl (AttemptsExhausted maximum_attempts))
      else (self\<lparr>attempts := attempts self + 1, holder := Some lease,
                 execution_state := ExecutionStarted\<rparr>, Inr ()))"

definition effect :: "u64 \<Rightarrow> (logical_agent_operation, logical_execution_failure, unit) receiver" where
  "effect lease self =
     (if execution_state self \<noteq> ExecutionStarted then (self, Inl NotStarted)
      else if holder self \<noteq> Some lease then (self, Inl NotTheHolder)
      else (self\<lparr>execution_state := Effected\<rparr>, Inr ()))"

definition is_recoverable :: "logical_agent_operation \<Rightarrow> bool" where
  "is_recoverable self =
     (case execution_state self of
        ExecutionNotStarted \<Rightarrow> holder self = None
      | ExecutionStarted \<Rightarrow> holder self \<noteq> None
      | Effected \<Rightarrow> holder self \<noteq> None)"

section \<open>Any caller, any order\<close>

datatype logical_call = PhysicalRecord string | Start u64 | Effect u64

fun perform ::
  "logical_call \<Rightarrow> (logical_agent_operation, logical_execution_failure, unit) receiver" where
  "perform (PhysicalRecord identifier) self = physical_record identifier self"
| "perform (Start lease) self = start lease self"
| "perform (Effect lease) self = effect lease self"

text \<open>The calls of a history with the answer each one got, and the operation they leave.\<close>

fun answers ::
  "logical_agent_operation \<Rightarrow> logical_call list \<Rightarrow>
     (logical_call \<times> (logical_execution_failure + unit)) list" where
  "answers self [] = []"
| "answers self (c # cs) =
     (c, snd (perform c self)) # answers (fst (perform c self)) cs"

fun performed :: "logical_agent_operation \<Rightarrow> logical_call list \<Rightarrow> logical_agent_operation" where
  "performed self [] = self"
| "performed self (c # cs) = performed (fst (perform c self)) cs"

fun is_record :: "logical_call \<Rightarrow> bool" where
  "is_record (PhysicalRecord _) = True"
| "is_record _ = False"

text \<open>The transitions a history really made, in order.\<close>

definition transitions ::
  "(logical_call \<times> (logical_execution_failure + unit)) list \<Rightarrow> logical_call list" where
  "transitions h = map fst (filter (\<lambda>(c, r). \<not> is_record c \<and> is_ok r) h)"

text \<open>What can still happen to an operation, by how far it has got.\<close>

definition remaining :: "logical_agent_operation \<Rightarrow> logical_call list set" where
  "remaining self =
     (case (execution_state self, holder self) of
        (ExecutionNotStarted, _) \<Rightarrow> {[]} \<union> {[Start l] | l. True} \<union> {[Start l, Effect l] | l. True}
      | (ExecutionStarted, Some l) \<Rightarrow> {[], [Effect l]}
      | _ \<Rightarrow> {[]})"

definition logical_ok :: "logical_agent_operation \<Rightarrow> bool" where
  "logical_ok self \<longleftrightarrow> is_recoverable self \<and>
     attempts self = (if execution_state self = ExecutionNotStarted then 0 else 1)"

lemmas logical_defs = physical_record_def start_def effect_def maximum_attempts_def
  maximum_records_def contract_simps

lemma physical_record_keeps [simp]:
  "execution_state (fst (physical_record i self)) = execution_state self"
  "holder (fst (physical_record i self)) = holder self"
  "attempts (fst (physical_record i self)) = attempts self"
  by (simp_all add: physical_record_def)

lemma logical_ok_recorded [simp]: "logical_ok recorded"
  by (simp add: logical_ok_def is_recoverable_def recorded_def)

lemma logical_ok_perform: "logical_ok self \<Longrightarrow> logical_ok (fst (perform c self))"
  by (cases c; cases "execution_state self")
    (auto simp: logical_ok_def is_recoverable_def logical_defs)

lemma logical_ok_performed: "logical_ok self \<Longrightarrow> logical_ok (performed self cs)"
  by (induction cs arbitrary: self) (auto intro: logical_ok_perform)

lemma attempts_never_exhausted:
  "logical_ok self \<Longrightarrow> (c, Inl (AttemptsExhausted n)) \<notin> set (answers self cs)"
proof (induction cs arbitrary: self)
  case (Cons d cs)
  then have "(c, Inl (AttemptsExhausted n)) \<notin> set (answers (fst (perform d self)) cs)"
    using logical_ok_perform by blast
  moreover have "snd (perform d self) \<noteq> Inl (AttemptsExhausted n)"
    using Cons.prems by (cases d; cases "execution_state self")
      (auto simp: logical_ok_def logical_defs)
  ultimately show ?case by auto
qed simp

lemma transitions_Cons:
  "transitions ((c, r) # h) =
     (if \<not> is_record c \<and> is_ok r then c # transitions h else transitions h)"
  by (simp add: transitions_def)

text \<open>One call takes the next remaining transition or leaves what remains unchanged.\<close>

lemma remaining_step:
  assumes "logical_ok self" and "ts \<in> remaining (fst (perform c self))"
  shows "(if \<not> is_record c \<and> is_ok (snd (perform c self)) then c # ts else ts) \<in> remaining self"
  using assms
  by (cases c; cases "execution_state self"; cases "holder self")
    (auto simp: remaining_def logical_ok_def is_recoverable_def start_def effect_def)

lemma transitions_remaining:
  "logical_ok self \<Longrightarrow> transitions (answers self cs) \<in> remaining self"
proof (induction cs arbitrary: self)
  case Nil
  then show ?case
    by (cases "execution_state self") (auto simp: transitions_def remaining_def split: option.splits)
next
  case (Cons c cs)
  then have "transitions (answers (fst (perform c self)) cs) \<in> remaining (fst (perform c self))"
    using logical_ok_perform by blast
  from remaining_step [OF Cons.prems this] show ?case by (simp add: transitions_Cons)
qed

lemma start_unless_started:
  assumes "execution_state self = ExecutionNotStarted" and "logical_ok self"
  shows "transitions (answers self cs) = [] \<longleftrightarrow> (\<forall>l. Start l \<notin> set cs)"
  using assms
proof (induction cs arbitrary: self)
  case (Cons c cs)
  show ?case
  proof (cases "\<exists>l. c = Start l")
    case True
    then show ?thesis using Cons.prems by (auto simp: transitions_Cons logical_ok_def logical_defs)
  next
    case False
    then have "execution_state (fst (perform c self)) = ExecutionNotStarted"
      and "is_record c \<or> \<not> is_ok (snd (perform c self))"
      using Cons.prems by (cases c; auto simp: logical_defs)+
    then show ?thesis
      using False Cons.IH [of "fst (perform c self)"] logical_ok_perform [OF Cons.prems(2)]
      by (auto simp: transitions_Cons)
  qed
qed (simp add: transitions_def)

text \<open>C11: Whatever callers ask of an operation and in whatever order, the transitions that are
  granted are none, one start, or one start followed by one effect under the very lease that
  started it; the first caller that tries to start is never turned away; and the operation can
  be acted on after every prefix of the history, with one attempt counted at most.\<close>

theorem logical_effect_happens_once:
  "transitions (answers recorded cs) \<in> {[]} \<union> {[Start l] | l. True} \<union> {[Start l, Effect l] | l. True}
   \<and> (transitions (answers recorded cs) = [] \<longleftrightarrow> (\<forall>l. Start l \<notin> set cs))
   \<and> is_recoverable (performed recorded cs) \<and> attempts (performed recorded cs) \<le> 1
   \<and> (\<forall>c n. (c, Inl (AttemptsExhausted n)) \<notin> set (answers recorded cs))"
proof (intro conjI)
  have fresh: "execution_state recorded = ExecutionNotStarted" by (simp add: recorded_def)
  have "transitions (answers recorded cs) \<in> remaining recorded"
    by (rule transitions_remaining) simp
  then show "transitions (answers recorded cs) \<in>
      {[]} \<union> {[Start l] | l. True} \<union> {[Start l, Effect l] | l. True}"
    using fresh by (simp add: remaining_def)
  show "transitions (answers recorded cs) = [] \<longleftrightarrow> (\<forall>l. Start l \<notin> set cs)"
    using start_unless_started [OF fresh logical_ok_recorded] .
  have "logical_ok (performed recorded cs)" by (rule logical_ok_performed) simp
  then show "is_recoverable (performed recorded cs)" "attempts (performed recorded cs) \<le> 1"
    by (simp_all add: logical_ok_def)
  show "\<forall>c n. (c, Inl (AttemptsExhausted n)) \<notin> set (answers recorded cs)"
    using attempts_never_exhausted [OF logical_ok_recorded] by blast
qed

section \<open>Deliveries\<close>

fun delivered :: "logical_call list \<Rightarrow> string list" where
  "delivered [] = []"
| "delivered (PhysicalRecord identifier # cs) = identifier # delivered cs"
| "delivered (_ # cs) = delivered cs"

text \<open>The first occurrence of each element, in order.\<close>

definition firsts :: "'a list \<Rightarrow> 'a list" where
  "firsts xs = rev (remdups (rev xs))"

lemma firsts_snoc: "firsts (xs @ [x]) = (if x \<in> set xs then firsts xs else firsts xs @ [x])"
  by (simp add: firsts_def)

lemma set_firsts [simp]: "set (firsts xs) = set xs"
  by (simp add: firsts_def)

lemma distinct_firsts [simp]: "distinct (firsts xs)"
  by (simp add: firsts_def)

lemma delivered_append: "delivered (xs @ ys) = delivered xs @ delivered ys"
  by (induction xs rule: delivered.induct) auto

lemma performed_append: "performed self (xs @ ys) = performed (performed self xs) ys"
  by (induction xs arbitrary: self) auto

lemma sort_snoc: "sort (sort xs @ [x]) = sort (xs @ [x :: 'a::linorder])"
  by (rule properties_for_sort) (simp_all)

lemma physical_records_perform:
  "physical_records (fst (physical_record i self)) =
     (if i \<in> set (physical_records self) \<or> 32 \<le> length (physical_records self)
      then physical_records self else sort (physical_records self @ [i]))"
  "physical_records (fst (start l self)) = physical_records self"
  "physical_records (fst (effect l self)) = physical_records self"
  by (auto simp: logical_defs)

text \<open>Deliveries are at least once and harmless: after any history an operation holds, in a
  fixed order and without repetition, exactly the first thirty-two different job records that
  were delivered to it, however often and in whatever order they came and whatever else was
  asked between them.\<close>

lemma logical_records_are_first_deliveries:
  "physical_records (performed recorded cs) = sort (take 32 (firsts (delivered cs)))"
proof (induction cs rule: rev_induct)
  case Nil
  then show ?case by (simp add: recorded_def firsts_def)
next
  case (snoc c cs)
  show ?case
  proof (cases c)
    case (PhysicalRecord i)
    let ?f = "firsts (delivered cs)"
    show ?thesis
    proof (cases "32 \<le> length ?f")
      case True
      then show ?thesis
        using PhysicalRecord snoc
        by (simp add: performed_append physical_records_perform delivered_append firsts_snoc)
    next
      case False
      then show ?thesis
        using PhysicalRecord snoc
        by (simp add: performed_append physical_records_perform delivered_append firsts_snoc
            sort_snoc)
    qed
  qed (use snoc in \<open>simp_all add: performed_append physical_records_perform delivered_append\<close>)
qed

end
