(* ===== verification/Runtime_Contract.thy ===== *)
theory Runtime_Contract
  imports Slingshot_Prelude
begin

text \<open>
  The numbers the daemon spends and what one runtime namespace may keep:
  \<open>slingshot-domain/src/daemon_runtime_contract.rs\<close> with the committed manifest it embeds,
  \<open>policy/daemon-runtime-contract-2.json\<close>, and \<open>slingshot-domain/src/persistent_capacity.rs\<close>.
  A lookup of a name the manifest does not have panics in the source and is \<open>None\<close> here, and the
  consistency check is an outer option for the panic around the inner checked arithmetic.
  SHA-256 is a parameter of the derivation of maintenance identifiers.  The lemmas show that the
  committed manifest is consistent, that a bound is accepted exactly when it is the largest
  declared value, and that the octets of a maintenance identifier have one reading.
\<close>

section \<open>The contract\<close>

record runtime_contract =
  runtime_format :: string
  runtime_formulas :: "(string \<times> u64) list"
  runtime_limits :: "(string \<times> u64) list"
  operation_protocol_version :: u64

definition embedded_runtime_contract :: runtime_contract where
  "embedded_runtime_contract = \<lparr>
   runtime_format = ''slingshot.daemon-runtime-contract/2'',
   runtime_formulas = [
    (''maximum_individual_artifact_bytes'', 536870912),
    (''maximum_sqlite_database_bytes'', 1073741824),
    (''maximum_sqlite_physical_bytes'', 1141506080),
    (''maximum_sqlite_replacement_physical_bytes'', 2215247904),
    (''maximum_sqlite_write_ahead_log_bytes'', 67502112),
    (''maximum_sqlite_write_transaction_bytes'', 16777216),
    (''maximum_sqlite_write_transaction_write_ahead_log_bytes'', 16875520),
    (''maximum_terminal_maintenance_result_associations_per_target'', 257),
    (''maximum_total_diagnostic_bytes'', 4194304),
    (''persistent_filesystem_safety_reserve_bytes'', 2215247904),
    (''sqlite_write_backpressure_bytes'', 50626592)],
   runtime_limits = [
    (''database_busy_timeout_milliseconds'', 5000),
    (''default_operation_list_page_size'', 50),
    (''maximum_canonical_structured_result_bytes'', 1048576),
    (''maximum_committed_plus_reserved_artifact_bytes'', 8589934592),
    (''maximum_daemon_runtime_contract_bytes'', 65536),
    (''maximum_diagnostic_field_bytes'', 1024),
    (''maximum_diagnostic_file_bytes'', 1048576),
    (''maximum_diagnostic_record_bytes'', 4096),
    (''maximum_global_in_flight_operations'', 8),
    (''maximum_global_pending_operations'', 256),
    (''maximum_inline_machine_result_bytes'', 2048),
    (''maximum_local_artifact_chunk_bytes'', 65536),
    (''maximum_operation_list_cursor_bytes'', 4096),
    (''maximum_operation_list_filter_values'', 16),
    (''maximum_operation_list_page_size'', 256),
    (''maximum_pending_operations_per_caller'', 64),
    (''maximum_producer_label_bytes'', 256),
    (''maximum_progress_detail_bytes'', 1024),
    (''maximum_recovery_detail_bytes'', 1024),
    (''maximum_recovery_resume_receipts_per_operation'', 64),
    (''maximum_retained_diagnostic_files'', 4),
    (''maximum_retained_operation_rows'', 10000),
    (''maximum_scheduler_selections_per_tick'', 32),
    (''maximum_sqlite_database_pages'', 262144),
    (''maximum_sqlite_read_transaction_milliseconds'', 2000),
    (''maximum_sqlite_shared_memory_bytes'', 262144),
    (''maximum_sqlite_write_ahead_log_frames'', 16384),
    (''maximum_sqlite_write_transaction_pages'', 4096),
    (''maximum_supported_operation_protocol_versions'', 8),
    (''maximum_terminal_failure_metadata_bytes'', 2048),
    (''maximum_terminal_maintenance_application_receipts_per_target'', 128),
    (''maximum_terminal_maintenance_effects'', 8192),
    (''maximum_terminal_maintenance_manifest_bytes'', 524288),
    (''maximum_terminal_maintenance_operations'', 64),
    (''maximum_terminal_maintenance_receipt_retirements'', 64),
    (''maximum_waiter_queue_updates'', 32),
    (''maximum_waiters_per_operation'', 64),
    (''maximum_workflow_correlation_identifier_bytes'', 256),
    (''sqlite_checkpoint_recovery_milliseconds'', 5000),
    (''sqlite_page_bytes'', 4096),
    (''sqlite_passive_checkpoint_write_pages'', 2048),
    (''sqlite_write_ahead_log_frame_header_bytes'', 24),
    (''sqlite_write_ahead_log_header_bytes'', 32)],
   operation_protocol_version = 2\<rparr>"

definition runtime_limit :: "runtime_contract \<Rightarrow> string \<Rightarrow> u64 option" where
  "runtime_limit self name = map_of (runtime_limits self) name"

definition runtime_formula :: "runtime_contract \<Rightarrow> string \<Rightarrow> u64 option" where
  "runtime_formula self name = map_of (runtime_formulas self) name"

datatype runtime_contract_failure = RuntimeFormulaInconsistent string

text \<open>\<open>Option::and_then\<close> over a closure that looks a limit up: the closure runs, and can panic,
  only when there is a value.\<close>

definition and_then :: "'a option \<Rightarrow> ('a \<Rightarrow> 'b option option) \<Rightarrow> 'b option option" where
  "and_then x f = (case x of None \<Rightarrow> Some None | Some a \<Rightarrow> f a)"

abbreviation (input) REPLACEMENT_DATABASE_COPIES :: u64 where "REPLACEMENT_DATABASE_COPIES \<equiv> 2"
abbreviation (input) DOCUMENTS_PER_RECEIPT :: u64 where "DOCUMENTS_PER_RECEIPT \<equiv> 2"
abbreviation (input) CURRENT_PREVIEW_ASSOCIATIONS :: u64 where "CURRENT_PREVIEW_ASSOCIATIONS \<equiv> 1"

text \<open>The loop over the expected values: the first formula that does not follow is reported.\<close>

fun require_expected_formulas ::
  "runtime_contract \<Rightarrow> (string \<times> u64 option) list \<Rightarrow> (runtime_contract_failure + unit) option" where
  "require_expected_formulas self [] = Some (Inr ())"
| "require_expected_formulas self ((name, produced) # rest) =
     Option.bind (runtime_formula self name) (\<lambda>stated.
       if produced \<noteq> Some stated then Some (Inl (RuntimeFormulaInconsistent name))
       else require_expected_formulas self rest)"

definition runtime_require_consistent_formulas ::
  "runtime_contract \<Rightarrow> (runtime_contract_failure + unit) option" where
  "runtime_require_consistent_formulas self =
     Option.bind (runtime_limit self ''sqlite_page_bytes'') (\<lambda>page.
     Option.bind (runtime_limit self ''sqlite_write_ahead_log_frame_header_bytes'') (\<lambda>frame_header.
     let frame = checked_add frame_header page in
     Option.bind (runtime_limit self ''maximum_sqlite_database_pages'') (\<lambda>database_pages.
     let database = checked_mul page database_pages in
     Option.bind (runtime_limit self ''maximum_sqlite_write_transaction_pages'') (\<lambda>pages.
     let transaction = checked_mul page pages in
     Option.bind (and_then frame (\<lambda>frame.
       Option.bind (runtime_limit self ''maximum_sqlite_write_transaction_pages'') (\<lambda>pages.
         Some (checked_mul pages frame)))) (\<lambda>transaction_log.
     Option.bind (and_then frame (\<lambda>frame.
       Option.bind (runtime_limit self ''maximum_sqlite_write_ahead_log_frames'') (\<lambda>frames.
         Some (checked_mul frames frame)))) (\<lambda>log_frames.
     Option.bind (and_then log_frames (\<lambda>frames.
       Option.bind (runtime_limit self ''sqlite_write_ahead_log_header_bytes'') (\<lambda>header.
         Some (checked_add frames header)))) (\<lambda>log.
     Option.bind (runtime_limit self ''maximum_sqlite_shared_memory_bytes'') (\<lambda>shared.
     let physical = Option.bind (Option.bind database (\<lambda>database.
           Option.bind log (\<lambda>log. checked_add database log))) (\<lambda>held. checked_add held shared);
         replacement = Option.bind (Option.bind (Option.bind database (\<lambda>database.
           checked_mul database REPLACEMENT_DATABASE_COPIES)) (\<lambda>doubled.
             Option.bind log (\<lambda>log. checked_add doubled log))) (\<lambda>held. checked_add held shared) in
     Option.bind (runtime_limit self ''maximum_diagnostic_file_bytes'') (\<lambda>file.
     Option.bind (runtime_limit self ''maximum_retained_diagnostic_files'') (\<lambda>files.
     Option.bind (runtime_limit self
         ''maximum_terminal_maintenance_application_receipts_per_target'') (\<lambda>receipts.
       require_expected_formulas self
         [(''maximum_sqlite_database_bytes'', database),
          (''maximum_sqlite_write_transaction_bytes'', transaction),
          (''maximum_sqlite_write_transaction_write_ahead_log_bytes'', transaction_log),
          (''maximum_sqlite_write_ahead_log_bytes'', log),
          (''sqlite_write_backpressure_bytes'',
            Option.bind log (\<lambda>log. Option.bind transaction_log (\<lambda>held. checked_sub log held))),
          (''maximum_sqlite_physical_bytes'', physical),
          (''maximum_sqlite_replacement_physical_bytes'', replacement),
          (''persistent_filesystem_safety_reserve_bytes'', replacement),
          (''maximum_total_diagnostic_bytes'', checked_mul file files),
          (''maximum_terminal_maintenance_result_associations_per_target'',
            Option.bind (checked_mul receipts DOCUMENTS_PER_RECEIPT) (\<lambda>held.
              checked_add held CURRENT_PREVIEW_ASSOCIATIONS))])))))))))))"

named_theorems runtime_contract_simps

lemma runtime_limit_embedded [runtime_contract_simps]:
  "runtime_limit embedded_runtime_contract ''maximum_waiter_queue_updates'' = Some 32"
  "runtime_limit embedded_runtime_contract ''maximum_waiters_per_operation'' = Some 64"
  "runtime_limit embedded_runtime_contract ''maximum_committed_plus_reserved_artifact_bytes'' = Some 8589934592"
  "runtime_limit embedded_runtime_contract ''maximum_terminal_maintenance_application_receipts_per_target'' = Some 128"
  "runtime_limit embedded_runtime_contract ''maximum_retained_operation_rows'' = Some 10000"
  "runtime_limit embedded_runtime_contract ''maximum_recovery_resume_receipts_per_operation'' = Some 64"
  "runtime_limit embedded_runtime_contract ''maximum_canonical_structured_result_bytes'' = Some 1048576"
  "runtime_limit embedded_runtime_contract ''sqlite_page_bytes'' = Some 4096"
  "runtime_limit embedded_runtime_contract ''sqlite_write_ahead_log_frame_header_bytes'' = Some 24"
  "runtime_limit embedded_runtime_contract ''maximum_sqlite_database_pages'' = Some 262144"
  "runtime_limit embedded_runtime_contract ''maximum_sqlite_write_transaction_pages'' = Some 4096"
  "runtime_limit embedded_runtime_contract ''maximum_sqlite_write_ahead_log_frames'' = Some 16384"
  "runtime_limit embedded_runtime_contract ''sqlite_write_ahead_log_header_bytes'' = Some 32"
  "runtime_limit embedded_runtime_contract ''maximum_sqlite_shared_memory_bytes'' = Some 262144"
  "runtime_limit embedded_runtime_contract ''maximum_diagnostic_file_bytes'' = Some 1048576"
  "runtime_limit embedded_runtime_contract ''maximum_retained_diagnostic_files'' = Some 4"
  by code_simp+

lemma runtime_formula_embedded [runtime_contract_simps]:
  "runtime_formula embedded_runtime_contract ''maximum_individual_artifact_bytes'' = Some 536870912"
  "runtime_formula embedded_runtime_contract ''maximum_sqlite_database_bytes'' = Some 1073741824"
  "runtime_formula embedded_runtime_contract ''maximum_sqlite_physical_bytes'' = Some 1141506080"
  "runtime_formula embedded_runtime_contract ''maximum_sqlite_replacement_physical_bytes'' = Some 2215247904"
  "runtime_formula embedded_runtime_contract ''maximum_sqlite_write_ahead_log_bytes'' = Some 67502112"
  "runtime_formula embedded_runtime_contract ''maximum_sqlite_write_transaction_bytes'' = Some 16777216"
  "runtime_formula embedded_runtime_contract ''maximum_sqlite_write_transaction_write_ahead_log_bytes'' = Some 16875520"
  "runtime_formula embedded_runtime_contract ''maximum_terminal_maintenance_result_associations_per_target'' = Some 257"
  "runtime_formula embedded_runtime_contract ''maximum_total_diagnostic_bytes'' = Some 4194304"
  "runtime_formula embedded_runtime_contract ''persistent_filesystem_safety_reserve_bytes'' = Some 2215247904"
  "runtime_formula embedded_runtime_contract ''sqlite_write_backpressure_bytes'' = Some 50626592"
  by code_simp+

text \<open>Establishing the committed contract does not panic and does not refuse it.\<close>

lemma embedded_runtime_contract_consistent:
  "runtime_require_consistent_formulas embedded_runtime_contract = Some (Inr ())"
  by (simp add: runtime_require_consistent_formulas_def runtime_contract_simps and_then_def
      checked_mul_def checked_add_def checked_sub_def Let_def)

section \<open>What a namespace may keep\<close>

record capacity_facts =
  held :: u64
  capacity_limit :: u64
  wanted :: u64

definition fits :: "capacity_facts \<Rightarrow> bool" where
  "fits self =
     (case checked_add (held self) (wanted self) of
        None \<Rightarrow> False | Some together \<Rightarrow> together \<le> capacity_limit self)"

datatype capacity_refusal =
    OperationRows capacity_facts
  | ResumeReceipts capacity_facts
  | MaintenanceReceipts capacity_facts
  | MaintenanceAssociations capacity_facts
  | ArtifactBytes capacity_facts
  | ArtifactTooLarge u64 u64

datatype policy_failure =
    SlotUnrepresentable u64 u64 string
  | ArtifactBoundNotTheLargest u64 u64

record persistent_capacity_policy =
  committed_plus_reserved_artifact_bytes :: u64
  individual_artifact_bytes :: u64
  maintenance_application_receipts_per_target :: u64
  maintenance_result_associations_per_target :: u64
  retained_operation_rows :: u64
  recovery_resume_receipts_per_operation :: u64

definition capacity_embedded :: "runtime_contract \<Rightarrow> persistent_capacity_policy option" where
  "capacity_embedded contract =
     Option.bind (runtime_limit contract ''maximum_committed_plus_reserved_artifact_bytes'') (\<lambda>bytes.
     Option.bind (runtime_formula contract ''maximum_individual_artifact_bytes'') (\<lambda>individual.
     Option.bind (runtime_limit contract
       ''maximum_terminal_maintenance_application_receipts_per_target'') (\<lambda>receipts.
     Option.bind (runtime_formula contract
       ''maximum_terminal_maintenance_result_associations_per_target'') (\<lambda>associations.
     Option.bind (runtime_limit contract ''maximum_retained_operation_rows'') (\<lambda>rows.
     Option.bind (runtime_limit contract ''maximum_recovery_resume_receipts_per_operation'') (\<lambda>resumes.
       Some \<lparr>committed_plus_reserved_artifact_bytes = bytes,
             individual_artifact_bytes = individual,
             maintenance_application_receipts_per_target = receipts,
             maintenance_result_associations_per_target = associations,
             retained_operation_rows = rows,
             recovery_resume_receipts_per_operation = resumes\<rparr>))))))"

text \<open>The loop over the declared slots, with the largest value seen.\<close>

fun cover_slots ::
  "persistent_capacity_policy \<Rightarrow> (string \<times> u64) list \<Rightarrow> u64 \<Rightarrow> policy_failure + u64" where
  "cover_slots self [] largest = Inr largest"
| "cover_slots self ((slot, declared) # rest) largest =
     (if declared > individual_artifact_bytes self
      then Inl (SlotUnrepresentable declared (individual_artifact_bytes self) slot)
      else cover_slots self rest (max largest declared))"

definition require_artifact_bound_covers ::
  "persistent_capacity_policy \<Rightarrow> (string \<times> u64) list \<Rightarrow> u64 \<Rightarrow> policy_failure + unit" where
  "require_artifact_bound_covers self declared_slots canonical_structured_result_bytes =
     bindE (cover_slots self declared_slots canonical_structured_result_bytes) (\<lambda>largest.
       if largest \<noteq> individual_artifact_bytes self
       then Inl (ArtifactBoundNotTheLargest (individual_artifact_bytes self) largest)
       else Inr ())"

definition require_artifact_representable ::
  "persistent_capacity_policy \<Rightarrow> u64 \<Rightarrow> capacity_refusal + unit" where
  "require_artifact_representable self wanted' =
     (if wanted' > individual_artifact_bytes self
      then Inl (ArtifactTooLarge (individual_artifact_bytes self) wanted')
      else Inr ())"

text \<open>A request fits exactly when the sum, taken without wrapping, is within the bound.\<close>

lemma fits_iff: "fits self \<longleftrightarrow> unat (held self) + unat (wanted self) \<le> unat (capacity_limit self)"
proof -
  have "unat (capacity_limit self) < 2 ^ 64" using unsigned_less [of "capacity_limit self"] by simp
  then show ?thesis
    by (auto simp: fits_def checked_add_def word_le_nat_alt unat_word_ariths)
qed

lemma cover_slots_Inr:
  "cover_slots self slots largest = Inr m \<longleftrightarrow>
     (\<forall>d \<in> snd ` set slots. d \<le> individual_artifact_bytes self) \<and>
     m = Max (insert largest (snd ` set slots))"
proof (induction slots arbitrary: largest)
  case (Cons s slots)
  obtain n d where s: "s = (n, d)" by fastforce
  have "Max (insert (max largest d) (snd ` set slots)) =
      Max (insert largest (insert d (snd ` set slots)))"
    by (cases "slots = []") (simp_all add: max.assoc)
  then show ?case using s Cons by (auto simp: not_less)
qed auto

text \<open>The bound is accepted exactly when it is the largest of the declared values.\<close>

lemma declared_le_largest: "(slot, n) \<in> set slots \<Longrightarrow> n \<le> Max (insert canonical (snd ` set slots))"
  by (intro Max_ge) (auto intro: rev_image_eqI)

lemma artifact_bound_covers_iff:
  "require_artifact_bound_covers self slots canonical = Inr () \<longleftrightarrow>
     individual_artifact_bytes self = Max (insert canonical (snd ` set slots))"
proof -
  have "require_artifact_bound_covers self slots canonical = Inr () \<longleftrightarrow>
      (\<forall>d \<in> snd ` set slots. d \<le> individual_artifact_bytes self) \<and>
      individual_artifact_bytes self = Max (insert canonical (snd ` set slots))"
    by (auto simp: require_artifact_bound_covers_def bindE_eq_Inr cover_slots_Inr
        simp del: Max_insert split: if_splits)
  then show ?thesis using declared_le_largest by fastforce
qed

text \<open>With an accepted bound every result a command may declare is one the store may hold.\<close>

lemma covered_slot_representable:
  assumes "require_artifact_bound_covers self slots canonical = Inr ()" and "(slot, n) \<in> set slots"
    and "w \<le> n"
  shows "require_artifact_representable self w = Inr ()"
proof -
  have "w \<le> individual_artifact_bytes self"
    using assms declared_le_largest [OF assms(2), of canonical]
    unfolding artifact_bound_covers_iff by simp
  then show ?thesis by (simp add: require_artifact_representable_def)
qed

section \<open>Maintenance results\<close>

datatype maintenance_result_kind = Preview | Application

fun kind_octet :: "maintenance_result_kind \<Rightarrow> byte" where
  "kind_octet Preview = 0x00"
| "kind_octet Application = 0x01"

definition maintenance_preimage ::
  "byte list \<Rightarrow> maintenance_result_kind \<Rightarrow> byte list \<Rightarrow> byte list \<Rightarrow> byte list" where
  "maintenance_preimage target kind reviewed_manifest content =
     target @ [kind_octet kind] @ reviewed_manifest @ content"

abbreviation (input) DIGEST_OCTETS :: nat where "DIGEST_OCTETS \<equiv> 32"
abbreviation (input) DIGEST_CHARACTERS :: nat where "DIGEST_CHARACTERS \<equiv> 64"

definition MAINTENANCE_RESULT_DOMAIN :: string where
  "MAINTENANCE_RESULT_DOMAIN = ''slingshot.maintenance-result/1''"

definition hex_nibble :: "nat \<Rightarrow> char" where
  "hex_nibble n = (if n < 10 then char_of (48 + n) else char_of (87 + n))"

text \<open>\<open>format!("{octet:02x}")\<close> of every octet.\<close>

definition render_hex :: "byte list \<Rightarrow> string" where
  "render_hex octets =
     concat (map (\<lambda>b. [hex_nibble (unat b div 16), hex_nibble (unat b mod 16)]) octets)"

definition is_lowercase_hex :: "char \<Rightarrow> bool" where
  "is_lowercase_hex c \<longleftrightarrow>
     (let n = of_char c :: nat in (48 \<le> n \<and> n \<le> 57) \<or> (97 \<le> n \<and> n \<le> 102))"

datatype maintenance_identifier_failure = IdentifierNotCanonical

definition maintenance_parse :: "string \<Rightarrow> maintenance_identifier_failure + string" where
  "maintenance_parse spelling =
     (if length spelling = DIGEST_CHARACTERS \<and> list_all is_lowercase_hex spelling
      then Inr spelling else Inl IdentifierNotCanonical)"

definition maintenance_derive ::
  "(byte list \<Rightarrow> byte list) \<Rightarrow> byte list \<Rightarrow> maintenance_result_kind \<Rightarrow> byte list \<Rightarrow> byte list \<Rightarrow>
     string" where
  "maintenance_derive sha256 target kind reviewed_manifest content =
     render_hex (sha256 (map of_char MAINTENANCE_RESULT_DOMAIN @ [0] @
       maintenance_preimage target kind reviewed_manifest content))"

text \<open>The octets have one reading: fixed widths leave no place for another split.\<close>

lemma maintenance_preimage_inj:
  assumes "maintenance_preimage t k r c = maintenance_preimage t' k' r' c'"
    and "length t = length t'" and "length r = length r'"
  shows "t = t' \<and> k = k' \<and> r = r' \<and> c = c'"
proof -
  have "kind_octet k = kind_octet k' \<longleftrightarrow> k = k'" by (cases k; cases k') auto
  then show ?thesis using assms by (auto simp: maintenance_preimage_def)
qed

lemma hex_nibble_lowercase: "n < 16 \<Longrightarrow> is_lowercase_hex (hex_nibble n)"
  by (simp add: is_lowercase_hex_def hex_nibble_def of_char_of)

lemma hex_nibble_inj: "m < 16 \<Longrightarrow> n < 16 \<Longrightarrow> hex_nibble m = hex_nibble n \<Longrightarrow> m = n"
proof -
  assume b: "m < 16" "n < 16" and e: "hex_nibble m = hex_nibble n"
  have "(of_char (hex_nibble k) :: nat) = (if k < 10 then 48 + k else 87 + k)" if "k < 16" for k
    using that by (simp add: hex_nibble_def of_char_of)
  then have "(if m < 10 then 48 + m else 87 + m) = (if n < 10 then 48 + n else 87 + n)"
    using b e by metis
  then show "m = n" using b by (auto split: if_splits)
qed

lemma byte_halves: "unat (b::byte) div 16 < 16" "unat (b::byte) mod 16 < 16"
  using unsigned_less [of b, where 'a = nat] by (simp_all add: less_mult_imp_div_less)

lemma length_render_hex [simp]: "length (render_hex bs) = 2 * length bs"
  by (induction bs) (simp_all add: render_hex_def)

lemma render_hex_lowercase: "list_all is_lowercase_hex (render_hex bs)"
  by (induction bs) (simp_all add: render_hex_def hex_nibble_lowercase byte_halves)

lemma render_hex_inj: "render_hex xs = render_hex ys \<Longrightarrow> xs = ys"
proof (induction xs arbitrary: ys)
  case Nil
  then show ?case by (cases ys) (simp_all add: render_hex_def)
next
  case (Cons x xs)
  then obtain y ys' where ys: "ys = y # ys'" by (cases ys) (simp_all add: render_hex_def)
  have halves: "unat x div 16 = unat y div 16" "unat x mod 16 = unat y mod 16"
  proof -
    have "hex_nibble (unat x div 16) = hex_nibble (unat y div 16)"
      and "hex_nibble (unat x mod 16) = hex_nibble (unat y mod 16)"
      using Cons.prems ys by (simp_all add: render_hex_def)
    then show "unat x div 16 = unat y div 16" "unat x mod 16 = unat y mod 16"
      using hex_nibble_inj [OF byte_halves(1) byte_halves(1)]
        hex_nibble_inj [OF byte_halves(2) byte_halves(2)] by blast+
  qed
  have "unat x = unat y"
    by (metis halves div_mult_mod_eq)
  moreover have "render_hex xs = render_hex ys'" using Cons.prems ys by (simp add: render_hex_def)
  ultimately show ?case using Cons.IH [of ys'] ys by (simp only: word_unat_eq_iff list.inject)
qed

text \<open>An identifier the derivation produces is read back, and two different sets of facts share
  one only where SHA-256 itself collides.\<close>

lemma maintenance_derive_parses:
  "length (sha256 (map of_char MAINTENANCE_RESULT_DOMAIN @ [0] @ maintenance_preimage t k r c)) =
     DIGEST_OCTETS \<Longrightarrow>
   maintenance_parse (maintenance_derive sha256 t k r c) = Inr (maintenance_derive sha256 t k r c)"
  by (simp add: maintenance_parse_def maintenance_derive_def render_hex_lowercase)

lemma maintenance_identity:
  assumes "maintenance_derive sha256 t k r c = maintenance_derive sha256 t' k' r' c'"
    and "length t = length t'" and "length r = length r'"
  shows "(t, k, r, c) = (t', k', r', c') \<or> (\<exists>x y. x \<noteq> y \<and> sha256 x = sha256 y)"
proof -
  define p where "p = map of_char MAINTENANCE_RESULT_DOMAIN @ [0 :: byte]"
  have "sha256 (p @ maintenance_preimage t k r c) = sha256 (p @ maintenance_preimage t' k' r' c')"
    using assms(1) by (intro render_hex_inj) (simp add: maintenance_derive_def p_def)
  then have "maintenance_preimage t k r c = maintenance_preimage t' k' r' c' \<or>
      (\<exists>x y. x \<noteq> y \<and> sha256 x = sha256 y)"
    by (metis same_append_eq)
  then show ?thesis using maintenance_preimage_inj assms(2,3) by blast
qed

end
