(* ===== verification/Operation_Wait.thy ===== *)
theory Operation_Wait
  imports Runtime_Contract
begin

text \<open>
  Watching one operation: \<open>slingshot-daemon/src/operation_wait.rs\<close>, the registry of the clients
  waiting on one operation, and \<open>slingshot-daemon/src/operation_wait/runtime.rs\<close>, the runtime's
  registries behind one lock with the handles connections own.  A registry operation is a
  function of the registry; attaching, publishing and detaching hold the lock from their first read
  of the state to their last write.  \<open>take_ready\<close> and \<open>next\<close> take an update under the lock, release it,
  and lock it again in \<open>detach\<close> when the update ends the wait; the model runs the two locked sections
  of such a call as one step, and each of them keeps the runtime's accounts by a lemma of its own, so
  the accounts also hold between them.  The asynchronous \<open>next\<close> is modelled
  one pass of its loop at a time, a pass that goes to sleep answering nothing.

  The theorems show that what one waiter is given does not depend on any other waiter, that the
  revisions it is given rise strictly, that a recovery, resume or ending is never lost to a
  bounded queue, and that however connections come and go the runtime counts exactly the
  observers that still hold a slot.
\<close>

section \<open>Updates, waiters and registries\<close>

datatype wait_update =
    Progress string u64
  | RecoveryRequired u64
  | Resumed u64
  | Terminal u64

fun update_revision :: "wait_update \<Rightarrow> u64" where
  "update_revision (Progress detail revision) = revision"
| "update_revision (RecoveryRequired revision) = revision"
| "update_revision (Resumed revision) = revision"
| "update_revision (Terminal revision) = revision"

fun is_supersedable :: "wait_update \<Rightarrow> bool" where
  "is_supersedable (Progress _ _) = True"
| "is_supersedable _ = False"

fun ends_the_wait :: "wait_update \<Rightarrow> bool" where
  "ends_the_wait (Terminal _) = True"
| "ends_the_wait _ = False"

datatype wait_refusal = WaitersExhausted u64 u64

datatype detachment = Cancelled | Disconnected | DaemonStopping | WriteDeadlineElapsed

record waiter =
  ticket :: u64
  queued :: "wait_update list"
  delivered_revision :: u64

definition waiter_take :: "waiter \<Rightarrow> waiter \<times> wait_update option" where
  "waiter_take self =
     (case queued self of
        [] \<Rightarrow> (self, None)
      | update # rest \<Rightarrow>
          (self\<lparr>queued := rest,
                delivered_revision := max (delivered_revision self) (update_revision update)\<rparr>,
           Some update))"

record wait_bounds =
  queue_updates :: u64
  waiters_per_operation :: u64

definition wait_bounds_embedded :: wait_bounds where
  "wait_bounds_embedded =
     \<lparr>queue_updates = the (runtime_limit embedded_runtime_contract ''maximum_waiter_queue_updates''),
      waiters_per_operation =
        the (runtime_limit embedded_runtime_contract ''maximum_waiters_per_operation'')\<rparr>"

record waiter_registry =
  registry_bounds :: wait_bounds
  next_ticket :: u64
  published_revision :: u64
  waiters :: "waiter list"

definition registry_new :: "wait_bounds \<Rightarrow> u64 \<Rightarrow> waiter_registry" where
  "registry_new wb revision =
     \<lparr>registry_bounds = wb, next_ticket = 1, published_revision = revision, waiters = []\<rparr>"

definition registry_attached :: "waiter_registry \<Rightarrow> nat" where
  "registry_attached self = length (waiters self)"

definition registry_attach ::
  "u64 \<Rightarrow> wait_update option \<Rightarrow> (waiter_registry, wait_refusal, u64) receiver" where
  "registry_attach observed_revision current self =
     (if unat (waiters_per_operation (registry_bounds self)) \<le> length (waiters self)
      then (self, Inl (WaitersExhausted (of_nat (length (waiters self)))
              (waiters_per_operation (registry_bounds self))))
      else (self\<lparr>next_ticket := saturating_add (next_ticket self) 1,
                 waiters := waiters self @
                   [\<lparr>ticket = next_ticket self,
                     queued = (case current of
                         Some update \<Rightarrow>
                           if update_revision update > observed_revision then [update] else []
                       | None \<Rightarrow> []),
                     delivered_revision = observed_revision\<rparr>]\<rparr>,
            Inr (next_ticket self)))"

text \<open>\<open>Iterator::position\<close>.\<close>

fun position :: "('a \<Rightarrow> bool) \<Rightarrow> 'a list \<Rightarrow> nat option" where
  "position P [] = None"
| "position P (x # xs) = (if P x then Some 0 else map_option Suc (position P xs))"

definition enqueue :: "waiter \<Rightarrow> wait_update \<Rightarrow> nat \<Rightarrow> waiter" where
  "enqueue self update allowed =
     (let newest = (if queued self = [] then delivered_revision self
                    else max (update_revision (last (queued self))) (delivered_revision self)) in
      if update_revision update \<le> newest \<or> allowed = 0 then self
      else if length (queued self) < allowed then self\<lparr>queued := queued self @ [update]\<rparr>
      else (case position is_supersedable (queued self) of
              Some index \<Rightarrow>
                self\<lparr>queued := take index (queued self) @ drop (Suc index) (queued self) @ [update]\<rparr>
            | None \<Rightarrow>
                if \<not> is_supersedable update then self\<lparr>queued := tl (queued self) @ [update]\<rparr>
                else self))"

definition publish :: "wait_update \<Rightarrow> waiter_registry \<Rightarrow> waiter_registry" where
  "publish update self =
     (if update_revision update \<le> published_revision self then self
      else self\<lparr>published_revision := update_revision update,
                waiters := map (\<lambda>w. enqueue w update (unat (queue_updates (registry_bounds self))))
                             (waiters self)\<rparr>)"

definition registry_detach :: "u64 \<Rightarrow> detachment \<Rightarrow> waiter_registry \<Rightarrow> waiter_registry \<times> bool" where
  "registry_detach ticket' reason self =
     (let kept = filter (\<lambda>w. ticket w \<noteq> ticket') (waiters self) in
      (self\<lparr>waiters := kept\<rparr>, length kept \<noteq> length (waiters self)))"

definition registry_waiter :: "waiter_registry \<Rightarrow> u64 \<Rightarrow> waiter option" where
  "registry_waiter self ticket' = find (\<lambda>w. ticket w = ticket') (waiters self)"

text \<open>\<open>iter_mut().find(..).and_then(Waiter::take)\<close>: the first waiter of that ticket, in place.\<close>

fun take_from :: "u64 \<Rightarrow> waiter list \<Rightarrow> waiter list \<times> wait_update option" where
  "take_from ticket' [] = ([], None)"
| "take_from ticket' (w # ws) =
     (if ticket w = ticket' then (fst (waiter_take w) # ws, snd (waiter_take w))
      else (w # fst (take_from ticket' ws), snd (take_from ticket' ws)))"

definition registry_take :: "u64 \<Rightarrow> waiter_registry \<Rightarrow> waiter_registry \<times> wait_update option" where
  "registry_take ticket' self =
     (self\<lparr>waiters := fst (take_from ticket' (waiters self))\<rparr>,
      snd (take_from ticket' (waiters self)))"

lemma wait_bounds_embedded_simps [simp]:
  "queue_updates wait_bounds_embedded = 32" "waiters_per_operation wait_bounds_embedded = 64"
  by (simp_all add: wait_bounds_embedded_def runtime_contract_simps)

section \<open>One waiter's queue\<close>

text \<open>What a queue promises: rising revisions above what was delivered, within its bound.\<close>

definition waiter_ok :: "nat \<Rightarrow> waiter \<Rightarrow> bool" where
  "waiter_ok allowed w \<longleftrightarrow>
     sorted_wrt (<) (delivered_revision w # map update_revision (queued w)) \<and>
     length (queued w) \<le> max 1 allowed"

lemma position_Some:
  "position P xs = Some i \<Longrightarrow> \<exists>us x vs. xs = us @ x # vs \<and> length us = i \<and> P x \<and> (\<forall>u \<in> set us. \<not> P u)"
proof (induction xs arbitrary: i)
  case (Cons y ys)
  show ?case
  proof (cases "P y")
    case False
    then obtain j where "position P ys = Some j" "i = Suc j" using Cons.prems by auto
    then obtain us x vs where "ys = us @ x # vs" "length us = j" "P x" "\<forall>u \<in> set us. \<not> P u"
      using Cons.IH by blast
    then show ?thesis
      using False \<open>i = Suc j\<close> by (intro exI [of _ "y # us"] exI [of _ x] exI [of _ vs]) simp
  qed (use Cons.prems in force)
qed simp

lemma position_None: "position P xs = None \<longleftrightarrow> (\<forall>x \<in> set xs. \<not> P x)"
  by (induction xs) auto

abbreviation (input) revisions :: "waiter \<Rightarrow> u64 list" where
  "revisions w \<equiv> delivered_revision w # map update_revision (queued w)"

lemma sorted_wrt_le_last: "sorted_wrt (<) (xs :: 'a::linorder list) \<Longrightarrow> x \<in> set xs \<Longrightarrow> x \<le> last xs"
  by (induction xs) (auto simp: less_imp_le)

lemma newest_last:
  assumes "waiter_ok allowed w"
  shows "(if queued w = [] then delivered_revision w
          else max (update_revision (last (queued w))) (delivered_revision w)) = last (revisions w)"
proof (cases "queued w = []")
  case False
  then have "update_revision (last (queued w)) \<in> set (map update_revision (queued w))" by simp
  then have "delivered_revision w < update_revision (last (queued w))"
    using assms by (auto simp: waiter_ok_def)
  then show ?thesis using False by (auto simp: last_map max_def)
qed simp

lemma newest_le_iff:
  assumes "waiter_ok allowed w"
  shows "r \<le> last (revisions w) \<longleftrightarrow> \<not> (\<forall>v \<in> set (revisions w). v < r)"
proof -
  have s: "sorted_wrt (<) (revisions w)" using assms by (simp add: waiter_ok_def)
  have "last (revisions w) \<in> set (revisions w)" by (rule last_in_set) simp
  then show ?thesis using sorted_wrt_le_last [OF s] by (meson leD leI order.strict_trans1)
qed

text \<open>Queueing either leaves the queue, or appends after dropping at most one update: a progress
  note, or the oldest update when a critical one arrives.\<close>

definition enqueue_drops :: "nat \<Rightarrow> waiter \<Rightarrow> wait_update \<Rightarrow> bool" where
  "enqueue_drops allowed w u \<longleftrightarrow>
     (\<exists>us d vs. enqueue w u allowed = w\<lparr>queued := us @ vs @ [u]\<rparr> \<and> queued w = us @ d @ vs \<and>
        length (us @ vs) < max 1 allowed \<and>
        (\<forall>x \<in> set d. is_supersedable x \<or> (\<not> is_supersedable u \<and> us = [] \<and> d = [x])))"

lemma enqueue_dropsI:
  "enqueue w u allowed = w\<lparr>queued := us @ vs @ [u]\<rparr> \<Longrightarrow> queued w = us @ d @ vs \<Longrightarrow>
   length (us @ vs) < max 1 allowed \<Longrightarrow>
   (\<forall>x \<in> set d. is_supersedable x \<or> (\<not> is_supersedable u \<and> us = [] \<and> d = [x])) \<Longrightarrow>
   enqueue_drops allowed w u"
  unfolding enqueue_drops_def by blast

lemma enqueue_rising:
  assumes ok: "waiter_ok allowed w" and rising: "\<forall>v \<in> set (revisions w). v < update_revision u"
    and allowed: "0 < allowed"
  shows "enqueue_drops allowed w u \<or> (is_supersedable u \<and> enqueue w u allowed = w)"
proof -
  have len: "length (queued w) \<le> allowed" using ok allowed by (simp add: waiter_ok_def)
  have eq: "enqueue w u allowed =
      (if length (queued w) < allowed then w\<lparr>queued := queued w @ [u]\<rparr>
       else (case position is_supersedable (queued w) of
              Some index \<Rightarrow> w\<lparr>queued := take index (queued w) @ drop (Suc index) (queued w) @ [u]\<rparr>
            | None \<Rightarrow> if \<not> is_supersedable u then w\<lparr>queued := tl (queued w) @ [u]\<rparr> else w))"
    using newest_le_iff [OF ok] rising allowed
    unfolding enqueue_def newest_last [OF ok] Let_def by auto
  show ?thesis
  proof (cases "length (queued w) < allowed")
    case True
    then have "enqueue_drops allowed w u"
      using eq allowed by (intro enqueue_dropsI [of w u allowed "queued w" "[]" "[]"]) simp_all
    then show ?thesis ..
  next
    case full: False
    show ?thesis
    proof (cases "position is_supersedable (queued w)")
      case None
      obtain x xs where q: "queued w = x # xs" using full allowed by (cases "queued w") auto
      show ?thesis
      proof (cases "is_supersedable u")
        case False
        then have "enqueue_drops allowed w u"
          using eq None full q len allowed
          by (intro enqueue_dropsI [of w u allowed "[]" xs "[x]"]) simp_all
        then show ?thesis ..
      qed (use eq full None in simp)
    next
      case (Some i)
      then obtain us x vs where "queued w = us @ x # vs" "length us = i" "is_supersedable x"
        using position_Some by blast
      then have "enqueue_drops allowed w u"
        using eq Some full len allowed
        by (intro enqueue_dropsI [of w u allowed us vs "[x]"]) simp_all
      then show ?thesis ..
    qed
  qed
qed

lemma enqueue_stale:
  assumes "waiter_ok allowed w" and "\<not> (\<forall>v \<in> set (revisions w). v < update_revision u) \<or> allowed = 0"
  shows "enqueue w u allowed = w"
  using newest_le_iff [OF assms(1)] assms(2)
  unfolding enqueue_def newest_last [OF assms(1)] Let_def by auto

lemma enqueue_drops_keeps:
  assumes "enqueue_drops allowed w u"
  shows "ticket (enqueue w u allowed) = ticket w"
    and "delivered_revision (enqueue w u allowed) = delivered_revision w"
    and "u \<in> set (queued (enqueue w u allowed))"
    and "set (queued (enqueue w u allowed)) \<subseteq> insert u (set (queued w))"
    and "is_supersedable u \<Longrightarrow> c \<in> set (queued w) \<Longrightarrow> \<not> is_supersedable c \<Longrightarrow>
         c \<in> set (queued (enqueue w u allowed))"
  using assms unfolding enqueue_drops_def by fastforce+

lemma enqueue_ticket [simp]: "ticket (enqueue w u allowed) = ticket w"
  by (simp add: enqueue_def Let_def split: option.split)

lemma waiter_ok_enqueue:
  assumes ok: "waiter_ok allowed w"
  shows "waiter_ok allowed (enqueue w u allowed)"
proof (cases "(\<forall>v \<in> set (revisions w). v < update_revision u) \<and> 0 < allowed")
  case True
  from enqueue_rising [OF ok] True
  consider "enqueue_drops allowed w u" | "enqueue w u allowed = w" by blast
  then show ?thesis
  proof cases
    case 1
    then obtain us d vs where e: "enqueue w u allowed = w\<lparr>queued := us @ vs @ [u]\<rparr>"
      and q: "queued w = us @ d @ vs" and l: "length (us @ vs) < max 1 allowed"
      unfolding enqueue_drops_def by blast
    show ?thesis
      using ok True l unfolding waiter_ok_def e q by (auto simp: sorted_wrt_append)
  qed (use ok in simp)
qed (use ok enqueue_stale [OF ok] in auto)

lemma waiter_ok_take: "waiter_ok allowed w \<Longrightarrow> waiter_ok allowed (fst (waiter_take w))"
  by (auto simp: waiter_ok_def waiter_take_def split: list.split)

section \<open>One waiter among others\<close>

datatype registry_call =
    Attach u64 "wait_update option"
  | Publish wait_update
  | Detach u64 detachment
  | Take u64

fun registry_do :: "registry_call \<Rightarrow> waiter_registry \<Rightarrow> waiter_registry \<times> wait_update option" where
  "registry_do (Attach observed current) reg = (fst (registry_attach observed current reg), None)"
| "registry_do (Publish update) reg = (publish update reg, None)"
| "registry_do (Detach t reason) reg = (fst (registry_detach t reason reg), None)"
| "registry_do (Take t) reg = registry_take t reg"

text \<open>The updates the holder of one ticket is given in a history of calls on the registry.\<close>

fun given :: "u64 \<Rightarrow> waiter_registry \<Rightarrow> registry_call list \<Rightarrow> wait_update list" where
  "given t reg [] = []"
| "given t reg (c # cs) =
     (case (c, snd (registry_do c reg)) of
        (Take t', Some update) \<Rightarrow> (if t' = t then [update] else [])
      | _ \<Rightarrow> []) @ given t (fst (registry_do c reg)) cs"

text \<open>What a waiter would be given if nobody else were attached: it hears the broadcasts that
  rise, takes from its own queue, and is gone once it detaches.\<close>

fun alone :: "nat \<Rightarrow> u64 \<Rightarrow> waiter \<Rightarrow> registry_call list \<Rightarrow> wait_update list" where
  "alone allowed published w [] = []"
| "alone allowed published w (Attach observed current # cs) = alone allowed published w cs"
| "alone allowed published w (Publish update # cs) =
     (if update_revision update \<le> published then alone allowed published w cs
      else alone allowed (update_revision update) (enqueue w update allowed) cs)"
| "alone allowed published w (Detach t reason # cs) =
     (if t = ticket w then [] else alone allowed published w cs)"
| "alone allowed published w (Take t # cs) =
     (if t \<noteq> ticket w then alone allowed published w cs
      else (case waiter_take w of
              (w', None) \<Rightarrow> alone allowed published w' cs
            | (w', Some update) \<Rightarrow> update # alone allowed published w' cs))"

lemma find_ticket: "find P xs = Some x \<Longrightarrow> P x"
  by (auto simp: find_Some_iff)

lemma registry_waiter_ticket: "registry_waiter reg t = Some w \<Longrightarrow> ticket w = t"
  by (auto simp: registry_waiter_def dest: find_ticket)

lemma waiter_take_ticket [simp]: "ticket (fst (waiter_take w)) = ticket w"
  by (simp add: waiter_take_def split: list.split)

lemma find_append: "find P (xs @ ys) = (case find P xs of None \<Rightarrow> find P ys | Some x \<Rightarrow> Some x)"
  by (induction xs) auto

lemma find_map_ticket:
  "(\<And>w. ticket (f w) = ticket w) \<Longrightarrow>
   find (\<lambda>w. ticket w = t) (map f ws) = map_option f (find (\<lambda>w. ticket w = t) ws)"
  by (induction ws) auto

lemma find_take_from:
  "find (\<lambda>w. ticket w = t) (fst (take_from t' ws)) =
     (if t = t' then map_option (fst \<circ> waiter_take) (find (\<lambda>w. ticket w = t) ws)
      else find (\<lambda>w. ticket w = t) ws)"
  by (induction ws) (auto simp: comp_def)

lemma snd_take_from:
  "snd (take_from t ws) =
     Option.bind (find (\<lambda>w. ticket w = t) ws) (snd \<circ> waiter_take)"
  by (induction ws) auto

lemma find_filter_ticket:
  "find (\<lambda>w. ticket w = t) (filter (\<lambda>w. ticket w \<noteq> t') ws) =
     (if t = t' then None else find (\<lambda>w. ticket w = t) ws)"
  by (induction ws) auto

text \<open>What each call does to the waiter of one ticket.\<close>

lemma registry_waiter_calls:
  "registry_waiter (publish u reg) t =
     (if update_revision u \<le> published_revision reg then registry_waiter reg t
      else map_option (\<lambda>w. enqueue w u (unat (queue_updates (registry_bounds reg))))
             (registry_waiter reg t))"
  "registry_waiter (fst (registry_detach t' reason reg)) t =
     (if t = t' then None else registry_waiter reg t)"
  "registry_waiter (fst (registry_take t' reg)) t =
     (if t = t' then map_option (fst \<circ> waiter_take) (registry_waiter reg t)
      else registry_waiter reg t)"
  "snd (registry_take t reg) = Option.bind (registry_waiter reg t) (snd \<circ> waiter_take)"
  "t \<noteq> next_ticket reg \<Longrightarrow>
     registry_waiter (fst (registry_attach observed current reg)) t = registry_waiter reg t"
  by (simp_all add: registry_waiter_def publish_def registry_detach_def registry_take_def
      registry_attach_def find_map_ticket find_filter_ticket find_take_from snd_take_from Let_def
      find_append split: option.split)

text \<open>What a call keeps of the registry itself: its bounds, and a ticket counter that never
  returns below a ticket it has given out.\<close>

lemma saturating_add_gt: "t < n \<Longrightarrow> t < saturating_add (n::u64) 1"
proof -
  assume "t < n"
  then have "unat t < unat n" by (simp add: word_less_nat_alt)
  moreover have "unat n < 2 ^ 64" using unsigned_less [of n, where 'a = nat] by simp
  ultimately have "unat t < unat (saturating_add n 1)" by (simp add: unat_saturating_add)
  then show ?thesis by (simp add: word_less_nat_alt)
qed

lemma registry_call_keeps:
  "registry_bounds (fst (registry_do c reg)) = registry_bounds reg"
  "t < next_ticket reg \<Longrightarrow> t < next_ticket (fst (registry_do c reg))"
  by (cases c; simp add: registry_attach_def publish_def registry_detach_def registry_take_def
      Let_def saturating_add_gt)+

lemma given_nobody:
  "registry_waiter reg t = None \<Longrightarrow> t < next_ticket reg \<Longrightarrow> given t reg cs = []"
proof (induction cs arbitrary: reg)
  case (Cons c cs)
  have "registry_waiter (fst (registry_do c reg)) t = None"
    using Cons.prems by (cases c) (auto simp: registry_waiter_calls)
  then have "given t (fst (registry_do c reg)) cs = []"
    using Cons.IH registry_call_keeps(2) [OF Cons.prems(2)] by blast
  moreover have "snd (registry_do (Take t) reg) = None"
    using Cons.prems by (simp add: registry_waiter_calls)
  ultimately show ?case by (auto split: registry_call.split option.split)
qed simp

lemma given_alone:
  assumes "registry_waiter reg t = Some w" and "t < next_ticket reg"
  shows "given t reg cs =
    alone (unat (queue_updates (registry_bounds reg))) (published_revision reg) w cs"
  using assms
proof (induction cs arbitrary: reg w)
  case (Cons c cs)
  let ?reg = "fst (registry_do c reg)"
  have w: "ticket w = t" using Cons.prems(1) by (rule registry_waiter_ticket)
  note IH = Cons.IH [where reg = ?reg, OF _ registry_call_keeps(2) [OF Cons.prems(2)]]
  show ?case
  proof (cases c)
    case (Attach observed current)
    then show ?thesis
      using IH [of w] Cons.prems
      by (simp add: registry_waiter_calls) (simp add: registry_attach_def)
  next
    case (Publish u)
    show ?thesis
    proof (cases "update_revision u \<le> published_revision reg")
      case True
      then show ?thesis
        using Publish IH [of w] Cons.prems by (simp add: publish_def)
    next
      case False
      then show ?thesis
        using Publish IH [of "enqueue w u (unat (queue_updates (registry_bounds reg)))"] Cons.prems
        by (simp add: registry_waiter_calls) (simp add: publish_def)
    qed
  next
    case (Detach t' reason)
    show ?thesis
    proof (cases "t' = t")
      case True
      then have "given t ?reg cs = []"
        using Detach Cons.prems(2) registry_call_keeps(2) [OF Cons.prems(2), of c]
        by (intro given_nobody) (simp_all add: registry_waiter_calls)
      then show ?thesis using Detach True w by simp
    next
      case False
      then show ?thesis
        using Detach IH [of w] Cons.prems w
        by (simp add: registry_waiter_calls registry_call_keeps) (simp add: registry_detach_def Let_def)
    qed
  next
    case (Take t')
    have same: "registry_bounds ?reg = registry_bounds reg"
      "published_revision ?reg = published_revision reg"
      using Take by (simp_all add: registry_take_def)
    show ?thesis
    proof (cases "t' = t")
      case True
      then have "given t ?reg cs = alone (unat (queue_updates (registry_bounds reg)))
          (published_revision reg) (fst (waiter_take w)) cs"
        using Take IH [of "fst (waiter_take w)"] Cons.prems same
        by (simp add: registry_waiter_calls)
      then show ?thesis
        using Take True w Cons.prems
        by (auto simp: registry_waiter_calls split: prod.split option.split)
    next
      case False
      then show ?thesis
        using Take IH [of w] Cons.prems w same
        by (auto simp: registry_waiter_calls split: option.split)
    qed
  qed
qed simp

section \<open>What a waiter is given\<close>

lemma alone_rising:
  "waiter_ok allowed w \<Longrightarrow>
   sorted_wrt (<) (delivered_revision w # map update_revision (alone allowed p w cs))"
proof (induction allowed p w cs rule: alone.induct)
  case (3 allowed p w u cs)
  have "delivered_revision (enqueue w u allowed) = delivered_revision w"
    by (simp add: enqueue_def Let_def split: option.split)
  then show ?case using 3 waiter_ok_enqueue by auto
next
  case (5 allowed p w t cs)
  show ?case
  proof (cases "t = ticket w \<and> queued w \<noteq> []")
    case True
    then obtain u rest where q: "queued w = u # rest" by (cases "queued w") auto
    define w' where "w' = fst (waiter_take w)"
    have "delivered_revision w < update_revision u" using 5(4) q by (simp add: waiter_ok_def)
    then have w': "waiter_take w = (w', Some u)" "delivered_revision w' = update_revision u"
      using q by (simp_all add: w'_def waiter_take_def)
    have "waiter_ok allowed w'" unfolding w'_def using 5(4) by (rule waiter_ok_take)
    then have "sorted_wrt (<) (delivered_revision w' # map update_revision (alone allowed p w' cs))"
      using 5(3) True w' by auto
    then show ?thesis
      using True w' \<open>delivered_revision w < update_revision u\<close> by (auto intro: order.strict_trans)
  next
    case False
    then have "t \<noteq> ticket w \<or> waiter_take w = (w, None)" by (auto simp: waiter_take_def)
    then show ?thesis using 5 by auto
  qed
qed simp_all

lemma alone_takes: "alone allowed p w (replicate n (Take (ticket w))) = take n (queued w)"
proof (induction n arbitrary: w)
  case (Suc n)
  show ?case
  proof (cases "queued w")
    case (Cons u rest)
    define w' where "w' = fst (waiter_take w)"
    have "waiter_take w = (w', Some u)" "queued w' = rest" "ticket w' = ticket w"
      using Cons by (simp_all add: w'_def waiter_take_def)
    then show ?thesis using Suc [of w'] Cons by simp
  qed (use Suc [of w] in \<open>simp add: waiter_take_def\<close>)
qed simp

abbreviation (input) stays :: "u64 \<Rightarrow> registry_call list \<Rightarrow> bool" where
  "stays t cs \<equiv> \<forall>reason. Detach t reason \<notin> set cs"

text \<open>A critical update that is queued leaves the queue only into the waiter's hands, unless a
  newer critical one arrives.\<close>

lemma enqueue_keeps_critical:
  assumes "waiter_ok allowed w" and "c \<in> set (queued w)" and "\<not> is_supersedable c"
    and "is_supersedable u \<or> update_revision u \<le> update_revision c"
  shows "c \<in> set (queued (enqueue w u allowed))"
proof (cases "(\<forall>v \<in> set (revisions w). v < update_revision u) \<and> 0 < allowed")
  case True
  then have "is_supersedable u" using assms by auto
  then show ?thesis
    using enqueue_rising [OF assms(1), of u] True enqueue_drops_keeps(5) [of allowed w u c] assms
    by auto
next
  case False
  then have "enqueue w u allowed = w" using assms(1) by (intro enqueue_stale) auto
  then show ?thesis using assms by simp
qed

lemma alone_gives_queued:
  assumes "waiter_ok allowed w" and "c \<in> set (queued w)" and "\<not> is_supersedable c"
    and "stays (ticket w) cs" and "max 1 allowed \<le> n"
    and "\<forall>u. Publish u \<in> set cs \<longrightarrow> is_supersedable u \<or> update_revision u \<le> update_revision c"
  shows "c \<in> set (alone allowed p w (cs @ replicate n (Take (ticket w))))"
  using assms
proof (induction allowed p w cs rule: alone.induct)
  case (1 allowed p w)
  then have "length (queued w) \<le> n" unfolding waiter_ok_def by linarith
  then have "take n (queued w) = queued w" by simp
  then show ?case using 1 by (simp add: alone_takes)
next
  case (3 allowed p w u cs)
  then show ?case
    using enqueue_keeps_critical [of allowed w c u] waiter_ok_enqueue [of allowed w u] by simp
next
  case (5 allowed p w t cs)
  show ?case
  proof (cases "t = ticket w")
    case True
    obtain u rest where q: "queued w = u # rest" using 5(5) by (cases "queued w") auto
    define w' where "w' = fst (waiter_take w)"
    have w': "waiter_take w = (w', Some u)" "queued w' = rest" "ticket w' = ticket w"
      using q by (simp_all add: w'_def waiter_take_def)
    have "waiter_ok allowed w'" unfolding w'_def using 5(4) by (rule waiter_ok_take)
    then show ?thesis using 5 True w' q by (cases "c = u") auto
  qed (use 5 in simp)
qed auto

text \<open>A critical update that rises above everything before it reaches the waiter.\<close>

lemma alone_gives_critical:
  assumes "waiter_ok allowed w" and "0 < allowed" and "\<not> is_supersedable c" and "p < update_revision c"
    and "\<forall>v \<in> set (revisions w). v < update_revision c"
    and "\<forall>u. Publish u \<in> set xs \<longrightarrow> update_revision u < update_revision c"
    and "stays (ticket w) (xs @ ys)" and "max 1 allowed \<le> n"
    and "\<forall>u. Publish u \<in> set ys \<longrightarrow> is_supersedable u \<or> update_revision u \<le> update_revision c"
  shows "c \<in> set (alone allowed p w (xs @ Publish c # ys @ replicate n (Take (ticket w))))"
  using assms
proof (induction allowed p w xs rule: alone.induct)
  case (1 allowed p w)
  have "c \<in> set (queued (enqueue w c allowed))"
    using enqueue_rising [OF 1(1,5,2)] enqueue_drops_keeps(3) 1(3) by blast
  then show ?case
    using 1 alone_gives_queued [OF waiter_ok_enqueue [OF 1(1)], of c c ys n "update_revision c"]
    by auto
next
  case (3 allowed p w u cs)
  have "set (revisions (enqueue w u allowed)) \<subseteq> insert (update_revision u) (set (revisions w))"
  proof (cases "(\<forall>v \<in> set (revisions w). v < update_revision u) \<and> 0 < allowed")
    case True
    then show ?thesis
      using enqueue_rising [OF 3(3), of u] enqueue_drops_keeps(2,4) [of allowed w u] by auto
  next
    case False
    then have "enqueue w u allowed = w" using 3(3) by (intro enqueue_stale) auto
    then show ?thesis by auto
  qed
  then have "\<forall>v \<in> set (revisions (enqueue w u allowed)). v < update_revision c" using 3 by auto
  then show ?case using 3 waiter_ok_enqueue [OF 3(3), of u] by auto
next
  case (5 allowed p w t cs)
  define w' where "w' = fst (waiter_take w)"
  have "set (revisions w') \<subseteq> set (revisions w)"
    by (auto simp: w'_def waiter_take_def max_def split: list.split)
  then have below: "\<forall>v \<in> set (revisions w'). v < update_revision c" using 5(8) by blast
  have ok: "waiter_ok allowed w'" unfolding w'_def using 5(4) by (rule waiter_ok_take)
  have w': "ticket w' = ticket w" by (simp add: w'_def)
  obtain r where r: "waiter_take w = (w', r)" by (cases "waiter_take w") (simp add: w'_def)
  show ?case
  proof (cases "t = ticket w")
    case True
    have "c \<in> set (alone allowed p w' (cs @ Publish c # ys @ replicate n (Take (ticket w))))"
    proof (cases r)
      case None
      then show ?thesis using 5(2) [OF _ r [symmetric] None] True ok below 5(5-12) w' by simp
    next
      case (Some u)
      then show ?thesis using 5(3) [OF _ r [symmetric] Some] True ok below 5(5-12) w' by simp
    qed
    then show ?thesis using True r by (cases r) simp_all
  qed (use 5 in simp)
qed auto

section \<open>Registries reached by calls\<close>

definition registry_after :: "wait_bounds \<Rightarrow> u64 \<Rightarrow> registry_call list \<Rightarrow> waiter_registry" where
  "registry_after wb revision cs =
     fold (\<lambda>c reg. fst (registry_do c reg)) cs (registry_new wb revision)"

text \<open>Every ticket in use was given out before, and the counter has not saturated.\<close>

definition registry_ok :: "nat \<Rightarrow> waiter_registry \<Rightarrow> bool" where
  "registry_ok n reg \<longleftrightarrow> distinct (map ticket (waiters reg)) \<and>
     (\<forall>w \<in> set (waiters reg). ticket w < next_ticket reg) \<and> unat (next_ticket reg) \<le> Suc n \<and>
     length (waiters reg) \<le> unat (waiters_per_operation (registry_bounds reg))"

lemma registry_ok_alt:
  "registry_ok n reg \<longleftrightarrow> (\<exists>ts. ts = map ticket (waiters reg) \<and> distinct ts \<and>
     list_all (\<lambda>t. t < next_ticket reg) ts \<and> unat (next_ticket reg) \<le> Suc n \<and>
     length ts \<le> unat (waiters_per_operation (registry_bounds reg)))"
  by (simp add: registry_ok_def list_all_iff)

lemma registry_ok_mono: "registry_ok n reg \<Longrightarrow> n \<le> m \<Longrightarrow> registry_ok m reg"
  by (auto simp: registry_ok_def)

lemma registry_ok_new: "registry_ok n (registry_new wb revision)"
  by (simp add: registry_ok_def registry_new_def)

lemma tickets_take_from [simp]: "map ticket (fst (take_from t ws)) = map ticket ws"
  by (induction ws) auto

lemma next_ticket_rises: "unat (n::u64) < 2 ^ 64 - 1 \<Longrightarrow> unat (saturating_add n 1) = Suc (unat n)"
  by (simp add: unat_saturating_add)

lemma registry_ok_keep:
  assumes "registry_ok n reg"
  shows "registry_ok n (publish u reg)" and "registry_ok n (fst (registry_detach t reason reg))"
    and "registry_ok n (fst (registry_take t reg))"
proof -
  show "registry_ok n (fst (registry_take t reg))"
    using assms by (simp add: registry_ok_alt registry_take_def)
  show "registry_ok n (publish u reg)"
    using assms by (simp add: registry_ok_def publish_def comp_def)
  have "length (filter (\<lambda>w. ticket w \<noteq> t) (waiters reg)) \<le>
      unat (waiters_per_operation (registry_bounds reg))"
    using assms length_filter_le le_trans unfolding registry_ok_def by blast
  then show "registry_ok n (fst (registry_detach t reason reg))"
    using assms by (simp add: registry_ok_def registry_detach_def Let_def distinct_map_filter)
qed

lemma registry_ok_attach:
  assumes "registry_ok n reg" and "Suc n < 2 ^ 64 - 1"
  shows "registry_ok (Suc n) (fst (registry_attach observed current reg))"
proof -
  have r: "unat (saturating_add (next_ticket reg) 1) = Suc (unat (next_ticket reg))"
    using assms by (intro next_ticket_rises) (auto simp: registry_ok_def)
  then have "next_ticket reg < saturating_add (next_ticket reg) 1"
    by (simp add: word_less_nat_alt)
  then show ?thesis
    using assms r by (auto simp: registry_ok_def registry_attach_def intro: order.strict_trans)
qed

lemma registry_after_ok: "length cs < 2 ^ 64 - 2 \<Longrightarrow> registry_ok (length cs) (registry_after wb r cs)"
proof (induction cs rule: rev_induct)
  case (snoc c cs)
  then have ok: "registry_ok (length cs) (registry_after wb r cs)" by simp
  have "registry_ok (Suc (length cs)) (fst (registry_do c (registry_after wb r cs)))"
  proof (cases c)
    case (Attach observed current)
    then show ?thesis using registry_ok_attach [OF ok] snoc.prems by simp
  qed (use registry_ok_mono [OF registry_ok_keep(1) [OF ok]] registry_ok_mono [OF registry_ok_keep(2) [OF ok]]
        registry_ok_mono [OF registry_ok_keep(3) [OF ok]] in simp_all)
  then show ?case by (simp add: registry_after_def)
qed (simp add: registry_after_def registry_ok_new)

lemma registry_after_bounds: "registry_bounds (registry_after wb r cs) = wb"
  by (induction cs rule: rev_induct)
    (simp_all add: registry_after_def registry_new_def registry_call_keeps)

definition new_waiter :: "u64 \<Rightarrow> u64 \<Rightarrow> wait_update option \<Rightarrow> waiter" where
  "new_waiter t observed current =
     \<lparr>ticket = t,
      queued = (case current of
          Some update \<Rightarrow> if update_revision update > observed then [update] else []
        | None \<Rightarrow> []),
      delivered_revision = observed\<rparr>"

lemma waiter_ok_new: "waiter_ok allowed (new_waiter t observed current)"
  by (simp add: waiter_ok_def new_waiter_def split: option.split)

lemma attached_waiter:
  assumes "registry_attach observed current reg = (reg', Inr t)" and "registry_ok n reg"
    and "Suc n < 2 ^ 64 - 1"
  shows "registry_waiter reg' t = Some (new_waiter t observed current)" and "t < next_ticket reg'"
    and "registry_bounds reg' = registry_bounds reg"
    and "published_revision reg' = published_revision reg"
proof -
  have t: "t = next_ticket reg"
    and reg': "reg' = reg\<lparr>next_ticket := saturating_add (next_ticket reg) 1,
      waiters := waiters reg @ [new_waiter t observed current]\<rparr>"
    using assms(1) by (auto simp: registry_attach_def new_waiter_def split: if_splits)
  have "unat (saturating_add t 1) = Suc (unat t)"
    using assms t by (intro next_ticket_rises) (auto simp: registry_ok_def)
  then show "t < next_ticket reg'" using reg' t by (simp add: word_less_nat_alt)
  have "find (\<lambda>w. ticket w = t) (waiters reg) = None"
    using assms(2) t by (auto simp: find_None_iff registry_ok_def)
  then show "registry_waiter reg' t = Some (new_waiter t observed current)"
    using reg' by (simp add: registry_waiter_def find_append) (simp add: new_waiter_def)
qed (use assms in \<open>auto simp: registry_attach_def split: if_splits\<close>)

text \<open>C9: Watching is private: whatever other clients attach, detach or take and in whatever order,
  a client that attached is given exactly the updates it would have been given as the only
  watcher, their revisions rise strictly above the revision it had seen, and none is given twice.\<close>

theorem waiter_is_isolated:
  assumes "length earlier < 2 ^ 64 - 2"
    and "registry_attach observed current (registry_after wb revision earlier) = (reg, Inr t)"
  shows "given t reg cs =
      alone (unat (queue_updates wb)) (published_revision reg) (new_waiter t observed current) cs \<and>
    sorted_wrt (<) (observed # map update_revision (given t reg cs))"
proof -
  note a = attached_waiter [OF assms(2) registry_after_ok [OF assms(1)]]
  have g: "given t reg cs =
      alone (unat (queue_updates wb)) (published_revision reg) (new_waiter t observed current) cs"
    using given_alone [OF a(1,2), of cs] a(3) assms(1) by (simp add: registry_after_bounds)
  have "sorted_wrt (<) (delivered_revision (new_waiter t observed current) #
      map update_revision (alone (unat (queue_updates wb)) (published_revision reg)
        (new_waiter t observed current) cs))"
    using waiter_ok_new by (rule alone_rising)
  then show ?thesis using g by (simp add: new_waiter_def)
qed

definition example_registry :: waiter_registry where
  "example_registry = fst (registry_attach 3 (Some (Progress ''queued'' 4))
     (registry_after wait_bounds_embedded 4 [Attach 2 None]))"

lemma example_registry_attached:
  "registry_attach 3 (Some (Progress ''queued'' 4)) (registry_after wait_bounds_embedded 4 [Attach 2 None]) =
     (example_registry, Inr 2)"
  by (simp add: example_registry_def registry_after_def registry_new_def registry_attach_def
      saturating_add_def)

theorem waiter_is_isolated_witness:
  "given 2 example_registry [Take 1, Publish (Terminal 5), Detach 1 Cancelled, Take 2, Take 2] =
     alone 32 (published_revision example_registry) (new_waiter 2 3 (Some (Progress ''queued'' 4)))
       [Take 1, Publish (Terminal 5), Detach 1 Cancelled, Take 2, Take 2] \<and>
   alone 32 (published_revision example_registry) (new_waiter 2 3 (Some (Progress ''queued'' 4)))
       [Take 1, Publish (Terminal 5), Detach 1 Cancelled, Take 2, Take 2] =
     [Progress ''queued'' 4, Terminal 5]"
proof
  show "given 2 example_registry [Take 1, Publish (Terminal 5), Detach 1 Cancelled, Take 2, Take 2] =
     alone 32 (published_revision example_registry) (new_waiter 2 3 (Some (Progress ''queued'' 4)))
       [Take 1, Publish (Terminal 5), Detach 1 Cancelled, Take 2, Take 2]"
    using waiter_is_isolated [OF _ example_registry_attached,
        of "[Take 1, Publish (Terminal 5), Detach 1 Cancelled, Take 2, Take 2]"] by simp
  have "published_revision example_registry = 4"
    by (simp add: example_registry_def registry_after_def registry_new_def registry_attach_def)
  then show "alone 32 (published_revision example_registry)
      (new_waiter 2 3 (Some (Progress ''queued'' 4)))
      [Take 1, Publish (Terminal 5), Detach 1 Cancelled, Take 2, Take 2] =
      [Progress ''queued'' 4, Terminal 5]"
    by (simp add: new_waiter_def enqueue_def waiter_take_def Let_def)
qed

text \<open>C8: A recovery, a resume or an ending is never lost to a waiter's bounded queue: once it is
  broadcast with a revision above everything the waiter could have heard before, a waiter that
  stays attached and takes what is queued for it is given it, however much progress is broadcast
  behind it, however slowly the waiter reads and whatever other clients do; only a newer update of
  the same weight may take its place.\<close>

theorem critical_update_reaches_waiter:
  assumes "length earlier < 2 ^ 64 - 2"
    and "registry_attach observed current (registry_after wb revision earlier) = (reg, Inr t)"
    and "0 < queue_updates wb" and "\<not> is_supersedable update"
    and "max observed (published_revision reg) < update_revision update"
    and "\<forall>u. current = Some u \<or> Publish u \<in> set before \<longrightarrow> update_revision u < update_revision update"
    and "\<forall>u. Publish u \<in> set after \<longrightarrow>
           is_supersedable u \<or> update_revision u \<le> update_revision update"
    and "\<forall>reason. Detach t reason \<notin> set (before @ after)"
    and "unat (queue_updates wb) \<le> n"
  shows "update \<in> set (given t reg (before @ Publish update # after @ replicate n (Take t)))"
proof -
  note a = attached_waiter [OF assms(2) registry_after_ok [OF assms(1)]]
  let ?w = "new_waiter t observed current"
  have w: "ticket ?w = t" by (simp add: new_waiter_def)
  have pos: "0 < unat (queue_updates wb)" using assms(3) by (simp add: word_less_nat_alt)
  have "\<forall>v \<in> set (revisions ?w). v < update_revision update"
    using assms(5,6) by (auto simp: new_waiter_def split: option.split)
  then have "update \<in> set (alone (unat (queue_updates wb)) (published_revision reg) ?w
      (before @ Publish update # after @ replicate n (Take (ticket ?w))))"
    using assms(4-9) pos w by (intro alone_gives_critical waiter_ok_new) auto
  then show ?thesis
    using given_alone [OF a(1,2)] a(3) assms(1) w by (simp add: registry_after_bounds)
qed

theorem critical_update_reaches_waiter_witness:
  "Terminal 5 \<in> set (given 2 example_registry
     (([Take 1] @ Publish (Terminal 5) # [Publish (Progress ''late'' 9)]) @ replicate 32 (Take 2)))"
proof -
  have "published_revision example_registry = 4"
    by (simp add: example_registry_def registry_after_def registry_new_def registry_attach_def)
  then show ?thesis
    using critical_update_reaches_waiter [OF _ example_registry_attached, of "Terminal 5" "[Take 1]"
        "[Publish (Progress ''late'' 9)]" 32]
    by simp
qed

section \<open>The runtime's observers\<close>

record wait_state =
  registries :: "string \<rightharpoonup> waiter_registry"
  readers :: u64

datatype attach_refusal =
    Capacity
  | OperationCapacity wait_refusal
  | FutureRevision
  | Stopping

text \<open>The handle a connection owns.  Its \<open>owner\<close> is the shared state every method takes.\<close>

record runtime_wait =
  wait_operation :: string
  wait_ticket :: "u64 option"
  wait_finished :: bool

definition waiters_new :: wait_state where
  "waiters_new = \<lparr>registries = Map.empty, readers = 0\<rparr>"

text \<open>\<open>server.connection_capacity\<close> of the committed foundation contract.\<close>

definition reader_capacity :: u64 where
  "reader_capacity = 64"

definition runtime_attach ::
  "bool \<Rightarrow> string \<Rightarrow> u64 \<Rightarrow> wait_update \<Rightarrow> (wait_state, attach_refusal, runtime_wait) receiver" where
  "runtime_attach stopping operation observed current st =
     (if stopping then (st, Inl Stopping)
      else if observed > update_revision current then (st, Inl FutureRevision)
      else if readers st \<ge> reader_capacity then (st, Inl Capacity)
      else
       let registry = (case registries st operation of
             Some reg \<Rightarrow> reg
           | None \<Rightarrow> registry_new wait_bounds_embedded (update_revision current));
           (registry', outcome) = registry_attach observed (Some current) registry;
           st' = st\<lparr>registries := (registries st)(operation \<mapsto> registry')\<rparr> in
       (case outcome of
          Inl refusal \<Rightarrow> (st', Inl (OperationCapacity refusal))
        | Inr t \<Rightarrow>
            (st'\<lparr>readers := readers st' + 1\<rparr>,
             Inr \<lparr>wait_operation = operation, wait_ticket = Some t,
                  wait_finished = (ends_the_wait current \<and> observed = update_revision current)\<rparr>)))"

definition runtime_publish :: "string \<Rightarrow> wait_update \<Rightarrow> wait_state \<Rightarrow> wait_state" where
  "runtime_publish operation update st =
     (case registries st operation of
        None \<Rightarrow> st
      | Some registry \<Rightarrow> st\<lparr>registries := (registries st)(operation \<mapsto> publish update registry)\<rparr>)"

definition wait_detach :: "wait_state \<Rightarrow> runtime_wait \<Rightarrow> wait_state \<times> runtime_wait" where
  "wait_detach st self =
     (case wait_ticket self of
        None \<Rightarrow> (st, self)
      | Some t \<Rightarrow>
          let self' = self\<lparr>wait_ticket := None, wait_finished := True\<rparr> in
          (case registries st (wait_operation self) of
             None \<Rightarrow> (st, self')
           | Some registry \<Rightarrow>
               let (registry', there) = registry_detach t Disconnected registry;
                   st' = st\<lparr>registries := (registries st)(wait_operation self \<mapsto> registry'),
                            readers := (if there then readers st - 1 else readers st)\<rparr> in
               if registry_attached registry' = 0
               then (st'\<lparr>registries := (registries st')(wait_operation self := None)\<rparr>, self')
               else (st', self')))"

text \<open>Taking under the lock: the registry and the ticket must both be there.\<close>

definition locked_take :: "wait_state \<Rightarrow> runtime_wait \<Rightarrow> wait_state \<times> wait_update option" where
  "locked_take st self =
     (case (registries st (wait_operation self), wait_ticket self) of
        (Some registry, Some t) \<Rightarrow>
          (st\<lparr>registries := (registries st)(wait_operation self \<mapsto> fst (registry_take t registry))\<rparr>,
           snd (registry_take t registry))
      | _ \<Rightarrow> (st, None))"

definition deliver_update ::
  "wait_state \<Rightarrow> runtime_wait \<Rightarrow> wait_update \<Rightarrow> wait_state \<times> runtime_wait" where
  "deliver_update st self update =
     (if ends_the_wait update then wait_detach st (self\<lparr>wait_finished := True\<rparr>) else (st, self))"

definition take_ready ::
  "wait_state \<Rightarrow> runtime_wait \<Rightarrow> (wait_state \<times> runtime_wait) \<times> wait_update option" where
  "take_ready st self =
     (if wait_finished self then ((st, self), None)
      else (case locked_take st self of
              (st', None) \<Rightarrow> ((st', self), None)
            | (st', Some update) \<Rightarrow> (deliver_update st' self update, Some update)))"

text \<open>One pass of the loop of \<open>next\<close>: \<open>Some\<close> is what the call returns with, \<open>None\<close> a pass that
  sleeps until a publication or a cancellation wakes it for another.  A cancellation that arrives
  while it sleeps has the effect of the check at the head of the loop.  A handle whose registry or
  ticket is gone returns with nothing.\<close>

definition next_pass ::
  "bool \<Rightarrow> bool \<Rightarrow> wait_state \<Rightarrow> runtime_wait \<Rightarrow>
     (wait_state \<times> runtime_wait) \<times> wait_update option option" where
  "next_pass cancelled stopping st self =
     (if wait_finished self \<or> cancelled \<or> stopping then (wait_detach st self, Some None)
      else if registries st (wait_operation self) = None \<or> wait_ticket self = None
      then ((st, self), Some None)
      else (case locked_take st self of
              (st', None) \<Rightarrow> ((st', self), None)
            | (st', Some update) \<Rightarrow> (deliver_update st' self update, Some (Some update))))"

definition wait_drop :: "wait_state \<Rightarrow> runtime_wait \<Rightarrow> wait_state" where
  "wait_drop st self = fst (wait_detach st self)"

text \<open>The runtime with the handles its connections own.  The index counts attachments.\<close>

type_synonym observers = "wait_state \<times> (nat \<rightharpoonup> runtime_wait)"

inductive observed :: "nat \<Rightarrow> observers \<Rightarrow> bool" where
  begun: "observed 0 (waiters_new, Map.empty)"
| attached: "observed n (st, hs) \<Longrightarrow> hs k = None \<Longrightarrow>
    runtime_attach stopping operation seen current st = (st', Inr h) \<Longrightarrow>
    observed (Suc n) (st', hs(k \<mapsto> h))"
| attach_refused: "observed n (st, hs) \<Longrightarrow>
    runtime_attach stopping operation seen current st = (st', Inl refusal) \<Longrightarrow>
    observed n (st', hs)"
| published: "observed n (st, hs) \<Longrightarrow> observed n (runtime_publish operation update st, hs)"
| taken_ready: "observed n (st, hs) \<Longrightarrow> hs k = Some h \<Longrightarrow>
    take_ready st h = ((st', h'), answer) \<Longrightarrow> observed n (st', hs(k \<mapsto> h'))"
| passed: "observed n (st, hs) \<Longrightarrow> hs k = Some h \<Longrightarrow>
    next_pass cancelled stopping st h = ((st', h'), answer') \<Longrightarrow> observed n (st', hs(k \<mapsto> h'))"
| dropped: "observed n (st, hs) \<Longrightarrow> hs k = Some h \<Longrightarrow>
    observed n (wait_drop st h, hs(k := None))"

section \<open>No slot leaks\<close>

text \<open>The seat a handle holds, and the seats the registries account for.\<close>

definition seat :: "runtime_wait \<Rightarrow> (string \<times> u64) option" where
  "seat h = map_option (\<lambda>t. (wait_operation h, t)) (wait_ticket h)"

definition seats :: "(nat \<rightharpoonup> runtime_wait) \<Rightarrow> nat \<rightharpoonup> (string \<times> u64)" where
  "seats hs k = Option.bind (hs k) seat"

definition seated :: "wait_state \<Rightarrow> (string \<times> u64) set" where
  "seated st = {(op, t). \<exists>reg. registries st op = Some reg \<and> t \<in> ticket ` set (waiters reg)}"

lemma seated_iff:
  "(op, t) \<in> seated st \<longleftrightarrow>
     (case registries st op of None \<Rightarrow> False | Some reg \<Rightarrow> t \<in> ticket ` set (waiters reg))"
  by (simp add: seated_def split: option.split)

definition registries_ok :: "nat \<Rightarrow> wait_state \<Rightarrow> bool" where
  "registries_ok n st \<longleftrightarrow> (\<forall>op reg. registries st op = Some reg \<longrightarrow>
     waiters reg \<noteq> [] \<and> registry_ok n reg \<and> registry_bounds reg = wait_bounds_embedded)"

definition accounted :: "nat \<Rightarrow> wait_state \<Rightarrow> (nat \<rightharpoonup> (string \<times> u64)) \<Rightarrow> bool" where
  "accounted n st f \<longleftrightarrow> finite (dom f) \<and> inj_on f (dom f) \<and> ran f = seated st \<and>
     unat (readers st) = card (dom f) \<and> card (dom f) \<le> 64 \<and> registries_ok n st"

lemma accounted_mono: "accounted n st f \<Longrightarrow> n \<le> m \<Longrightarrow> accounted m st f"
  by (auto simp: accounted_def registries_ok_def intro: registry_ok_mono)

lemma seats_upd [simp]: "seats (hs(k \<mapsto> h)) = (seats hs)(k := seat h)"
  "seats (hs(k := None)) = (seats hs)(k := None)"
  by (auto simp: seats_def)

lemma registries_okD:
  "registries_ok n st \<Longrightarrow> registries st op = Some reg \<Longrightarrow>
   waiters reg \<noteq> [] \<and> registry_ok n reg \<and> registry_bounds reg = wait_bounds_embedded"
  by (simp add: registries_ok_def)

text \<open>Replacing one registry by one with the same tickets changes no account.\<close>

lemma accounted_registry:
  assumes "accounted n st f" and "registries st op = Some reg"
    and "map ticket (waiters reg') = map ticket (waiters reg)" and "registry_ok n reg'"
    and "registry_bounds reg' = registry_bounds reg"
  shows "accounted n (st\<lparr>registries := (registries st)(op \<mapsto> reg')\<rparr>) f"
proof -
  have tickets: "ticket ` set (waiters reg') = ticket ` set (waiters reg)"
    using assms(3) by (metis list.set_map)
  have "p \<in> seated (st\<lparr>registries := (registries st)(op \<mapsto> reg')\<rparr>) \<longleftrightarrow> p \<in> seated st" for p
    using tickets assms(2) by (cases p) (simp add: seated_iff)
  then have "seated (st\<lparr>registries := (registries st)(op \<mapsto> reg')\<rparr>) = seated st" by blast
  moreover have "waiters reg' \<noteq> []"
    using assms(2,3) registries_okD [of n st op reg] assms(1) by (auto simp: accounted_def)
  then have "registries_ok n (st\<lparr>registries := (registries st)(op \<mapsto> reg')\<rparr>)"
    using assms by (auto simp: accounted_def registries_ok_def)
  ultimately show ?thesis using assms(1) by (simp add: accounted_def)
qed

lemma accounted_publish:
  assumes "accounted n st f"
  shows "accounted n (runtime_publish op u st) f"
proof (cases "registries st op")
  case (Some reg)
  then have ok: "registry_ok n reg" using assms registries_okD by (auto simp: accounted_def)
  show ?thesis
    unfolding runtime_publish_def Some option.case
    using assms Some
  proof (rule accounted_registry)
    show "map ticket (waiters (publish u reg)) = map ticket (waiters reg)"
      by (simp add: publish_def comp_def)
    show "registry_bounds (publish u reg) = registry_bounds reg" by (simp add: publish_def)
  qed (rule registry_ok_keep(1) [OF ok])
qed (use assms in \<open>simp add: runtime_publish_def\<close>)

lemma accounted_take:
  assumes "accounted n st f"
  shows "accounted n (fst (locked_take st h)) f"
proof (cases "registries st (wait_operation h)")
  case (Some reg)
  then have ok: "registry_ok n reg" using assms registries_okD by (auto simp: accounted_def)
  show ?thesis
  proof (cases "wait_ticket h")
    case (Some t)
    have "accounted n (st\<lparr>registries := (registries st)
        (wait_operation h \<mapsto> fst (registry_take t reg))\<rparr>) f"
      using assms \<open>registries st (wait_operation h) = Some reg\<close>
      by (rule accounted_registry) (simp_all add: registry_take_def registry_ok_keep(3)
          [OF ok, unfolded registry_take_def fst_conv])
    then show ?thesis using Some \<open>registries st (wait_operation h) = Some reg\<close>
      by (simp add: locked_take_def)
  qed (use assms in \<open>simp add: locked_take_def Some\<close>)
qed (use assms in \<open>simp add: locked_take_def\<close>)

text \<open>A handle that lets go of its seat frees exactly that seat.\<close>

lemma detach_frees:
  assumes "registry_ok n reg" and "t \<in> ticket ` set (waiters reg)"
  shows "snd (registry_detach t reason reg)"
    and "ticket ` set (waiters (fst (registry_detach t reason reg))) =
         ticket ` set (waiters reg) - {t}"
proof -
  from assms(2) obtain w where "w \<in> set (waiters reg)" "ticket w = t" by auto
  then have "length (filter (\<lambda>w. ticket w \<noteq> t) (waiters reg)) < length (waiters reg)"
    by (intro length_filter_less) auto
  then show "snd (registry_detach t reason reg)" by (simp add: registry_detach_def Let_def)
  show "ticket ` set (waiters (fst (registry_detach t reason reg))) =
      ticket ` set (waiters reg) - {t}"
    by (auto simp: registry_detach_def Let_def)
qed

lemma ran_upd_None: "inj_on f (dom f) \<Longrightarrow> f k = Some v \<Longrightarrow> ran (f(k := None)) = ran f - {v}"
  by (auto simp: ran_def inj_on_def dom_def) (metis option.inject)+

lemma accounted_detach:
  assumes acc: "accounted n st f" and seat: "f k = Some (wait_operation h, t)"
    and ticket: "wait_ticket h = Some t"
  shows "accounted n (fst (wait_detach st h)) (f(k := None))"
proof -
  let ?op = "wait_operation h"
  have "(?op, t) \<in> seated st" using acc seat by (auto simp: accounted_def ran_def)
  then obtain reg where reg: "registries st ?op = Some reg" and t: "t \<in> ticket ` set (waiters reg)"
    by (auto simp: seated_def)
  have ok: "registry_ok n reg" and wb: "registry_bounds reg = wait_bounds_embedded"
    using acc reg registries_okD by (auto simp: accounted_def)
  define reg' where "reg' = fst (registry_detach t Disconnected reg)"
  define st' where "st' = fst (wait_detach st h)"
  have d: "registry_detach t Disconnected reg = (reg', True)"
    using detach_frees(1) [OF ok t, of Disconnected] by (simp add: reg'_def prod_eq_iff)
  have tickets: "ticket ` set (waiters reg') = ticket ` set (waiters reg) - {t}"
    unfolding reg'_def by (rule detach_frees(2) [OF ok t])
  have st': "registries st' = (registries st)(?op := if waiters reg' = [] then None else Some reg')"
    "readers st' = readers st - 1"
    using reg ticket d by (simp_all add: st'_def wait_detach_def registry_attached_def Let_def)
  have card: "card (dom (f(k := None))) = card (dom f) - 1" "0 < card (dom f)"
  proof -
    have "k \<in> dom f" "finite (dom f)" using acc seat by (auto simp: accounted_def)
    then show "card (dom (f(k := None))) = card (dom f) - 1" "0 < card (dom f)"
      by (auto simp: card_Diff_singleton card_gt_0_iff)
  qed
  then have "unat (readers st') = card (dom (f(k := None)))"
    using acc st'(2) by (simp add: accounted_def unat_sub word_le_nat_alt)
  moreover have "seated st' = seated st - {(?op, t)}"
  proof -
    have "(op, x) \<in> seated st' \<longleftrightarrow>
        (if op = ?op then x \<in> ticket ` set (waiters reg') else (op, x) \<in> seated st)" for op x
      by (simp add: seated_iff st'(1))
    then have "(op, x) \<in> seated st' \<longleftrightarrow> (op, x) \<in> seated st - {(?op, t)}" for op x
      unfolding tickets using reg by (simp add: seated_iff)
    then show ?thesis by auto
  qed
  moreover have "registries_ok n st'"
    using acc registry_ok_keep(2) [OF ok, of t Disconnected] wb
    by (auto simp: registries_ok_def accounted_def st'(1) reg'_def registry_detach_def Let_def
        split: if_splits)
  moreover have "inj_on (f(k := None)) (dom (f(k := None)))"
    using acc by (auto simp: accounted_def inj_on_def)
  moreover have "card (dom (f(k := None))) \<le> 64" using acc card by (auto simp: accounted_def)
  ultimately show ?thesis
    using acc ran_upd_None [of f k] seat by (simp add: accounted_def st'_def)
qed

text \<open>Detaching in any of its uses: it frees the seat the handle holds, if it holds one.\<close>

lemma accounted_let_go:
  assumes "accounted n st (seats hs)" and "hs k = Some h"
  shows "accounted n (fst (wait_detach st h)) ((seats hs)(k := None))"
    and "seat (snd (wait_detach st h)) = None"
proof -
  show "accounted n (fst (wait_detach st h)) ((seats hs)(k := None))"
  proof (cases "wait_ticket h")
    case None
    then have "seats hs k = None" using assms(2) by (simp add: seats_def seat_def)
    then have "(seats hs)(k := None) = seats hs" by (metis fun_upd_triv)
    then show ?thesis using None assms(1) by (simp add: wait_detach_def)
  next
    case (Some t)
    then have "seats hs k = Some (wait_operation h, t)"
      using assms(2) by (simp add: seats_def seat_def)
    then show ?thesis using assms(1) Some by (intro accounted_detach)
  qed
  show "seat (snd (wait_detach st h)) = None"
    by (simp add: wait_detach_def seat_def Let_def split: option.split prod.split)
qed

lemma accounted_deliver:
  assumes "accounted n st (seats hs)" and "hs k = Some h" and "deliver_update st h u = (st', h')"
  shows "accounted n st' (seats (hs(k \<mapsto> h')))"
proof (cases "ends_the_wait u")
  case True
  let ?h = "h\<lparr>wait_finished := True\<rparr>"
  have same: "seats (hs(k \<mapsto> ?h)) = seats hs"
    using assms(2) by (auto simp: seats_def seat_def)
  have d: "wait_detach st ?h = (st', h')" using assms(3) True by (simp add: deliver_update_def)
  show ?thesis
    using accounted_let_go [of n st "hs(k \<mapsto> ?h)" k ?h] assms(1) same d by simp
next
  case False
  then show ?thesis using assms by (auto simp: deliver_update_def map_upd_triv)
qed

lemma accounted_ready:
  assumes "accounted n st (seats hs)" and "hs k = Some h"
    and "locked_take st h = (st1, r)"
    and "(case r of None \<Rightarrow> (st1, h) | Some u \<Rightarrow> deliver_update st1 h u) = (st', h')"
  shows "accounted n st' (seats (hs(k \<mapsto> h')))"
proof -
  have acc: "accounted n st1 (seats hs)" using accounted_take [OF assms(1), of h] assms(3) by simp
  show ?thesis
  proof (cases r)
    case None
    then show ?thesis using acc assms(2,4) by (auto simp: map_upd_triv)
  next
    case (Some u)
    then show ?thesis using accounted_deliver [OF acc assms(2)] assms(4) by simp
  qed
qed

text \<open>Attaching: a refusal changes nothing, an acceptance adds one seat.\<close>

lemma attach_refused_same:
  assumes "accounted n st f" and "runtime_attach stopping op seen current st = (st', Inl refusal)"
  shows "st' = st"
proof (cases "registries st op")
  case None
  then show ?thesis
    using assms(2) by (auto simp: runtime_attach_def registry_attach_def registry_new_def Let_def
        split: if_splits)
next
  case (Some reg)
  then have "(registries st)(op \<mapsto> reg) = registries st" by auto
  then show ?thesis
    using assms(2) Some by (auto simp: runtime_attach_def registry_attach_def Let_def split: if_splits)
qed

lemma runtime_attach_Inr:
  assumes "runtime_attach stopping op seen current st = (st', Inr h)"
  obtains reg reg' t where "reg = (case registries st op of Some reg \<Rightarrow> reg
      | None \<Rightarrow> registry_new wait_bounds_embedded (update_revision current))"
    "registry_attach seen (Some current) reg = (reg', Inr t)"
    "st' = st\<lparr>registries := (registries st)(op \<mapsto> reg'), readers := readers st + 1\<rparr>"
    "seat h = Some (op, t)" "readers st < 64"
  using assms
  by (auto simp: runtime_attach_def Let_def reader_capacity_def seat_def not_le
      split: if_splits prod.splits sum.splits)

lemma accounted_attach:
  assumes acc: "accounted n st f" and free: "f k = None"
    and r: "runtime_attach stopping op seen current st = (st', Inr h)" and n: "Suc n < 2 ^ 64 - 1"
  shows "accounted (Suc n) st' (f(k := seat h))"
proof -
  from r obtain reg reg' t where reg: "reg = (case registries st op of Some reg \<Rightarrow> reg
      | None \<Rightarrow> registry_new wait_bounds_embedded (update_revision current))"
    and a: "registry_attach seen (Some current) reg = (reg', Inr t)"
    and st': "st' = st\<lparr>registries := (registries st)(op \<mapsto> reg'), readers := readers st + 1\<rparr>"
    and seat: "seat h = Some (op, t)" and room: "readers st < 64"
    by (rule runtime_attach_Inr)
  have ok: "registry_ok n reg" and wb: "registry_bounds reg = wait_bounds_embedded"
    using acc registries_okD [of n st op] unfolding reg
    by (auto simp: accounted_def registry_ok_new split: option.split) (simp add: registry_new_def)
  have old: "ticket ` set (waiters reg) = {t'. (op, t') \<in> seated st}"
    unfolding reg by (auto simp: seated_iff registry_new_def split: option.split)
  have t: "t = next_ticket reg" and w: "waiters reg' = waiters reg @ [new_waiter t seen (Some current)]"
    using a by (auto simp: registry_attach_def new_waiter_def split: if_splits)
  have fresh: "(op, t) \<notin> seated st"
  proof
    assume "(op, t) \<in> seated st"
    then have "t \<in> ticket ` set (waiters reg)" using old by simp
    then show False using ok t unfolding registry_ok_def by auto
  qed
  have ok': "registry_ok (Suc n) reg'" and wb': "registry_bounds reg' = wait_bounds_embedded"
    using registry_ok_attach [OF ok n, of seen "Some current"] a wb
      attached_waiter(3) [OF a ok n] by simp_all
  have "p \<in> seated st' \<longleftrightarrow> p \<in> insert (op, t) (seated st)" for p
    using old w by (cases p) (auto simp: seated_iff st' new_waiter_def)
  then have s: "seated st' = insert (op, t) (seated st)" by blast
  have "registries_ok (Suc n) st'"
    using acc ok' wb' w registry_ok_mono [of n _ "Suc n"]
    by (auto simp: accounted_def registries_ok_def st')
  moreover have "unat (readers st') = card (dom (f(k := seat h)))" "card (dom (f(k := seat h))) \<le> 64"
    using acc free seat room st' by (auto simp: accounted_def word_less_nat_alt unat_word_ariths
        domIff)
  moreover have "ran (f(k := seat h)) = seated st'"
    using acc free seat s by (simp add: accounted_def)
  moreover have "inj_on (f(k := seat h)) (dom (f(k := seat h)))"
    using acc free seat fresh by (auto simp: accounted_def inj_on_def ran_def)
  ultimately show ?thesis using acc seat by (simp add: accounted_def)
qed

lemma observed_accounted:
  "observed n s \<Longrightarrow> n < 2 ^ 64 - 1 \<Longrightarrow> accounted n (fst s) (seats (snd s))"
proof (induction rule: observed.induct)
  case begun
  then show ?case
    by (simp add: accounted_def waiters_new_def seated_def seats_def registries_ok_def)
next
  case (attached n st hs k stopping op seen current st' h)
  have "accounted n st (seats hs)" "Suc n < 2 ^ 64 - 1" using attached by simp_all
  moreover have "seats hs k = None" using attached by (simp add: seats_def)
  ultimately have "accounted (Suc n) st' ((seats hs)(k := seat h))"
    using attached(3) by (intro accounted_attach)
  then show ?case by (simp only: fst_conv snd_conv seats_upd)
next
  case (attach_refused n st hs stopping op seen current st' refusal)
  then show ?case using attach_refused_same by fastforce
next
  case (published n st hs op u)
  then show ?case by (simp add: accounted_publish)
next
  case (taken_ready n st hs k h st' h' answer)
  obtain st1 r where l: "locked_take st h = (st1, r)" by fastforce
  show ?case
  proof (cases "wait_finished h")
    case False
    then have "(case r of None \<Rightarrow> (st1, h) | Some u \<Rightarrow> deliver_update st1 h u) = (st', h')"
      using taken_ready(3) l by (auto simp: take_ready_def split: option.splits)
    moreover have acc: "accounted n st (seats hs)" using taken_ready by simp
    ultimately have "accounted n st' (seats (hs(k \<mapsto> h')))"
      by (intro accounted_ready [OF acc taken_ready(2) l])
    then show ?thesis by (simp only: fst_conv snd_conv)
  qed (use taken_ready in \<open>auto simp: take_ready_def map_upd_triv\<close>)
next
  case (passed n st hs k h cancelled stopping st' h' answer)
  obtain st1 r where l: "locked_take st h = (st1, r)" by fastforce
  have acc: "accounted n st (seats hs)" using passed by simp
  consider "wait_finished h \<or> cancelled \<or> stopping"
    | "st' = st" "h' = h"
    | "(case r of None \<Rightarrow> (st1, h) | Some u \<Rightarrow> deliver_update st1 h u) = (st', h')"
    using passed(3) l by (auto simp: next_pass_def split: if_splits option.splits)
  then show ?case
  proof cases
    case 1
    then have "accounted n st' (seats (hs(k \<mapsto> h')))"
      using passed(3) accounted_let_go [OF acc passed(2)] by (simp add: next_pass_def)
    then show ?thesis by (simp only: fst_conv snd_conv)
  next
    case 2
    then show ?thesis using acc passed(2) by (simp add: map_upd_triv)
  next
    case 3
    then have "accounted n st' (seats (hs(k \<mapsto> h')))" by (rule accounted_ready [OF acc passed(2) l])
    then show ?thesis by (simp only: fst_conv snd_conv)
  qed
next
  case (dropped n st hs k h)
  then have "accounted n (wait_drop st h) (seats (hs(k := None)))"
    using accounted_let_go(1) [of n st hs k h] by (simp add: wait_drop_def)
  then show ?case by (simp only: fst_conv snd_conv)
qed

text \<open>C10: However observers attach, read, wait, are cancelled and are dropped, the runtime counts
  exactly the handles that still hold a slot and never more than its capacity; every waiter in a
  registry belongs to one such handle and no two handles share one; and when the last handle has
  let go nothing is left behind, no registry and no reader.  An observation that is refused leaves
  the runtime as it was.\<close>

theorem observer_slots_never_leak:
  assumes "observed n (st, hs)" and "n < 2 ^ 64 - 1"
  shows "unat (readers st) = card (dom (seats hs)) \<and> card (dom (seats hs)) \<le> 64 \<and>
    inj_on (seats hs) (dom (seats hs)) \<and> ran (seats hs) = seated st \<and>
    (dom (seats hs) = {} \<longrightarrow> st = waiters_new) \<and>
    (\<forall>stopping op seen current st' refusal.
       runtime_attach stopping op seen current st = (st', Inl refusal) \<longrightarrow> st' = st)"
proof -
  have acc: "accounted n st (seats hs)" using observed_accounted [OF assms(1)] assms(2) by simp
  have "st = waiters_new" if "dom (seats hs) = {}"
  proof -
    have "seated st = {}" "readers st = 0"
      using acc that by (auto simp: accounted_def unat_eq_0)
    moreover have "registries st op = None" for op
    proof (rule ccontr)
      assume "registries st op \<noteq> None"
      then obtain reg where reg: "registries st op = Some reg" by blast
      then have "waiters reg \<noteq> []" using acc registries_okD by (auto simp: accounted_def)
      then have "hd (waiters reg) \<in> set (waiters reg)" by simp
      then have "(op, ticket (hd (waiters reg))) \<in> seated st" using reg by (auto simp: seated_iff)
      then show False using \<open>seated st = {}\<close> by simp
    qed
    ultimately show ?thesis
      by (intro wait_state.equality) (auto simp: waiters_new_def)
  qed
  then show ?thesis
    using acc attach_refused_same [OF acc] unfolding accounted_def by blast
qed

definition example_observer :: "wait_state \<times> runtime_wait" where
  "example_observer =
     (\<lparr>registries = [''op'' \<mapsto> \<lparr>registry_bounds = wait_bounds_embedded, next_ticket = 2,
         published_revision = 4,
         waiters = [\<lparr>ticket = 1, queued = [Terminal 4], delivered_revision = 3\<rparr>]\<rparr>],
       readers = 1\<rparr>,
      \<lparr>wait_operation = ''op'', wait_ticket = Some 1, wait_finished = False\<rparr>)"

lemma example_observer_attached:
  "runtime_attach False ''op'' 3 (Terminal 4) waiters_new =
     (fst example_observer, Inr (snd example_observer))"
  by (simp add: runtime_attach_def waiters_new_def reader_capacity_def registry_new_def
      registry_attach_def example_observer_def saturating_add_def Let_def)

theorem observer_slots_never_leak_witness:
  "observed 1 (fst example_observer, [0 \<mapsto> snd example_observer]) \<and>
   unat (readers (fst example_observer)) = card (dom (seats [0 \<mapsto> snd example_observer]))"
proof -
  have "observed (Suc 0) (fst example_observer, [0 \<mapsto> snd example_observer])"
    using observed.attached [OF observed.begun _ example_observer_attached] by simp
  then show ?thesis using observer_slots_never_leak [of 1] by simp
qed

end
