(* ===== verification/Command_Submission.thy ===== *)
theory Command_Submission
  imports Job_Reduction Response_Policy Runtime_Contract
begin

text \<open>
  Submitting one command and knowing afterwards whether it took:
  \<open>slingshot-agent-connection/src/command_submission.rs\<close> with its settlement,
  \<open>command_submission_settlement.rs\<close>, the forgery-protection token its request carries,
  \<open>author_cross_site_request_forgery_protection.rs\<close>, and the submitted digest of
  \<open>slingshot-domain/src/selected_command_contract_identity.rs\<close>.  SHA-256 is a parameter.
  Parsing the answer and writing the request body are done by the JSON library: the model starts
  from the parsed acknowledgement.

  The theorems show exactly when an exchange proves that the agent recorded the submission or
  that it did not, everything else leaving it unknown, and that two submissions share an
  idempotency key only if they are the same submission.
\<close>

section \<open>Artifacts and reservations\<close>

datatype manifest_kind = EmptyManifest | LoadManifest | PackageManifest

fun kind_as_text :: "manifest_kind \<Rightarrow> string" where
  "kind_as_text EmptyManifest = ''empty''"
| "kind_as_text LoadManifest = ''load''"
| "kind_as_text PackageManifest = ''package''"

record expected_artifact_manifest =
  artifact_rows :: u64
  artifact_bytes :: u64
  manifest_kind :: manifest_kind

definition manifest_empty :: expected_artifact_manifest where
  "manifest_empty = \<lparr>artifact_rows = 0, artifact_bytes = 0, manifest_kind = EmptyManifest\<rparr>"

datatype token_failure = Absent | Expired u64 | AnotherOrigin

datatype submission_refusal =
    AcknowledgementMalformed
  | ArgumentsMalformed
  | TooLarge u64 nat
  | ManifestBeyondCapacity u64 u64 u64 u64
  | ReservedHeader string
  | DuplicateHeader string
  | PartialReservation
  | GenerationChanged u64 u64
  | ContinuationAuthorityAbsent
  | ContinuationCarriesWindow
  | SubmissionToken token_failure
  | SubmissionProvenance wire_refusal

definition declaring ::
  "manifest_kind \<Rightarrow> u64 \<Rightarrow> u64 \<Rightarrow> submission_refusal + expected_artifact_manifest" where
  "declaring kind rows bytes =
     (let (allowed_rows, allowed_bytes) =
        (case kind of
           EmptyManifest \<Rightarrow> (0, 0)
         | _ \<Rightarrow> (the (formula embedded_contract ''maximum_current_generation_artifact_rows''),
                 embedded_limit ''maximum_current_generation_artifact_bytes''))
      in if rows > allowed_rows \<or> bytes > allowed_bytes
         then Inl (ManifestBeyondCapacity allowed_bytes allowed_rows bytes rows)
         else Inr \<lparr>artifact_rows = rows, artifact_bytes = bytes, manifest_kind = kind\<rparr>)"

datatype capacity_discriminator =
    ArtifactCapacity | EventCapacity | ExecutionDetailCapacity | OperationCapacityFull
  | ResultCapacity | SnapshotCapacity | SubscriptionCapacity

datatype non_execution = CapacityFull capacity_discriminator | Semantic

record retention_reservation =
  reserved_artifact_rows :: u64
  event_rows :: u64
  execution_detail_rows :: u64
  result_rows :: u64
  snapshot_rows :: u64
  subscription_rows :: u64

abbreviation (input) EXECUTION_DETAIL_ROWS_PER_OPERATION :: u64 where
  "EXECUTION_DETAIL_ROWS_PER_OPERATION \<equiv> 1"
abbreviation (input) SUBSCRIPTION_ROWS_PER_OPERATION :: u64 where
  "SUBSCRIPTION_ROWS_PER_OPERATION \<equiv> 1"
abbreviation (input) TERMINAL_ROWS_PER_OPERATION :: u64 where
  "TERMINAL_ROWS_PER_OPERATION \<equiv> 1"

definition worst_case_for :: "expected_artifact_manifest \<Rightarrow> retention_reservation" where
  "worst_case_for manifest =
     \<lparr>reserved_artifact_rows = artifact_rows manifest,
      event_rows = embedded_limit ''maximum_operation_event_rows'',
      execution_detail_rows = EXECUTION_DETAIL_ROWS_PER_OPERATION,
      result_rows = TERMINAL_ROWS_PER_OPERATION,
      snapshot_rows = TERMINAL_ROWS_PER_OPERATION,
      subscription_rows = SUBSCRIPTION_ROWS_PER_OPERATION\<rparr>"

definition is_whole :: "retention_reservation \<Rightarrow> bool" where
  "is_whole self \<longleftrightarrow>
     execution_detail_rows self = EXECUTION_DETAIL_ROWS_PER_OPERATION \<and>
     subscription_rows self = SUBSCRIPTION_ROWS_PER_OPERATION \<and>
     snapshot_rows self = TERMINAL_ROWS_PER_OPERATION \<and>
     result_rows self = TERMINAL_ROWS_PER_OPERATION \<and>
     event_rows self > 0"

section \<open>Where an exchange failed and what a status means\<close>

datatype checkpoint =
    NameResolution | ResponseBody | ResponseHeadWait | RequestBody | RequestHead
  | TransportConnect | TransportLayerSecurity

definition bytes_may_have_reached_author :: "checkpoint \<Rightarrow> bool" where
  "bytes_may_have_reached_author self \<longleftrightarrow>
     self \<notin> {NameResolution, TransportConnect, TransportLayerSecurity}"

fun deadline_milliseconds :: "checkpoint \<Rightarrow> u64" where
  "deadline_milliseconds NameResolution = embedded_limit ''author_connect_timeout_milliseconds''"
| "deadline_milliseconds TransportConnect = embedded_limit ''author_connect_timeout_milliseconds''"
| "deadline_milliseconds TransportLayerSecurity = embedded_limit ''author_tls_timeout_milliseconds''"
| "deadline_milliseconds RequestHead = embedded_limit ''author_request_body_timeout_milliseconds''"
| "deadline_milliseconds RequestBody = embedded_limit ''author_request_body_timeout_milliseconds''"
| "deadline_milliseconds ResponseHeadWait =
     embedded_limit ''author_response_header_timeout_milliseconds''"
| "deadline_milliseconds ResponseBody = embedded_limit ''finite_response_total_timeout_milliseconds''"

datatype status_class = Answered | Rejected | ConflictStatus | Retryable | Unvalidated

definition ANSWERED_STATUSES :: "u16 list" where "ANSWERED_STATUSES = [200, 201, 202]"
definition REJECTED_STATUSES :: "u16 list" where "REJECTED_STATUSES = [400, 403, 422]"
definition CONFLICT_STATUS :: u16 where "CONFLICT_STATUS = 409"
definition RETRYABLE_STATUSES :: "u16 list" where
  "RETRYABLE_STATUSES = [408, 429, 500, 502, 503, 504]"

definition classify_status :: "u16 \<Rightarrow> status_class" where
  "classify_status code =
     (if code \<in> set ANSWERED_STATUSES then Answered
      else if code \<in> set REJECTED_STATUSES then Rejected
      else if code = CONFLICT_STATUS then ConflictStatus
      else if code \<in> set RETRYABLE_STATUSES then Retryable
      else Unvalidated)"

datatype unknown_cause =
    CauseRevision | CauseProvenance | CauseDurableAssociation | CauseLookupRequired | CauseBody
  | CauseDeadline checkpoint | CauseDigest | CauseEmptyIdentifier | CauseFraming
  | CauseGeneration | CauseInformationalHead | CauseIdentity | CauseMedia | CausePartition
  | CauseProtocolVersion | CauseRegistration | CauseRetention | CauseTrailerSection
  | CauseTrailersDeclared | CauseTrailingBytes | CauseUnknownField | CauseUnvalidatedStatus

fun cause_of_refusal :: "response_refusal \<Rightarrow> unknown_cause" where
  "cause_of_refusal TrailersDeclared = CauseTrailersDeclared"
| "cause_of_refusal (UnexpectedContentCoding _) = CauseMedia"
| "cause_of_refusal (FieldTooLong _ _) = CauseBody"
| "cause_of_refusal (TooManyFields _ _) = CauseBody"
| "cause_of_refusal (HeadTooLong _ _) = CauseBody"
| "cause_of_refusal (MigrationAttempted mechanism) =
     (if mechanism = ''an informational head'' then CauseInformationalHead
      else CauseProtocolVersion)"
| "cause_of_refusal (ProtocolVersion _) = CauseProtocolVersion"
| "cause_of_refusal (RedirectOffered _) = CauseProtocolVersion"

datatype submission_outcome =
    SubmissionAccepted "string list" u64
  | SubmissionDuplicate "string list" u64
  | RecoveryWindowExpired
  | AuthoritativeNonExecution non_execution
  | SubmissionConflict
  | CallerNotPermitted
  | RetryAfter u64
  | SubmissionUnknown unknown_cause
  | ConfirmedNotExecuted checkpoint

fun provably_recorded :: "submission_outcome \<Rightarrow> bool" where
  "provably_recorded (SubmissionAccepted _ _) = True"
| "provably_recorded (SubmissionDuplicate _ _) = True"
| "provably_recorded _ = False"

fun provably_not_recorded :: "submission_outcome \<Rightarrow> bool" where
  "provably_not_recorded (ConfirmedNotExecuted _) = True"
| "provably_not_recorded (AuthoritativeNonExecution _) = True"
| "provably_not_recorded _ = False"

fun requires_reconciliation :: "submission_outcome \<Rightarrow> bool" where
  "requires_reconciliation (SubmissionUnknown _) = True"
| "requires_reconciliation (RetryAfter _) = True"
| "requires_reconciliation _ = False"

section \<open>The submission and its digest\<close>

record wire_operation_identity =
  op_generation :: u64
  op_identifier :: string
  op_target_digest :: string
  op_environment_revision :: string

record submission =
  canonical_arguments :: string
  sub_subscription :: string
  manifest :: expected_artifact_manifest
  operation :: wire_operation_identity
  sub_provenance :: document_provenance
  sub_command_digest :: string

text \<open>Every field is hashed with a NUL behind it.\<close>

definition separated :: "string list \<Rightarrow> byte list" where
  "separated texts = concat (map (\<lambda>t. map of_char t @ [0]) texts)"

definition SUBMITTED_COMMAND_DIGEST_VERSION :: string where
  "SUBMITTED_COMMAND_DIGEST_VERSION = ''slingshot.submitted-command/1''"

definition SUBMISSION_BINDING_VERSION :: string where
  "SUBMISSION_BINDING_VERSION = ''slingshot.command-submission/1''"

definition submitted_command_digest_derive ::
  "(byte list \<Rightarrow> byte list) \<Rightarrow> contract_identity \<Rightarrow> string \<Rightarrow> string \<Rightarrow> string \<Rightarrow> string" where
  "submitted_command_digest_derive sha256 identity canonical_digest transport_digest arguments =
     render_hex (sha256 (separated
       [SUBMITTED_COMMAND_DIGEST_VERSION,
        transport_digest,
        command_wire_name identity,
        command_semantic_contract_version identity,
        command_contract_limits_digest identity,
        canonical_digest,
        argument_schema_digest identity,
        result_schema_digest identity,
        arguments]))"

definition bind_submitted_digest ::
  "(byte list \<Rightarrow> byte list) \<Rightarrow> expected_provenance \<Rightarrow> string \<Rightarrow> expected_artifact_manifest \<Rightarrow>
     string" where
  "bind_submitted_digest sha256 expected arguments declared =
     render_hex (sha256 (separated
       [SUBMISSION_BINDING_VERSION,
        submitted_command_digest_derive sha256 (command_contract expected)
          (canonical_json_contract_digest expected) (transport_contract_digest expected) arguments,
        kind_as_text (manifest_kind declared),
        to_string (artifact_rows declared),
        to_string (artifact_bytes declared)]))"

definition build ::
  "(byte list \<Rightarrow> byte list) \<Rightarrow> expected_provenance \<Rightarrow> wire_operation_identity \<Rightarrow> string \<Rightarrow>
     string \<Rightarrow> expected_artifact_manifest \<Rightarrow> submission_refusal + submission" where
  "build sha256 expected operation' subscription arguments declared =
     (let allowed = embedded_limit ''maximum_canonical_submission_bytes'' in
      if as_u64_length (length arguments) > allowed then Inl (TooLarge allowed (length arguments))
      else Inr \<lparr>canonical_arguments = arguments, sub_subscription = subscription,
                manifest = declared, operation = operation',
                sub_provenance = provenance_of expected,
                sub_command_digest = bind_submitted_digest sha256 expected arguments declared\<rparr>)"

definition submission_reservation :: "submission \<Rightarrow> retention_reservation" where
  "submission_reservation self = worst_case_for (manifest self)"

record recovery_preconditions =
  continuation_authority_ready :: bool
  current_generation :: u64

definition require_recoverable ::
  "submission \<Rightarrow> recovery_preconditions \<Rightarrow> submission_refusal + unit" where
  "require_recoverable self preconditions =
     (if current_generation preconditions \<noteq> op_generation (operation self)
      then Inl (GenerationChanged (current_generation preconditions) (op_generation (operation self)))
      else if \<not> continuation_authority_ready preconditions then Inl ContinuationAuthorityAbsent
      else Inr ())"

datatype discovery_shape = Initial u64 u64 | Continuation u64 string

definition continuing :: "string \<Rightarrow> u64 \<Rightarrow> discovery_shape" where
  "continuing token originating_limit = Continuation originating_limit token"

fun query_pairs :: "discovery_shape \<Rightarrow> (string \<times> string) list" where
  "query_pairs (Initial lim offset) =
     [(''offset'', to_string offset), (''limit'', to_string lim)]"
| "query_pairs (Continuation _ token) = [(''continuation'', token)]"

definition require_wellformed :: "discovery_shape \<Rightarrow> submission_refusal + unit" where
  "require_wellformed self =
     (let carries_window = (\<exists>(name, _) \<in> set (query_pairs self). name \<in> {''offset'', ''limit''}) in
      case self of
        Continuation _ _ \<Rightarrow> if carries_window then Inl ContinuationCarriesWindow else Inr ()
      | Initial _ _ \<Rightarrow> Inr ())"

section \<open>The request's headers\<close>

definition TOKEN_ROUTE :: string where "TOKEN_ROUTE = ''/libs/granite/csrf/token.json''"
definition TOKEN_HEADER :: string where "TOKEN_HEADER = ''CSRF-Token''"
definition PROTECTED_METHODS :: "string list" where
  "PROTECTED_METHODS = [''POST'', ''PUT'', ''PATCH'', ''DELETE'']"

datatype deployment_era = Cloud | ManagedServices string

fun token_route :: "deployment_era \<Rightarrow> string" where
  "token_route Cloud = TOKEN_ROUTE"
| "token_route (ManagedServices context_prefix) = context_prefix @ TOKEN_ROUTE"

record forgery_token =
  expires_at_unix_milliseconds :: u64
  token_origin :: string
  token_value :: string

definition present_to :: "forgery_token \<Rightarrow> string \<Rightarrow> u64 \<Rightarrow> token_failure + (string \<times> string)" where
  "present_to self origin now =
     (if token_origin self \<noteq> origin then Inl AnotherOrigin
      else if now \<ge> expires_at_unix_milliseconds self
      then Inl (Expired (expires_at_unix_milliseconds self))
      else Inr (TOKEN_HEADER, token_value self))"

definition requires_token :: "string \<Rightarrow> bool" where
  "requires_token verb \<longleftrightarrow> verb \<in> set PROTECTED_METHODS"

definition header_for ::
  "string \<Rightarrow> forgery_token option \<Rightarrow> string \<Rightarrow> u64 \<Rightarrow> token_failure + (string \<times> string) option" where
  "header_for verb held_token origin now =
     (if \<not> requires_token verb then Inr None
      else (case held_token of
              None \<Rightarrow> Inl Absent
            | Some token \<Rightarrow> bindE (present_to token origin now) (\<lambda>header. Inr (Some header))))"

definition SUBMISSION_METHOD :: string where "SUBMISSION_METHOD = ''POST''"
definition IDEMPOTENCY_KEY_HEADER :: string where "IDEMPOTENCY_KEY_HEADER = ''Idempotency-Key''"
definition REFERER_HEADER :: string where "REFERER_HEADER = ''Referer''"
definition CONTENT_TYPE_HEADER :: string where "CONTENT_TYPE_HEADER = ''Content-Type''"
definition SUBMISSION_MEDIA_TYPE :: string where "SUBMISSION_MEDIA_TYPE = ''application/json''"
definition RESERVED_HEADERS :: "string list" where
  "RESERVED_HEADERS = [TOKEN_HEADER, IDEMPOTENCY_KEY_HEADER, REFERER_HEADER, CONTENT_TYPE_HEADER,
     ''Authorization'']"

definition ascii_lower :: "char \<Rightarrow> char" where
  "ascii_lower c = (let n = of_char c :: nat in if 65 \<le> n \<and> n \<le> 90 then char_of (n + 32) else c)"

definition eq_ignore_ascii_case :: "string \<Rightarrow> string \<Rightarrow> bool" where
  "eq_ignore_ascii_case a b \<longleftrightarrow> map ascii_lower a = map ascii_lower b"

text \<open>The loop over the caller's headers, with the names before the current one.\<close>

fun caller_headers_from ::
  "string list \<Rightarrow> (string \<times> string) list \<Rightarrow> submission_refusal + unit" where
  "caller_headers_from earlier [] = Inr ()"
| "caller_headers_from earlier ((name, _) # rest) =
     (if \<exists>reserved \<in> set RESERVED_HEADERS. eq_ignore_ascii_case reserved name
      then Inl (ReservedHeader name)
      else if \<exists>e \<in> set earlier. eq_ignore_ascii_case e name then Inl (DuplicateHeader name)
      else caller_headers_from (earlier @ [name]) rest)"

definition require_caller_headers_permitted :: "(string \<times> string) list \<Rightarrow> submission_refusal + unit" where
  "require_caller_headers_permitted caller_supplied = caller_headers_from [] caller_supplied"

definition request_headers ::
  "submission \<Rightarrow> forgery_token option \<Rightarrow> string \<Rightarrow> u64 \<Rightarrow> (string \<times> string) list \<Rightarrow>
     submission_refusal + (string \<times> string) list" where
  "request_headers self held_token origin now caller_supplied =
     (if \<not> is_whole (submission_reservation self) then Inl PartialReservation
      else bindE (require_caller_headers_permitted caller_supplied) (\<lambda>_.
        case header_for SUBMISSION_METHOD held_token origin now of
          Inl failure \<Rightarrow> Inl (SubmissionToken failure)
        | Inr token \<Rightarrow>
            Inr ([(CONTENT_TYPE_HEADER, SUBMISSION_MEDIA_TYPE),
                  (REFERER_HEADER, origin @ ''/''),
                  (IDEMPOTENCY_KEY_HEADER, sub_command_digest self)]
                 @ (case token of Some header \<Rightarrow> [header] | None \<Rightarrow> [])
                 @ caller_supplied)))"

section \<open>What an exchange means\<close>

record submission_acknowledgement =
  ack_provenance :: document_provenance
  ack_environment_revision :: string
  ack_generation :: u64
  ack_operation_identifier :: string
  ack_target_digest :: string
  already_accepted :: bool
  ack_subscription :: string
  granted_retention_milliseconds :: u64
  non_execution :: "non_execution option"
  physical_sling_job_identifiers :: "string list"
  retired :: bool
  ack_command_digest :: string

record exchange =
  acknowledgement :: "submission_acknowledgement option"
  body_bytes :: u64
  elapsed_milliseconds :: u64
  framing_ambiguous :: bool
  exchange_head :: response_head
  media_type :: string
  retry_after_milliseconds :: "u64 option"
  exchange_status :: u16
  trailer_section_present :: bool
  trailing_bytes :: bool
  unknown_fields :: bool

definition require_transport_clean :: "exchange \<Rightarrow> unknown_cause + unit" where
  "require_transport_clean e =
     (case require_acceptable (exchange_head e) of
        Inl refusal \<Rightarrow> Inl (cause_of_refusal refusal)
      | Inr _ \<Rightarrow>
          if trailer_section_present e then Inl CauseTrailerSection
          else if framing_ambiguous e then Inl CauseFraming
          else if trailing_bytes e then Inl CauseTrailingBytes
          else if media_type e \<noteq> SUBMISSION_MEDIA_TYPE then Inl CauseMedia
          else if body_bytes e > embedded_limit ''maximum_finite_response_body_bytes''
          then Inl CauseBody
          else if unknown_fields e then Inl CauseUnknownField
          else Inr ())"

definition require_echoes :: "submission \<Rightarrow> submission_acknowledgement \<Rightarrow> unknown_cause + unit" where
  "require_echoes self ack =
     (if ack_provenance ack \<noteq> sub_provenance self then Inl CauseProvenance
      else if ack_environment_revision ack \<noteq> op_environment_revision (operation self)
      then Inl CauseRevision
      else if ack_operation_identifier ack \<noteq> op_identifier (operation self) then Inl CauseIdentity
      else if ack_generation ack \<noteq> op_generation (operation self) then Inl CauseGeneration
      else if ack_target_digest ack \<noteq> op_target_digest (operation self) then Inl CausePartition
      else if ack_command_digest ack \<noteq> sub_command_digest self then Inl CauseDigest
      else if ack_subscription ack \<noteq> sub_subscription self then Inl CauseRegistration
      else Inr ())"

text \<open>\<open>is_sorted_by\<close> compares every neighbouring pair.\<close>

fun is_sorted_by :: "('a \<Rightarrow> 'a \<Rightarrow> bool) \<Rightarrow> 'a list \<Rightarrow> bool" where
  "is_sorted_by R (x # y # rest) = (R x y \<and> is_sorted_by R (y # rest))"
| "is_sorted_by R _ = True"

definition require_bounded_job_set :: "string list \<Rightarrow> unknown_cause + unit" where
  "require_bounded_job_set identifiers =
     (if identifiers = [] then Inl CauseEmptyIdentifier
      else if as_u64_length (length identifiers) > embedded_limit ''maximum_physical_sling_job_matches''
      then Inl CauseBody
      else if \<not> is_sorted_by (<) identifiers then Inl CauseBody
      else if \<exists>identifier \<in> set identifiers. identifier = [] \<or>
           as_u64_length (length identifier) > embedded_limit ''maximum_sling_job_identifier_bytes''
      then Inl CauseEmptyIdentifier
      else Inr ())"

definition remaining_retention_milliseconds :: "u64 \<Rightarrow> u64 \<Rightarrow> u64 option" where
  "remaining_retention_milliseconds granted elapsed =
     (if elapsed \<ge> granted then None
      else Some (min (granted - elapsed)
             (embedded_limit ''maximum_persisted_remaining_retention_milliseconds'')))"

definition settle_non_execution ::
  "status_class \<Rightarrow> submission_acknowledgement \<Rightarrow> submission_outcome option" where
  "settle_non_execution class ack =
     Option.bind (non_execution ack) (\<lambda>named.
       if already_accepted ack \<or> retired ack \<or> physical_sling_job_identifiers ack \<noteq> []
       then Some (SubmissionUnknown CauseBody)
       else Some (if class = Rejected then AuthoritativeNonExecution named
                  else SubmissionUnknown CauseUnvalidatedStatus))"

definition settle_answer ::
  "status_class \<Rightarrow> submission_acknowledgement \<Rightarrow> u64 \<Rightarrow> submission_outcome" where
  "settle_answer class ack elapsed =
     (case settle_non_execution class ack of
        Some outcome \<Rightarrow> outcome
      | None \<Rightarrow>
          if class = Rejected then SubmissionUnknown CauseBody
          else if retired ack
          then (if physical_sling_job_identifiers ack = [] then RecoveryWindowExpired
                else SubmissionUnknown CauseBody)
          else (case require_bounded_job_set (physical_sling_job_identifiers ack) of
             Inl cause \<Rightarrow> SubmissionUnknown cause
           | Inr _ \<Rightarrow>
               (case remaining_retention_milliseconds (granted_retention_milliseconds ack) elapsed of
                  None \<Rightarrow> SubmissionUnknown CauseRetention
                | Some remaining \<Rightarrow>
                    if already_accepted ack
                    then SubmissionDuplicate (physical_sling_job_identifiers ack) remaining
                    else SubmissionAccepted (physical_sling_job_identifiers ack) remaining)))"

definition interpret_exchange :: "submission \<Rightarrow> exchange \<Rightarrow> submission_outcome" where
  "interpret_exchange self e =
     (case require_transport_clean e of
        Inl cause \<Rightarrow> SubmissionUnknown cause
      | Inr _ \<Rightarrow>
          let class = classify_status (exchange_status e) in
          if class = Retryable
          then RetryAfter (retry_delay_milliseconds (retry_after_milliseconds e))
          else if class = Unvalidated then SubmissionUnknown CauseUnvalidatedStatus
          else (case acknowledgement e of
             None \<Rightarrow> SubmissionUnknown CauseBody
           | Some ack \<Rightarrow>
               (case require_echoes self ack of
                  Inl cause \<Rightarrow> SubmissionUnknown cause
                | Inr _ \<Rightarrow>
                    if class = ConflictStatus then SubmissionConflict
                    else settle_answer class ack (elapsed_milliseconds e))))"

definition transport_failure :: "checkpoint \<Rightarrow> submission_outcome" where
  "transport_failure c =
     (if bytes_may_have_reached_author c then SubmissionUnknown (CauseDeadline c)
      else ConfirmedNotExecuted c)"

section \<open>What proves what\<close>

text \<open>An exchange whose message was what it claims to be.\<close>

definition clean_exchange :: "exchange \<Rightarrow> bool" where
  "clean_exchange e \<longleftrightarrow>
     protocol_version (exchange_head e) \<in> set PERMITTED_PROTOCOL_VERSIONS \<and>
     \<not> informational (exchange_head e) \<and> \<not> alternative_service_offered (exchange_head e) \<and>
     \<not> trailers_declared (exchange_head e) \<and>
     content_coding (exchange_head e) \<in> {None} \<union> Some ` set PERMITTED_CONTENT_CODINGS \<and>
     location (exchange_head e) = None \<and>
     \<not> trailer_section_present e \<and> \<not> framing_ambiguous e \<and> \<not> trailing_bytes e \<and>
     media_type e = SUBMISSION_MEDIA_TYPE \<and> body_bytes e \<le> 2097152 \<and> \<not> unknown_fields e"

text \<open>An answer about this very submission.\<close>

definition echoes :: "submission \<Rightarrow> submission_acknowledgement \<Rightarrow> bool" where
  "echoes self ack \<longleftrightarrow>
     ack_provenance ack = sub_provenance self \<and>
     \<lparr>op_generation = ack_generation ack, op_identifier = ack_operation_identifier ack,
      op_target_digest = ack_target_digest ack,
      op_environment_revision = ack_environment_revision ack\<rparr> = operation self \<and>
     ack_command_digest ack = sub_command_digest self \<and> ack_subscription ack = sub_subscription self"

definition job_set_ok :: "string list \<Rightarrow> bool" where
  "job_set_ok js \<longleftrightarrow> js \<noteq> [] \<and> length js \<le> 32 \<and> sorted_wrt (<) js \<and>
     (\<forall>j \<in> set js. j \<noteq> [] \<and> length j \<le> 1024)"

lemma transport_clean_iff: "require_transport_clean e = Inr () \<longleftrightarrow> clean_exchange e"
  by (auto simp: require_transport_clean_def require_acceptable_def clean_exchange_def
      embedded_limit_def contract_simps split: if_splits option.splits sum.splits)

lemma echoes_iff: "require_echoes self ack = Inr () \<longleftrightarrow> echoes self ack"
  by (cases "operation self") (auto simp: require_echoes_def echoes_def)

lemma is_sorted_by_less: "is_sorted_by (<) (xs :: 'a::order list) \<longleftrightarrow> sorted_wrt (<) xs"
  by (induction "(<) :: 'a \<Rightarrow> 'a \<Rightarrow> bool" xs rule: is_sorted_by.induct)
    (auto intro: order.strict_trans)

lemma bounded_job_set_iff: "require_bounded_job_set js = Inr () \<longleftrightarrow> job_set_ok js"
proof -
  have "as_u64_length n \<le> 32 \<longleftrightarrow> n \<le> 32" "as_u64_length n \<le> 1024 \<longleftrightarrow> n \<le> 1024" for n
    using as_u64_length_le [of 32 n] as_u64_length_le [of 1024 n] by simp_all
  then have a: "as_u64_length n > 32 \<longleftrightarrow> \<not> n \<le> 32" "as_u64_length n > 1024 \<longleftrightarrow> \<not> n \<le> 1024" for n
    by (metis not_le)+
  show ?thesis
    by (auto simp: require_bounded_job_set_def job_set_ok_def contract_simps a is_sorted_by_less
        split: if_splits)
qed

lemma clean_cases:
  "interpret_exchange self e =
     (if clean_exchange e
      then (case classify_status (exchange_status e) of
              Retryable \<Rightarrow> RetryAfter (retry_delay_milliseconds (retry_after_milliseconds e))
            | Unvalidated \<Rightarrow> SubmissionUnknown CauseUnvalidatedStatus
            | class \<Rightarrow>
                (case acknowledgement e of
                   None \<Rightarrow> SubmissionUnknown CauseBody
                 | Some ack \<Rightarrow>
                     if \<not> echoes self ack then SubmissionUnknown (projl (require_echoes self ack))
                     else if class = ConflictStatus then SubmissionConflict
                     else settle_answer class ack (elapsed_milliseconds e)))
      else SubmissionUnknown (projl (require_transport_clean e)))"
proof (cases "require_transport_clean e")
  case (Inl cause)
  then have "\<not> clean_exchange e" using transport_clean_iff [of e] by simp
  then show ?thesis using Inl by (simp add: interpret_exchange_def)
next
  case (Inr u)
  then have "clean_exchange e" using transport_clean_iff [of e] by simp
  moreover have "(case require_echoes self ack of Inl cause \<Rightarrow> SubmissionUnknown cause | Inr _ \<Rightarrow> y) =
      (if \<not> echoes self ack then SubmissionUnknown (projl (require_echoes self ack)) else y)" for ack y
    using echoes_iff [of self ack] by (cases "require_echoes self ack") auto
  ultimately show ?thesis
    using Inr
    by (cases "classify_status (exchange_status e)"; cases "acknowledgement e")
      (simp_all add: interpret_exchange_def)
qed

lemma settle_recorded:
  "provably_recorded (settle_answer class ack elapsed) \<longleftrightarrow>
     class \<noteq> Rejected \<and> non_execution ack = None \<and> \<not> retired ack \<and>
     job_set_ok (physical_sling_job_identifiers ack) \<and> elapsed < granted_retention_milliseconds ack"
proof (cases "non_execution ack")
  case None
  have jobs: "job_set_ok js \<longleftrightarrow> is_ok (require_bounded_job_set js)" for js
    using bounded_job_set_iff [of js] by (cases "require_bounded_job_set js") auto
  show ?thesis
    using None
    by (cases "require_bounded_job_set (physical_sling_job_identifiers ack)")
      (auto simp: settle_answer_def settle_non_execution_def remaining_retention_milliseconds_def
        jobs not_le)
next
  case (Some named)
  then show ?thesis by (simp add: settle_answer_def settle_non_execution_def)
qed

lemma settle_not_recorded:
  "provably_not_recorded (settle_answer class ack elapsed) \<longleftrightarrow>
     class = Rejected \<and> non_execution ack \<noteq> None \<and> \<not> already_accepted ack \<and> \<not> retired ack \<and>
     physical_sling_job_identifiers ack = []"
  by (cases "non_execution ack")
    (auto simp: settle_answer_def settle_non_execution_def split: option.split sum.split)

lemma settle_expired:
  "settle_answer class ack elapsed = RecoveryWindowExpired \<longleftrightarrow>
     class \<noteq> Rejected \<and> non_execution ack = None \<and> retired ack \<and> physical_sling_job_identifiers ack = []"
  by (cases "non_execution ack")
    (auto simp: settle_answer_def settle_non_execution_def split: option.split sum.split)

lemma settle_classified:
  "requires_reconciliation (settle_answer class ack elapsed) \<longleftrightarrow>
     \<not> provably_recorded (settle_answer class ack elapsed) \<and>
     \<not> provably_not_recorded (settle_answer class ack elapsed) \<and>
     settle_answer class ack elapsed \<noteq> RecoveryWindowExpired"
  "settle_answer class ack elapsed \<noteq> SubmissionConflict"
  by (cases "non_execution ack";
      auto simp: settle_answer_def settle_non_execution_def split: option.split sum.split)+

lemma classify_status_iff:
  "classify_status code = Answered \<longleftrightarrow> code \<in> {200, 201, 202}"
  "classify_status code = Rejected \<longleftrightarrow> code \<in> {400, 403, 422}"
  "classify_status code = ConflictStatus \<longleftrightarrow> code = 409"
  by (auto simp: classify_status_def ANSWERED_STATUSES_def REJECTED_STATUSES_def CONFLICT_STATUS_def
      RETRYABLE_STATUSES_def)

text \<open>C3: Only a proof settles a submission, and every exchange is settled one way.  An exchange is taken
  as the agent having recorded the submission exactly when the message is clean, its status is a
  validated answer, and the acknowledgement echoes this submission in every field, names no refusal
  and no retirement, and grants a sorted, bounded set of jobs whose retention has not run out.  It is
  taken as not recorded exactly when a clean, validated rejection echoes the submission and names a
  closed refusal with no sign of work; as a conflict exactly when a clean 409 echoes it; and as
  expired exactly when a clean, validated answer echoes it, names no refusal and no job, and says that
  it was retired.  Every other exchange - a status that asks for a retry, a message that is not clean,
  an answer that echoes something else - is left to reconciliation.  A failed exchange is taken as not
  recorded exactly when it failed before the first request byte, and is unknown otherwise.\<close>

theorem submission_settled_iff:
  "(provably_recorded (interpret_exchange self e) \<longleftrightarrow>
      clean_exchange e \<and> exchange_status e \<in> {200, 201, 202} \<and>
      (\<exists>ack. acknowledgement e = Some ack \<and> echoes self ack \<and> non_execution ack = None \<and>
         \<not> retired ack \<and> job_set_ok (physical_sling_job_identifiers ack) \<and>
         elapsed_milliseconds e < granted_retention_milliseconds ack)) \<and>
   (provably_not_recorded (interpret_exchange self e) \<longleftrightarrow>
      clean_exchange e \<and> exchange_status e \<in> {400, 403, 422} \<and>
      (\<exists>ack. acknowledgement e = Some ack \<and> echoes self ack \<and> non_execution ack \<noteq> None \<and>
         \<not> already_accepted ack \<and> \<not> retired ack \<and> physical_sling_job_identifiers ack = [])) \<and>
   (interpret_exchange self e = SubmissionConflict \<longleftrightarrow>
      clean_exchange e \<and> exchange_status e = 409 \<and>
      (\<exists>ack. acknowledgement e = Some ack \<and> echoes self ack)) \<and>
   (interpret_exchange self e = RecoveryWindowExpired \<longleftrightarrow>
      clean_exchange e \<and> exchange_status e \<in> {200, 201, 202} \<and>
      (\<exists>ack. acknowledgement e = Some ack \<and> echoes self ack \<and> non_execution ack = None \<and>
         retired ack \<and> physical_sling_job_identifiers ack = [])) \<and>
   (requires_reconciliation (interpret_exchange self e) \<longleftrightarrow>
      \<not> provably_recorded (interpret_exchange self e) \<and>
      \<not> provably_not_recorded (interpret_exchange self e) \<and>
      interpret_exchange self e \<noteq> SubmissionConflict \<and>
      interpret_exchange self e \<noteq> RecoveryWindowExpired) \<and>
   transport_failure c =
     (if c \<in> {NameResolution, TransportConnect, TransportLayerSecurity} then ConfirmedNotExecuted c
      else SubmissionUnknown (CauseDeadline c))"
  unfolding classify_status_iff [symmetric] clean_cases
  by (intro conjI)
    (auto simp: settle_recorded settle_not_recorded settle_expired settle_classified
      transport_failure_def bytes_may_have_reached_author_def split: status_class.splits option.splits)

section \<open>What a submission is called\<close>

lemma separated_Cons: "separated (t # ts) = map of_char t @ [0] @ separated ts"
  by (simp add: separated_def)

lemma unat_of_char_byte: "unat (of_char c :: byte) = of_char c"
proof -
  have "(of_char c :: byte) = of_nat (of_char c)" by (simp add: of_nat_of_char)
  then show ?thesis
    using nat_of_char_less_256 [of c] by (simp add: unat_of_nat del: of_nat_of_char)
qed

lemma of_char_byte_inj [simp]: "(of_char c :: byte) = of_char d \<longleftrightarrow> c = d"
  by (metis unat_of_char_byte of_char_eq_iff)

abbreviation (input) nul_free :: "string \<Rightarrow> bool" where
  "nul_free t \<equiv> CHR 0x00 \<notin> set t"

lemma nul_free_octets: "(0 :: byte) \<in> of_char ` set t \<longleftrightarrow> \<not> nul_free t"
proof -
  have "(of_char (CHR 0x00) :: byte) = 0" by simp
  then show ?thesis by (metis image_iff of_char_byte_inj)
qed

lemma append_mark_inj:
  "xs @ z # rest = ys @ z # rest' \<Longrightarrow> z \<notin> set xs \<Longrightarrow> z \<notin> set ys \<Longrightarrow> xs = ys \<and> rest = rest'"
  by (induction xs arbitrary: ys) (auto simp: Cons_eq_append_conv append_eq_Cons_conv)

lemma octets_inj: "map (of_char :: char \<Rightarrow> byte) s = map of_char t \<Longrightarrow> s = t"
  by (rule map_injective) (auto intro: injI)

text \<open>Texts with a separator behind each are read back one way only, when no text but the last
  holds the separator.\<close>

lemma separated_inj:
  "separated ts = separated us \<Longrightarrow> length ts = length us \<Longrightarrow>
   list_all nul_free (butlast ts) \<Longrightarrow> list_all nul_free (butlast us) \<Longrightarrow> ts = us"
proof (induction ts arbitrary: us)
  case (Cons t ts)
  then obtain u us' where us: "us = u # us'" by (cases us) auto
  show ?case
  proof (cases "ts = []")
    case True
    then have "us' = []" using Cons.prems(2) us by simp
    then show ?thesis
      using True Cons.prems(1) us octets_inj [of t u] by (simp add: separated_def)
  next
    case False
    then have ne: "us' \<noteq> []" using Cons.prems(2) us by auto
    have free: "nul_free t" "nul_free u" using Cons.prems(3,4) us False ne by simp_all
    have eq: "map of_char t @ 0 # separated ts = map of_char u @ (0 :: byte) # separated us'"
      using Cons.prems(1) us by (simp add: separated_Cons)
    have "(0 :: byte) \<notin> set (map of_char t)" "(0 :: byte) \<notin> set (map of_char u)"
      unfolding list.set_map using free nul_free_octets by blast+
    from append_mark_inj [OF eq this]
    have "map of_char t = (map of_char u :: byte list)" "separated ts = separated us'" by blast+
    then show ?thesis
      using Cons.IH [of us'] Cons.prems(2,3,4) us False ne octets_inj [of t u] by simp
  qed
qed simp

lemma render_hex_nul_free: "nul_free (render_hex bs)"
  using render_hex_lowercase [of bs] by (auto simp: list_all_iff is_lowercase_hex_def Let_def)

lemma to_string_inj: "to_string a = to_string b \<longleftrightarrow> a = b"
  by (metis canonical_number_to_string option.inject)

lemma to_string_nul_free: "nul_free (to_string n)"
  using show_nat_digits [of "CHR 0x00" "unat n"] by (auto simp: to_string_def digit_value_def)

lemma kind_as_text_inj: "kind_as_text k = kind_as_text k' \<longleftrightarrow> k = k'"
  by (cases k; cases k') simp_all

lemma kind_as_text_nul_free: "nul_free (kind_as_text k)"
  by (cases k) simp_all

text \<open>The contracts a build names: names and digests, none of which holds a NUL.\<close>

definition plainly_named :: "expected_provenance \<Rightarrow> bool" where
  "plainly_named e \<longleftrightarrow> list_all nul_free
     [transport_contract_digest e, command_wire_name (command_contract e),
      command_semantic_contract_version (command_contract e),
      command_contract_limits_digest (command_contract e), canonical_json_contract_digest e,
      argument_schema_digest (command_contract e), result_schema_digest (command_contract e)]"

text \<open>The octets the two digests of a submission are taken over.\<close>

definition digest_preimage :: "expected_provenance \<Rightarrow> string \<Rightarrow> byte list" where
  "digest_preimage e a = separated
     [SUBMITTED_COMMAND_DIGEST_VERSION, transport_contract_digest e,
      command_wire_name (command_contract e), command_semantic_contract_version (command_contract e),
      command_contract_limits_digest (command_contract e), canonical_json_contract_digest e,
      argument_schema_digest (command_contract e), result_schema_digest (command_contract e), a]"

definition key_preimage ::
  "(byte list \<Rightarrow> byte list) \<Rightarrow> expected_provenance \<Rightarrow> string \<Rightarrow> expected_artifact_manifest \<Rightarrow> byte list" where
  "key_preimage sha256 e a m = separated
     [SUBMISSION_BINDING_VERSION, render_hex (sha256 (digest_preimage e a)),
      kind_as_text (manifest_kind m), to_string (artifact_rows m), to_string (artifact_bytes m)]"

definition collide :: "(byte list \<Rightarrow> byte list) \<Rightarrow> byte list \<Rightarrow> byte list \<Rightarrow> bool" where
  "collide sha256 x y \<longleftrightarrow> x \<noteq> y \<and> sha256 x = sha256 y"

lemma bind_submitted_digest_preimage:
  "bind_submitted_digest sha256 e a m = render_hex (sha256 (key_preimage sha256 e a m))"
  by (simp add: bind_submitted_digest_def submitted_command_digest_derive_def key_preimage_def
      digest_preimage_def)

lemma digest_preimage_inj:
  assumes "plainly_named e" "plainly_named e'" "digest_preimage e a = digest_preimage e' a'"
  shows "(e, a) = (e', a')"
proof -
  let ?f = "\<lambda>e a. [SUBMITTED_COMMAND_DIGEST_VERSION, transport_contract_digest e,
      command_wire_name (command_contract e), command_semantic_contract_version (command_contract e),
      command_contract_limits_digest (command_contract e), canonical_json_contract_digest e,
      argument_schema_digest (command_contract e), result_schema_digest (command_contract e), a]"
  have "?f e a = ?f e' a'"
    using assms unfolding digest_preimage_def
    by (intro separated_inj) (simp_all add: plainly_named_def SUBMITTED_COMMAND_DIGEST_VERSION_def)
  then show ?thesis
    by (cases e; cases e'; cases "command_contract e"; cases "command_contract e'") simp
qed

lemma key_preimage_inj:
  assumes "key_preimage sha256 e a m = key_preimage sha256 e' a' m'"
  shows "m = m' \<and> sha256 (digest_preimage e a) = sha256 (digest_preimage e' a')"
proof -
  let ?f = "\<lambda>e a m. [SUBMISSION_BINDING_VERSION, render_hex (sha256 (digest_preimage e a)),
      kind_as_text (manifest_kind m), to_string (artifact_rows m), to_string (artifact_bytes m)]"
  have "?f e a m = ?f e' a' m'"
    using assms unfolding key_preimage_def
    by (intro separated_inj)
      (simp_all add: SUBMISSION_BINDING_VERSION_def render_hex_nul_free to_string_nul_free
        kind_as_text_nul_free)
  then show ?thesis by (cases m; cases m') (auto simp: to_string_inj kind_as_text_inj dest: render_hex_inj)
qed

text \<open>C34: The idempotency key names the submission.  Between submissions under contracts whose names and
  digests hold no NUL, two keys are equal exactly when both bind the same contracts, the same
  canonical arguments and the same declaration of artifacts, or when the octets hashed for these two
  submissions - those of the keys themselves or, under one declaration, those of the command
  digests - are a collision of SHA-256.  So a resend after a crash is the same submission to the agent, and another submission is
  taken for it only over a collision of its own octets.\<close>

theorem submission_key_identifies:
  assumes "plainly_named e" and "plainly_named e'"
  shows "bind_submitted_digest sha256 e a m = bind_submitted_digest sha256 e' a' m' \<longleftrightarrow>
    (e, a, m) = (e', a', m') \<or>
    collide sha256 (key_preimage sha256 e a m) (key_preimage sha256 e' a' m') \<or>
    m = m' \<and> collide sha256 (digest_preimage e a) (digest_preimage e' a')"
proof
  assume "bind_submitted_digest sha256 e a m = bind_submitted_digest sha256 e' a' m'"
  then have "sha256 (key_preimage sha256 e a m) = sha256 (key_preimage sha256 e' a' m')"
    unfolding bind_submitted_digest_preimage by (rule render_hex_inj)
  then show "(e, a, m) = (e', a', m') \<or>
      collide sha256 (key_preimage sha256 e a m) (key_preimage sha256 e' a' m') \<or>
      m = m' \<and> collide sha256 (digest_preimage e a) (digest_preimage e' a')"
    using key_preimage_inj [of sha256 e a m e' a' m'] digest_preimage_inj [OF assms, of a a']
    by (auto simp: collide_def)
qed (auto simp: bind_submitted_digest_preimage key_preimage_def collide_def)

definition example_expected :: expected_provenance where
  "example_expected = \<lparr>canonical_json_contract_digest = ''c0'',
     command_contract = \<lparr>argument_schema_digest = ''a0'', command_contract_limits_digest = ''l0'',
       command_semantic_contract_version = ''1'', command_wire_name = ''load'',
       result_schema_digest = ''r0''\<rparr>,
     transport_contract_digest = ''t0''\<rparr>"

theorem submission_key_identifies_witness:
  "bind_submitted_digest id example_expected ''{}'' manifest_empty \<noteq>
   bind_submitted_digest id example_expected ''{}''
     \<lparr>artifact_rows = 1, artifact_bytes = 1, manifest_kind = LoadManifest\<rparr>"
proof -
  have "plainly_named example_expected" by (simp add: plainly_named_def example_expected_def)
  from submission_key_identifies [OF this this, of id "''{}''" manifest_empty "''{}''"
      "\<lparr>artifact_rows = 1, artifact_bytes = 1, manifest_kind = LoadManifest\<rparr>"]
  show ?thesis by (simp add: manifest_empty_def collide_def)
qed

section \<open>What a request carries\<close>

lemma caller_headers_ok:
  "caller_headers_from earlier hs = Inr () \<longleftrightarrow>
     (\<forall>n \<in> fst ` set hs. \<forall>r \<in> set RESERVED_HEADERS \<union> set earlier. \<not> eq_ignore_ascii_case r n) \<and>
     distinct (map (map ascii_lower \<circ> fst) hs)"
proof (induction earlier hs rule: caller_headers_from.induct)
  case (2 earlier name v rest)
  then show ?case by (auto simp: eq_ignore_ascii_case_def image_iff)
qed simp

text \<open>Every header of a request is there once, whatever case its name is written in.\<close>

lemma request_headers_distinct:
  assumes "request_headers self held_token origin now caller = Inr hs"
  shows "distinct (map (map ascii_lower \<circ> fst) hs)"
    and "(IDEMPOTENCY_KEY_HEADER, sub_command_digest self) \<in> set hs"
    and "\<exists>token. held_token = Some token \<and> token_origin token = origin \<and>
           now < expires_at_unix_milliseconds token \<and> (TOKEN_HEADER, token_value token) \<in> set hs"
proof -
  have c: "caller_headers_from [] caller = Inr ()"
    using assms by (auto simp: request_headers_def require_caller_headers_permitted_def result_simps
        split: if_splits)
  have "requires_token SUBMISSION_METHOD"
    by (simp add: requires_token_def SUBMISSION_METHOD_def PROTECTED_METHODS_def)
  then obtain token where t: "held_token = Some token" "token_origin token = origin"
      "now < expires_at_unix_milliseconds token"
    and hs: "hs = [(CONTENT_TYPE_HEADER, SUBMISSION_MEDIA_TYPE), (REFERER_HEADER, origin @ ''/''),
       (IDEMPOTENCY_KEY_HEADER, sub_command_digest self), (TOKEN_HEADER, token_value token)] @ caller"
    using assms by (auto simp: request_headers_def header_for_def present_to_def result_simps not_le
        split: if_splits option.splits)
  then show "(IDEMPOTENCY_KEY_HEADER, sub_command_digest self) \<in> set hs"
    and "\<exists>token. held_token = Some token \<and> token_origin token = origin \<and>
           now < expires_at_unix_milliseconds token \<and> (TOKEN_HEADER, token_value token) \<in> set hs"
    by auto
  let ?own = "[CONTENT_TYPE_HEADER, REFERER_HEADER, IDEMPOTENCY_KEY_HEADER, TOKEN_HEADER]"
  have "distinct (map (map ascii_lower) ?own)" by code_simp
  moreover have "set ?own \<subseteq> set RESERVED_HEADERS" by (auto simp: RESERVED_HEADERS_def)
  ultimately show "distinct (map (map ascii_lower \<circ> fst) hs)"
    using c unfolding hs caller_headers_ok by (auto simp: eq_ignore_ascii_case_def image_iff)
qed

end
