(* ===== verification/Job_Reconciliation.thy ===== *)
theory Job_Reconciliation
  imports Command_Submission Event_Stream
begin

text \<open>
  Asking the agent what is true: \<open>slingshot-agent-connection/src/job_snapshot_reconciliation.rs\<close>
  with the pass of \<open>slingshot-daemon/src/operation/job_reconciliation.rs\<close> that runs it, and the
  cursor check of \<open>event_stream_reset.rs\<close>.  The JSON parser, the HTTP library's check of a header
  value and the settlement that writes an ending down are parameters; the settlement is a
  function over its own state.

  The theorems show that an answer moves a job only forward and only when it echoes the
  submission in every field, in any interleaving with events of the stream, that a settlement is
  offered exactly the endings that are still retained, and that a route spells exactly one
  identifier.
\<close>

section \<open>Answers\<close>

record snapshot_echo =
  echo_generation :: u64
  echo_operation :: string
  echo_target :: string
  echo_subscription :: string
  echo_provenance :: document_provenance
  echo_revision :: string
  echo_command_digest :: string

record artifact_echo =
  byte_length :: u64
  echoed_media_type :: string
  artifact_slot :: string
  suggested_name :: string

record terminal_document =
  td_operation :: wire_operation_identity
  td_subscription :: string
  td_canonical :: string
  td_provenance :: document_provenance
  td_command_digest :: string

record terminal_result_document = terminal_document +
  declared_artifacts :: "artifact_echo list"

record job_snapshot =
  subscription_watermark :: string
  terminal_failure :: "terminal_document option"
  terminal_result :: "terminal_result_document option"
  snap_attempt :: u64
  echo :: snapshot_echo
  snap_retention_milliseconds :: u64
  snap_kind :: job_event_kind
  snap_jobs :: "string list"
  snap_progress :: u64
  snap_sequence :: u64

text \<open>The snapshot as it is written on the wire.\<close>

record wire_snapshot =
  wire_watermark :: string
  wire_failure :: "terminal_document option"
  wire_result :: "terminal_result_document option"
  wire_provenance :: document_provenance
  wire_target :: string
  wire_revision :: string
  wire_subscription :: string
  wire_command_digest :: string
  wire_jobs :: "string list"
  wire_retention_milliseconds :: u64
  wire_attempt :: u64
  wire_progress :: u64
  wire_generation :: u64
  wire_operation :: string
  wire_kind :: job_event_kind
  wire_sequence :: u64

definition snapshot_described_state :: "job_snapshot \<Rightarrow> agent_job_state" where
  "snapshot_described_state self = (case snap_kind self of
     EventAccepted \<Rightarrow> JobQueued
   | EventStarted \<Rightarrow> JobRunning
   | EventProgress \<Rightarrow> JobRunning
   | EventSucceeded \<Rightarrow> JobSucceeded
   | EventFailed \<Rightarrow> JobFailed)"

datatype lookup_answer = Found job_snapshot | Retired snapshot_echo | Missing

record snapshot_expectation =
  exp_generation :: u64
  exp_operation :: string
  exp_target :: string
  exp_subscription :: string
  exp_provenance :: expected_provenance
  exp_revision :: string
  exp_command_digest :: string

datatype reconciliation_refusal =
    MalformedSnapshot
  | AnswersAnotherTarget
  | AnswersAnotherGeneration u64 u64
  | AnswersAnotherOperation
  | AnswersAnotherSubscription
  | AnswersAnotherRevision
  | AnswersAnotherSubmission
  | AnswerProvenance wire_refusal
  | AnswerJob remote_job_failure
  | RetentionExpired
  | QueryTooLong u64 nat
  | TooManyPhysicalJobs u64 nat

definition require_echoed :: "snapshot_expectation \<Rightarrow> snapshot_echo \<Rightarrow> reconciliation_refusal + unit" where
  "require_echoed self e =
     (if echo_target e \<noteq> exp_target self then Inl AnswersAnotherTarget
      else if echo_generation e \<noteq> exp_generation self
      then Inl (AnswersAnotherGeneration (exp_generation self) (echo_generation e))
      else if echo_operation e \<noteq> exp_operation self then Inl AnswersAnotherOperation
      else if echo_subscription e \<noteq> exp_subscription self then Inl AnswersAnotherSubscription
      else if echo_revision e \<noteq> exp_revision self then Inl AnswersAnotherRevision
      else (case require_matching (exp_provenance self) (echo_provenance e) of
              Inl refusal \<Rightarrow> Inl (AnswerProvenance refusal)
            | Inr _ \<Rightarrow>
                if echo_command_digest e \<noteq> exp_command_digest self then Inl AnswersAnotherSubmission
                else Inr ()))"

section \<open>Decoding\<close>

definition blank :: "char \<Rightarrow> bool" where
  "blank c \<longleftrightarrow> c = CHR '' '' \<or> c = CHR 0x09"

definition require_cursor :: "(string \<Rightarrow> bool) \<Rightarrow> string \<Rightarrow> unit + unit" where
  "require_cursor header_value_ok cursor =
     (if cursor = [] \<or>
         as_u64_length (length cursor) > bound_identifier_bytes decoder_bounds_embedded \<or>
         blank (hd cursor) \<or> blank (last cursor) \<or> \<not> header_value_ok cursor
      then Inl () else Inr ())"

definition digest_spelled :: "string \<Rightarrow> bool" where
  "digest_spelled s \<longleftrightarrow> length s = 64 \<and> list_all is_lowercase_hex s"

definition document_mismatch ::
  "('a terminal_document_scheme) option \<Rightarrow> snapshot_echo \<Rightarrow> bool \<Rightarrow> bool" where
  "document_mismatch document e right_kind =
     (case document of
        None \<Rightarrow> False
      | Some d \<Rightarrow>
          \<not> right_kind \<or>
          op_generation (td_operation d) \<noteq> echo_generation e \<or>
          op_identifier (td_operation d) \<noteq> echo_operation e \<or>
          op_target_digest (td_operation d) \<noteq> echo_target e \<or>
          op_environment_revision (td_operation d) \<noteq> echo_revision e \<or>
          td_subscription d \<noteq> echo_subscription e \<or>
          td_provenance d \<noteq> echo_provenance e \<or>
          td_command_digest d \<noteq> echo_command_digest e)"

definition decode_snapshot ::
  "(byte list \<Rightarrow> wire_snapshot option) \<Rightarrow> (string \<Rightarrow> bool) \<Rightarrow> byte list \<Rightarrow> snapshot_expectation \<Rightarrow>
     reconciliation_refusal + job_snapshot" where
  "decode_snapshot parse header_value_ok body expectation =
     (if as_u64_length (length body) > embedded_limit ''maximum_agent_protocol_document_bytes''
      then Inl MalformedSnapshot
      else (case parse body of
         None \<Rightarrow> Inl MalformedSnapshot
       | Some wire \<Rightarrow>
          (case (require_cursor header_value_ok (wire_watermark wire),
                 stream_cursor_new (wire_watermark wire)
                   (bound_identifier_bytes decoder_bounds_embedded)) of
             (Inr _, Inr watermark) \<Rightarrow>
               let e = \<lparr>echo_generation = wire_generation wire,
                     echo_operation = wire_operation wire, echo_target = wire_target wire,
                     echo_subscription = wire_subscription wire,
                     echo_provenance = wire_provenance wire, echo_revision = wire_revision wire,
                     echo_command_digest = wire_command_digest wire\<rparr> in
               if echo_generation e = 0 \<or>
                  \<not> digest_spelled (echo_operation e) \<or> \<not> digest_spelled (echo_target e) \<or>
                  \<not> digest_spelled (echo_revision e) \<or> \<not> digest_spelled (echo_command_digest e) \<or>
                  echo_subscription e = [] \<or>
                  as_u64_length (length (echo_subscription e)) >
                    embedded_limit ''maximum_daemon_subscription_identifier_bytes'' \<or>
                  wire_retention_milliseconds wire = 0 \<or>
                  wire_retention_milliseconds wire >
                    embedded_limit ''maximum_persisted_remaining_retention_milliseconds'' \<or>
                  wire_jobs wire = [] \<or>
                  as_u64_length (length (wire_jobs wire)) >
                    embedded_limit ''maximum_physical_sling_job_matches'' \<or>
                  \<not> is_sorted_by (\<lambda>a b. \<not> a \<ge> b) (wire_jobs wire) \<or>
                  (\<exists>name \<in> set (wire_jobs wire). \<not> is_ok (agent_job_identifier_new name))
               then Inl MalformedSnapshot
               else bindE (require_echoed expectation e) (\<lambda>_.
                 if document_mismatch (wire_result wire) e (wire_kind wire = EventSucceeded)
                 then Inl MalformedSnapshot
                 else if document_mismatch (wire_failure wire) e (wire_kind wire = EventFailed)
                 then Inl MalformedSnapshot
                 else Inr \<lparr>subscription_watermark = watermark, terminal_failure = wire_failure wire,
                   terminal_result = wire_result wire, snap_attempt = wire_attempt wire, echo = e,
                   snap_retention_milliseconds = wire_retention_milliseconds wire,
                   snap_kind = wire_kind wire, snap_jobs = wire_jobs wire,
                   snap_progress = wire_progress wire, snap_sequence = wire_sequence wire\<rparr>)
           | _ \<Rightarrow> Inl MalformedSnapshot)))"

section \<open>Convergence\<close>

datatype convergence =
    Unchanged
  | Advanced remote_job_observation
  | StaleSnapshot
  | ReadyToSettle remote_job_observation
  | WindowExpired
  | GraceRequired u64
  | Indeterminate

definition missing_grace_milliseconds :: u64 where
  "missing_grace_milliseconds = embedded_limit ''missing_operation_grace_milliseconds''"

definition missing_convergence :: "u64 \<Rightarrow> u64 \<Rightarrow> convergence" where
  "missing_convergence submitted_at now =
     (let until = saturating_add submitted_at missing_grace_milliseconds in
      if now < until then GraceRequired until else Indeterminate)"

definition converge ::
  "remote_job_observation \<Rightarrow> job_snapshot \<Rightarrow> u64 \<Rightarrow> u64 \<Rightarrow> reconciliation_refusal + convergence" where
  "converge held_job snapshot submitted_at now =
     (if snap_sequence snapshot < applied_sequence held_job then Inr StaleSnapshot
      else
       let st = snapshot_described_state snapshot in
       if snap_sequence snapshot = applied_sequence held_job \<and> st = state held_job \<and>
          snap_attempt snapshot = attempt held_job \<and> snap_progress snapshot = progress held_job
       then Inr Unchanged
       else (case advanced held_job st (snap_sequence snapshot) (snap_attempt snapshot)
                    (snap_progress snapshot) of
          Inl failure \<Rightarrow> Inl (AnswerJob failure)
        | Inr moved \<Rightarrow>
            if \<not> job_is_terminal st then Inr (Advanced moved)
            else if saturating_sub now submitted_at \<ge> snap_retention_milliseconds snapshot
            then Inl RetentionExpired
            else Inr (ReadyToSettle moved)))"

definition reconcile ::
  "snapshot_expectation \<Rightarrow> remote_job_observation \<Rightarrow> lookup_answer \<Rightarrow> u64 \<Rightarrow> u64 \<Rightarrow>
     reconciliation_refusal + convergence" where
  "reconcile expectation held_job answer submitted_at now =
     (case answer of
        Missing \<Rightarrow> Inr (missing_convergence submitted_at now)
      | Retired e \<Rightarrow> bindE (require_echoed expectation e) (\<lambda>_. Inr WindowExpired)
      | Found snapshot \<Rightarrow>
          bindE (require_echoed expectation (echo snapshot)) (\<lambda>_.
            converge held_job snapshot submitted_at now))"

section \<open>Settling an ending\<close>

record terminal_facts =
  facts_operation :: string
  facts_target :: string
  facts_observation :: remote_job_observation
  facts_jobs :: "string list"
  facts_retention_milliseconds :: u64
  facts_command_digest :: string

datatype settlement_refusal = Declined string

datatype reconciliation_outcome =
    Converged convergence
  | Settled remote_job_observation
  | SettlementDeclined settlement_refusal

definition reconcile_and_settle ::
  "snapshot_expectation \<Rightarrow> remote_job_observation \<Rightarrow> lookup_answer \<Rightarrow> u64 \<Rightarrow> u64 \<Rightarrow>
     (terminal_facts \<Rightarrow> ('s, settlement_refusal, unit) receiver) \<Rightarrow>
     ('s, reconciliation_refusal, reconciliation_outcome) receiver" where
  "reconcile_and_settle expectation held_job answer submitted_at now settle s =
     (case reconcile expectation held_job answer submitted_at now of
        Inl refusal \<Rightarrow> (s, Inl refusal)
      | Inr convergence \<Rightarrow>
          (case (convergence, answer) of
             (ReadyToSettle ending, Found snapshot) \<Rightarrow>
               (case settle \<lparr>facts_operation = exp_operation expectation,
                       facts_target = exp_target expectation,
                       facts_observation = ending,
                       facts_jobs = snap_jobs snapshot,
                       facts_retention_milliseconds =
                         saturating_sub (snap_retention_milliseconds snapshot)
                           (saturating_sub now submitted_at),
                       facts_command_digest = exp_command_digest expectation\<rparr> s of
                  (s', Inr _) \<Rightarrow> (s', Inr (Settled ending))
                | (s', Inl refusal) \<Rightarrow> (s', Inr (SettlementDeclined refusal)))
           | _ \<Rightarrow> (s, Inr (Converged convergence))))"

section \<open>Routes and a rebuilt store\<close>

definition UNRESERVED :: string where
  "UNRESERVED = ''ABCDEFGHIJKLMNOPQRSTUVWXYZabcdefghijklmnopqrstuvwxyz0123456789-._~''"

definition upper_hex :: "nat \<Rightarrow> char" where
  "upper_hex n = (if n < 10 then char_of (48 + n) else char_of (55 + n))"

definition encoded_once :: "string \<Rightarrow> string" where
  "encoded_once spelled =
     concat (map (\<lambda>c. if c \<in> set UNRESERVED then [c]
        else [CHR ''%'', upper_hex (of_char c div 16), upper_hex (of_char c mod 16)]) spelled)"

definition require_within :: "string \<Rightarrow> u64 \<Rightarrow> reconciliation_refusal + unit" where
  "require_within spelled allowed =
     (if as_u64_length (length spelled) > allowed then Inl (QueryTooLong allowed (length spelled))
      else Inr ())"

definition LOOKUP_ROUTE :: string where "LOOKUP_ROUTE = ''/bin/slingshot/agent/snapshot''"
definition PHYSICAL_JOB_ROUTE :: string where "PHYSICAL_JOB_ROUTE = ''/bin/slingshot/agent/jobs''"
definition OPERATION_QUERY_MEMBER :: string where
  "OPERATION_QUERY_MEMBER = ''agent_operation_identifier''"
definition SLING_JOB_QUERY_MEMBER :: string where
  "SLING_JOB_QUERY_MEMBER = ''sling_job_identifier''"

definition lookup_route :: "string \<Rightarrow> reconciliation_refusal + string" where
  "lookup_route identifier =
     bindE (require_within identifier (embedded_limit ''maximum_agent_operation_identifier_bytes''))
       (\<lambda>_. Inr (LOOKUP_ROUTE @ ''?'' @ OPERATION_QUERY_MEMBER @ ''='' @ encoded_once identifier))"

text \<open>Collecting the routes of the ordered identifiers, up to the first that does not fit.\<close>

fun collect_routes :: "u64 \<Rightarrow> string list \<Rightarrow> reconciliation_refusal + string list" where
  "collect_routes allowed [] = Inr []"
| "collect_routes allowed (identifier # rest) =
     bindE (require_within identifier allowed) (\<lambda>_.
     bindE (collect_routes allowed rest) (\<lambda>routes.
       Inr ((PHYSICAL_JOB_ROUTE @ ''?'' @ SLING_JOB_QUERY_MEMBER @ ''='' @ encoded_once identifier)
            # routes)))"

definition physical_job_routes :: "string list \<Rightarrow> reconciliation_refusal + string list" where
  "physical_job_routes identifiers =
     (let allowed = embedded_limit ''maximum_physical_sling_job_matches'';
          ordered = remdups_adj (sort identifiers)
      in if as_u64_length (length ordered) > allowed
         then Inl (TooManyPhysicalJobs allowed (length ordered))
         else collect_routes (embedded_limit ''maximum_sling_job_identifier_bytes'') ordered)"

datatype generation_loss_certainty =
    Recovered job_snapshot | KnownMissing | EvidenceFreeAmbiguous | RemoteStateLost

definition certainty_after_generation_change ::
  "string list \<Rightarrow> job_snapshot option \<Rightarrow> nat \<Rightarrow> generation_loss_certainty" where
  "certainty_after_generation_change persisted_jobs recovered answered_missing =
     (case recovered of
        Some snapshot \<Rightarrow> Recovered snapshot
      | None \<Rightarrow>
          if persisted_jobs = [] then RemoteStateLost
          else if answered_missing = length persisted_jobs then KnownMissing
          else EvidenceFreeAmbiguous)"

section \<open>One pass of the daemon\<close>

record persisted_submission =
  persisted_observation :: remote_job_observation
  persisted_jobs :: "string list"
  submitted_at_unix_milliseconds :: u64

datatype pass_outcome = Logical reconciliation_outcome | AfterGenerationChange generation_loss_certainty

definition pass ::
  "snapshot_expectation \<Rightarrow> persisted_submission \<Rightarrow> lookup_answer \<Rightarrow> u64 \<Rightarrow>
     (terminal_facts \<Rightarrow> ('s, settlement_refusal, unit) receiver) \<Rightarrow>
     ('s, reconciliation_refusal, pass_outcome) receiver" where
  "pass expectation persisted answer now settle s =
     (case reconcile_and_settle expectation (persisted_observation persisted) answer
             (submitted_at_unix_milliseconds persisted) now settle s of
        (s', Inl refusal) \<Rightarrow> (s', Inl refusal)
      | (s', Inr outcome) \<Rightarrow> (s', Inr (Logical outcome)))"

definition recovery_routes :: "persisted_submission \<Rightarrow> reconciliation_refusal + string list" where
  "recovery_routes persisted = physical_job_routes (persisted_jobs persisted)"

definition certainty_after_rebuild ::
  "persisted_submission \<Rightarrow> job_snapshot option \<Rightarrow> nat \<Rightarrow> pass_outcome" where
  "certainty_after_rebuild persisted recovered answered_missing =
     AfterGenerationChange
       (certainty_after_generation_change (persisted_jobs persisted) recovered answered_missing)"

definition leaves_state_untouched :: "pass_outcome \<Rightarrow> bool" where
  "leaves_state_untouched outcome =
     (case outcome of
        Logical (Settled _) \<Rightarrow> False
      | Logical _ \<Rightarrow> True
      | AfterGenerationChange _ \<Rightarrow> True)"

definition asks_again :: "convergence \<Rightarrow> bool" where
  "asks_again convergence' = (case convergence' of GraceRequired _ \<Rightarrow> True | _ \<Rightarrow> False)"

section \<open>Whose answer it is\<close>

definition expected_echo :: "snapshot_expectation \<Rightarrow> snapshot_echo" where
  "expected_echo self =
     \<lparr>echo_generation = exp_generation self, echo_operation = exp_operation self,
      echo_target = exp_target self, echo_subscription = exp_subscription self,
      echo_provenance = provenance_of (exp_provenance self), echo_revision = exp_revision self,
      echo_command_digest = exp_command_digest self\<rparr>"

lemma require_echoed_Inr: "require_echoed self e = Inr () \<longleftrightarrow> e = expected_echo self"
proof -
  have "require_matching (exp_provenance self) p = Inr () \<longleftrightarrow> p = provenance_of (exp_provenance self)" for p
    by (rule require_matching_Inr)
  then show ?thesis
    by (cases e) (auto simp: require_echoed_def expected_echo_def split: sum.split)
qed

lemma require_echoed_ok: "is_ok (require_echoed self e) \<longleftrightarrow> e = expected_echo self"
  using require_echoed_Inr [of self e] by (cases "require_echoed self e") auto

text \<open>A decoded snapshot is about the submission that was asked after, and so is the ending it
  carries.\<close>

lemma decode_snapshot_sound:
  assumes "decode_snapshot parse header_value_ok body expectation = Inr snapshot"
  shows "echo snapshot = expected_echo expectation" and "job_set_ok (snap_jobs snapshot)"
    and "0 < snap_retention_milliseconds snapshot"
    and "terminal_result snapshot = Some r \<Longrightarrow> snap_kind snapshot = EventSucceeded"
    and "terminal_failure snapshot = Some f \<Longrightarrow> snap_kind snapshot = EventFailed"
proof -
  have "as_u64_length n \<le> 32 \<longleftrightarrow> n \<le> 32" for n
    using as_u64_length_le [of 32 n] by simp
  then have a: "as_u64_length n > 32 \<longleftrightarrow> \<not> n \<le> 32" for n by (metis not_le)
  have w: "(\<lambda>a b. \<not> b \<le> a) = ((<) :: string \<Rightarrow> string \<Rightarrow> bool)" by (simp add: not_le fun_eq_iff)
  have j: "is_ok (agent_job_identifier_new name) \<longleftrightarrow> name \<noteq> [] \<and> length name \<le> 1024" for name
    by (auto simp: agent_job_identifier_new_def contract_simps Let_def)
  show "echo snapshot = expected_echo expectation"
    using assms by (auto simp: decode_snapshot_def bindE_eq_Inr require_echoed_Inr Let_def
        split: if_splits option.splits sum.splits)
  show "job_set_ok (snap_jobs snapshot)"
    using assms by (auto simp: decode_snapshot_def bindE_eq_Inr Let_def job_set_ok_def contract_simps
        a j w is_sorted_by_less split: if_splits option.splits sum.splits)
  show "0 < snap_retention_milliseconds snapshot"
    using assms by (auto simp: decode_snapshot_def bindE_eq_Inr Let_def word_neq_0_conv
        split: if_splits option.splits sum.splits)
  show "snap_kind snapshot = EventSucceeded" if "terminal_result snapshot = Some r"
    using assms that by (auto simp: decode_snapshot_def bindE_eq_Inr Let_def document_mismatch_def
        split: if_splits option.splits sum.splits)
  show "snap_kind snapshot = EventFailed" if "terminal_failure snapshot = Some f"
    using assms that by (auto simp: decode_snapshot_def bindE_eq_Inr Let_def document_mismatch_def
        split: if_splits option.splits sum.splits)
qed

section \<open>What an answer does to a job\<close>

definition moved_to :: "job_snapshot \<Rightarrow> remote_job_observation" where
  "moved_to s = \<lparr>applied_sequence = snap_sequence s, attempt = snap_attempt s,
     progress = snap_progress s, state = snapshot_described_state s\<rparr>"

lemma terminal_described: "job_is_terminal (snapshot_described_state s) \<longleftrightarrow> kind_is_terminal (snap_kind s)"
  by (cases "snap_kind s") (simp_all add: snapshot_described_state_def)

text \<open>The move an answer asks for, when it is a move forward about this submission.\<close>

definition forward_move ::
  "snapshot_expectation \<Rightarrow> remote_job_observation \<Rightarrow> lookup_answer \<Rightarrow> job_snapshot option" where
  "forward_move x h a =
     (case a of
        Found s \<Rightarrow>
          if echo s = expected_echo x \<and> applied_sequence h \<le> snap_sequence s \<and> moved_to s \<noteq> h \<and>
             observation_advances h (moved_to s)
          then Some s else None
      | _ \<Rightarrow> None)"

lemma observation_eq_iff:
  "moved_to s = h \<longleftrightarrow> snap_sequence s = applied_sequence h \<and> snapshot_described_state s = state h \<and>
     snap_attempt s = attempt h \<and> snap_progress s = progress h"
  by (cases h) (auto simp: moved_to_def)

lemma converge_eq:
  "converge h s submitted now =
     (if snap_sequence s < applied_sequence h then Inr StaleSnapshot
      else if moved_to s = h then Inr Unchanged
      else if \<not> observation_advances h (moved_to s)
      then Inl (AnswerJob (projl (advanced h (snapshot_described_state s) (snap_sequence s)
             (snap_attempt s) (snap_progress s))))
      else if \<not> kind_is_terminal (snap_kind s) then Inr (Advanced (moved_to s))
      else if saturating_sub now submitted \<ge> snap_retention_milliseconds s then Inl RetentionExpired
      else Inr (ReadyToSettle (moved_to s)))"
proof -
  let ?a = "advanced h (snapshot_described_state s) (snap_sequence s) (snap_attempt s) (snap_progress s)"
  have "?a = Inr r \<longleftrightarrow> observation_advances h (moved_to s) \<and> r = moved_to s" for r
    by (auto simp: advanced_Inr moved_to_def)
  then show ?thesis
    by (cases ?a) (auto simp: converge_def Let_def terminal_described observation_eq_iff [symmetric])
qed

lemma reconcile_Found:
  "reconcile x h (Found s) submitted now =
     (if echo s = expected_echo x then converge h s submitted now
      else Inl (projl (require_echoed x (echo s))))"
  using require_echoed_Inr [of x "echo s"]
  by (cases "require_echoed x (echo s)") (auto simp: reconcile_def)

lemma reconcile_other:
  "reconcile x h Missing submitted now \<noteq> Inr (Advanced o')"
  "reconcile x h Missing submitted now \<noteq> Inr (ReadyToSettle o')"
  "reconcile x h (Retired e) submitted now \<noteq> Inr (Advanced o')"
  "reconcile x h (Retired e) submitted now \<noteq> Inr (ReadyToSettle o')"
  by (auto simp: reconcile_def missing_convergence_def bindE_eq_Inr Let_def)

lemma reconcile_moves:
  "reconcile x h a submitted now = Inr (Advanced o') \<longleftrightarrow>
     (\<exists>s. forward_move x h a = Some s \<and> \<not> kind_is_terminal (snap_kind s) \<and> o' = moved_to s)"
  "reconcile x h a submitted now = Inr (ReadyToSettle o') \<longleftrightarrow>
     (\<exists>s. forward_move x h a = Some s \<and> kind_is_terminal (snap_kind s) \<and> o' = moved_to s \<and>
        saturating_sub now submitted < snap_retention_milliseconds s)"
  by (cases a; auto simp: reconcile_other reconcile_Found converge_eq forward_move_def not_less not_le)+

text \<open>The ending an answer brings, when its results can still be fetched.\<close>

definition ending_of ::
  "snapshot_expectation \<Rightarrow> remote_job_observation \<Rightarrow> lookup_answer \<Rightarrow> u64 \<Rightarrow> u64 \<Rightarrow>
     job_snapshot option" where
  "ending_of x h a submitted now =
     (case forward_move x h a of
        Some s \<Rightarrow>
          if kind_is_terminal (snap_kind s) \<and>
             unat now - unat submitted < unat (snap_retention_milliseconds s)
          then Some s else None
      | None \<Rightarrow> None)"

definition ending_facts ::
  "snapshot_expectation \<Rightarrow> job_snapshot \<Rightarrow> u64 \<Rightarrow> u64 \<Rightarrow> terminal_facts" where
  "ending_facts x s submitted now =
     \<lparr>facts_operation = exp_operation x, facts_target = exp_target x, facts_observation = moved_to s,
      facts_jobs = snap_jobs s,
      facts_retention_milliseconds =
        saturating_sub (snap_retention_milliseconds s) (saturating_sub now submitted),
      facts_command_digest = exp_command_digest x\<rparr>"

lemma reconcile_ending:
  "reconcile x h a submitted now = Inr (ReadyToSettle o') \<longleftrightarrow>
     (\<exists>s. ending_of x h a submitted now = Some s \<and> o' = moved_to s)"
  by (auto simp: reconcile_moves ending_of_def word_less_nat_alt split: option.splits)

lemma ending_of_Found: "ending_of x h a submitted now = Some s \<Longrightarrow> a = Found s"
  by (auto simp: ending_of_def forward_move_def split: option.splits lookup_answer.splits if_splits)

text \<open>C4: A settlement is offered exactly the endings it may write: the answer echoes the submission
  in every field, describes an ending, moves the job forward and not back, and its results are
  still retained when it is read.  It is then asked once, with the facts of that very answer, and
  only its consent makes the ending true; in every other case it is not asked and nothing is
  settled.\<close>

theorem settlement_offered_iff:
  "fst (reconcile_and_settle x h a submitted now settle s) =
     (case ending_of x h a submitted now of
        None \<Rightarrow> s | Some e \<Rightarrow> fst (settle (ending_facts x e submitted now) s)) \<and>
   (snd (reconcile_and_settle x h a submitted now settle s) = Inr (Settled ended) \<longleftrightarrow>
     (\<exists>e. ending_of x h a submitted now = Some e \<and> ended = moved_to e \<and>
        is_ok (snd (settle (ending_facts x e submitted now) s))))"
proof (cases "ending_of x h a submitted now")
  case None
  then have "\<And>o'. reconcile x h a submitted now \<noteq> Inr (ReadyToSettle o')"
    by (simp add: reconcile_ending)
  then show ?thesis
    using None by (auto simp: reconcile_and_settle_def split: sum.split convergence.split)
next
  case (Some e)
  then have "reconcile x h a submitted now = Inr (ReadyToSettle (moved_to e))"
    by (simp add: reconcile_ending)
  moreover have "a = Found e" using Some by (rule ending_of_Found)
  ultimately show ?thesis
    using Some
    by (cases "settle (ending_facts x e submitted now) s"; cases "snd (settle (ending_facts x e submitted now) s)")
      (auto simp: reconcile_and_settle_def ending_facts_def)
qed

section \<open>Routes name exactly one identifier\<close>

text \<open>What a server reads back from a query member.\<close>

definition percent_digit :: "char \<Rightarrow> nat option" where
  "percent_digit c =
     (let n = of_char c :: nat in
      if 48 \<le> n \<and> n < 58 then Some (n - 48)
      else if 65 \<le> n \<and> n < 71 then Some (n - 55) else None)"

fun percent_decode :: "string \<Rightarrow> string option" where
  "percent_decode [] = Some []"
| "percent_decode (c # cs) =
     (if c = CHR ''%'' then
        (case cs of
           a # b # rest \<Rightarrow>
             (case (percent_digit a, percent_digit b) of
                (Some h, Some l) \<Rightarrow> map_option ((#) (char_of (16 * h + l))) (percent_decode rest)
              | _ \<Rightarrow> None)
         | _ \<Rightarrow> None)
      else map_option ((#) c) (percent_decode cs))"

lemma percent_digit_upper: "n < 16 \<Longrightarrow> percent_digit (upper_hex n) = Some n"
  by (simp add: percent_digit_def upper_hex_def Let_def of_char_of)

lemma upper_hex_unreserved: "n < 16 \<Longrightarrow> upper_hex n \<in> set UNRESERVED"
proof -
  have "\<forall>n \<in> set [0..<16]. upper_hex n \<in> set UNRESERVED" by code_simp
  then show "n < 16 \<Longrightarrow> upper_hex n \<in> set UNRESERVED" by simp
qed

lemma percent_decode_encoded: "percent_decode (encoded_once s) = Some s"
proof (induction s)
  case Nil
  then show ?case by (simp add: encoded_once_def)
next
  case (Cons c s)
  have "CHR ''%'' \<notin> set UNRESERVED" by code_simp
  moreover have "of_char c div 16 < (16::nat)"
    by (rule less_mult_imp_div_less) (use nat_of_char_less_256 [of c] in simp)
  ultimately show ?case
    using Cons by (auto simp: encoded_once_def percent_digit_upper)
qed

lemma encoded_once_letters: "set (encoded_once s) \<subseteq> insert (CHR ''%'') (set UNRESERVED)"
proof -
  have "of_char c div 16 < (16::nat)" for c :: char
    by (rule less_mult_imp_div_less) (use nat_of_char_less_256 [of c] in simp)
  then show ?thesis
    by (auto simp: encoded_once_def upper_hex_unreserved split: if_splits)
qed

lemma collect_routes_Inr:
  "collect_routes allowed ids = Inr rs \<longleftrightarrow>
     (\<forall>i \<in> set ids. as_u64_length (length i) \<le> allowed) \<and>
     rs = map (\<lambda>i. PHYSICAL_JOB_ROUTE @ ''?'' @ SLING_JOB_QUERY_MEMBER @ ''='' @ encoded_once i) ids"
  by (induction ids arbitrary: rs)
    (auto simp: bindE_eq_Inr require_within_def not_less split: if_splits)

lemma distinct_remdups_adj_sorted: "sorted xs \<Longrightarrow> distinct (remdups_adj xs)"
  by (induction xs rule: remdups_adj.induct) (auto simp: less_le)

lemma remdups_adj_sort: "remdups_adj (sort xs) = sorted_list_of_set (set xs)" for xs :: "'a::linorder list"
proof (rule sorted_distinct_set_unique)
  show "sorted (remdups_adj (sort xs))" by (simp add: sorted_remdups_adj)
  show "distinct (remdups_adj (sort xs))" by (simp add: distinct_remdups_adj_sorted)
qed (simp_all add: remdups_adj_set)

text \<open>The query of a rebuilt store asks once after each distinct persisted identifier, in their
  order, and is refused exactly when there are more of them than 32 or one is over 1024 bytes;
  every route is made of unreserved characters and percent triples only, so that no identifier
  can add a member to the query, and decoding a route gives back the identifier that was asked
  after, so that two identifiers never share a route.\<close>

lemma physical_routes_name_identifiers:
  "(physical_job_routes identifiers = Inr routes \<longleftrightarrow>
     card (set identifiers) \<le> 32 \<and> set identifiers \<subseteq> {j. length j \<le> 1024} \<and>
     routes = map (\<lambda>j. ''/bin/slingshot/agent/jobs?sling_job_identifier='' @ encoded_once j)
                (sorted_list_of_set (set identifiers))) \<and>
   set (encoded_once j) \<subseteq> insert (CHR ''%'') (set UNRESERVED) \<and>
   percent_decode (encoded_once j) = Some j"
proof -
  have n: "as_u64_length n \<le> 32 \<longleftrightarrow> n \<le> 32" "as_u64_length n \<le> 1024 \<longleftrightarrow> n \<le> 1024" for n
    using as_u64_length_le [of 32 n] as_u64_length_le [of 1024 n] by simp_all
  have "physical_job_routes identifiers = Inr routes \<longleftrightarrow>
      card (set identifiers) \<le> 32 \<and>
      collect_routes 1024 (sorted_list_of_set (set identifiers)) = Inr routes"
    by (simp add: physical_job_routes_def Let_def remdups_adj_sort contract_simps not_le n
        flip: not_le)
  then show ?thesis
    by (auto simp: collect_routes_Inr n percent_decode_encoded PHYSICAL_JOB_ROUTE_def
        SLING_JOB_QUERY_MEMBER_def dest!: subsetD [OF encoded_once_letters])
qed

section \<open>Events and answers together\<close>

text \<open>What a job holds after one answer: a refusal and a convergence that names no new observation
  leave it as it was.  This is no function of the sources but the composition of their operations
  that the statement about any interleaving is made over: it keeps the observation that \<open>reconcile\<close>
  hands back.\<close>

definition after_answer ::
  "snapshot_expectation \<Rightarrow> u64 \<Rightarrow> retained_job \<Rightarrow> lookup_answer \<times> u64 \<Rightarrow>
     reconciliation_refusal + retained_job" where
  "after_answer x submitted r an =
     (case reconcile x (observation r) (fst an) submitted (snd an) of
        Inl refusal \<Rightarrow> Inl refusal
      | Inr (Advanced moved) \<Rightarrow> Inr (r\<lparr>observation := moved\<rparr>)
      | Inr (ReadyToSettle moved) \<Rightarrow> Inr (r\<lparr>observation := moved\<rparr>)
      | Inr _ \<Rightarrow> Inr r)"

lemma forward_move_advances:
  "forward_move x h a = Some s \<Longrightarrow>
     observation_advances h (moved_to s) \<and> applied_sequence h \<le> applied_sequence (moved_to s) \<and>
     echo s = expected_echo x \<and> a = Found s"
  by (auto simp: forward_move_def moved_to_def split: lookup_answer.splits if_splits)

lemma after_answer_Inr:
  assumes "after_answer x submitted r an = Inr r'"
  shows "r' = r \<or> (\<exists>s. forward_move x (observation r) (fst an) = Some s \<and>
           r' = r\<lparr>observation := moved_to s\<rparr>)"
proof -
  from assms consider "r' = r"
    | o' where "reconcile x (observation r) (fst an) submitted (snd an) = Inr (Advanced o')"
        "r' = r\<lparr>observation := o'\<rparr>"
    | o' where "reconcile x (observation r) (fst an) submitted (snd an) = Inr (ReadyToSettle o')"
        "r' = r\<lparr>observation := o'\<rparr>"
    by (auto simp: after_answer_def split: sum.splits convergence.splits)
  then show ?thesis by cases (auto simp: reconcile_moves)
qed

datatype job_input = StreamEvent decoded_job_event | LookupAnswered lookup_answer u64

definition after_input ::
  "association_binding \<Rightarrow> u64 \<Rightarrow> string \<Rightarrow> snapshot_expectation \<Rightarrow> u64 \<Rightarrow> retained_job \<Rightarrow> job_input \<Rightarrow>
     (reducer_refusal + reconciliation_refusal) + retained_job" where
  "after_input binding generation operation' x submitted r i =
     (case i of
        StreamEvent event \<Rightarrow> map_sum Inl id (after_event binding generation operation' r event)
      | LookupAnswered answer now \<Rightarrow> map_sum Inr id (after_answer x submitted r (answer, now)))"

lemma map_sum_id_Inr: "map_sum f id z = Inr y \<longleftrightarrow> z = Inr y"
  by (cases z) simp_all

interpretation job_inputs: guarded_machine "after_input binding generation operation' x submitted"
  "\<lambda>_. True" retained_advances
  for binding generation operation' x submitted
proof
  fix r r' i
  assume i: "after_input binding generation operation' x submitted r i = Inr r'"
  show "retained_advances r r'"
  proof (cases i)
    case (StreamEvent event)
    then have "after_event binding generation operation' r event = Inr r'"
      using i by (simp add: after_input_def map_sum_id_Inr)
    then show ?thesis by (rule job_fold.step_upto [OF TrueI])
  next
    case (LookupAnswered answer now)
    then have "after_answer x submitted r (answer, now) = Inr r'"
      using i by (simp add: after_input_def map_sum_id_Inr)
    from after_answer_Inr [OF this] show ?thesis
      by (auto simp: retained_advances_def dest: forward_move_advances)
  qed
qed (auto intro: job_fold.upto_refl job_fold.upto_trans)

text \<open>C12: Events of the stream and answers to lookups never contradict each other into moving a job
  backwards: in any interleaving of them, stale, foreign and refused ones included, the job only
  advances, its applied sequence never falls, and an ending that was reached is never left.\<close>

theorem events_and_answers_only_advance:
  "retained_advances (history (after_input b g op x submitted) r is)
     (history (after_input b g op x submitted) r (is @ js)) \<and>
   (job_is_terminal (state (observation (history (after_input b g op x submitted) r is))) \<longrightarrow>
      state (observation (history (after_input b g op x submitted) r (is @ js))) =
      state (observation (history (after_input b g op x submitted) r is)))"
  using job_inputs.history_extends [OF TrueI] retained_advances_ending by blast

definition sample_expectation :: snapshot_expectation where
  "sample_expectation =
     \<lparr>exp_generation = 1, exp_operation = ''op'', exp_target = ''t'', exp_subscription = ''s'',
      exp_provenance = binding_provenance sample_binding, exp_revision = ''r'',
      exp_command_digest = ''d''\<rparr>"

definition sample_running :: job_snapshot where
  "sample_running =
     \<lparr>subscription_watermark = ''1'', terminal_failure = None, terminal_result = None,
      snap_attempt = 1, echo = expected_echo sample_expectation, snap_retention_milliseconds = 9,
      snap_kind = EventStarted, snap_jobs = [''j''], snap_progress = 0, snap_sequence = 5\<rparr>"

theorem events_and_answers_only_advance_witness:
  "state (observation (history (after_input sample_binding 1 ''op'' sample_expectation 0)
     \<lparr>observation = accepted\<lparr>state := JobSucceeded\<rparr>, snapshot_watermark = 0\<rparr>
     [LookupAnswered (Found sample_running) 3, StreamEvent sample_restart])) = JobSucceeded"
  using events_and_answers_only_advance [of sample_binding 1 "''op''" sample_expectation 0
      "\<lparr>observation = accepted\<lparr>state := JobSucceeded\<rparr>, snapshot_watermark = 0\<rparr>" "[]"
      "[LookupAnswered (Found sample_running) 3, StreamEvent sample_restart]"]
  by simp

end
