(* ===== verification/Stream_Recovery.thy ===== *)
theory Stream_Recovery
  imports Job_Reconciliation
begin

text \<open>
  Getting a lost stream back: \<open>slingshot-agent-connection/src/event_stream_reconnection.rs\<close> with the two
  closed answers that recovery reads, \<open>event_stream_reset.rs\<close> and \<open>physical_job_missing.rs\<close>.  A position
  is the list of its octets; the JSON parser, the HTTP library's check of a header value and the digest
  of the installed contract are parameters.

  The theorems give the exact delays, what the ledger holds after any history, that a degraded
  subscription stays so until a reset has completed, and which evidence of a reset is believed.
\<close>

section \<open>The schedule\<close>

definition EVENT_ROUTE :: string where "EVENT_ROUTE = ''/bin/slingshot/agent/events''"
definition SUBSCRIPTION_QUERY_MEMBER :: string where
  "SUBSCRIPTION_QUERY_MEMBER = ''daemon_subscription_identifier''"
definition GENERATION_QUERY_MEMBER :: string where
  "GENERATION_QUERY_MEMBER = ''agent_event_store_generation''"
definition RECONNECT_CATEGORY :: string where "RECONNECT_CATEGORY = ''event-reconnect''"
definition DELAY_MULTIPLIER :: u64 where "DELAY_MULTIPLIER = 2"
definition MAXIMUM_EXPONENT :: nat where "MAXIMUM_EXPONENT = 32"
definition FIRST_ATTEMPT :: u64 where "FIRST_ATTEMPT = 1"

definition initial_delay_milliseconds :: u64 where
  "initial_delay_milliseconds = embedded_limit ''retry_base_milliseconds''"

definition maximum_delay_milliseconds :: u64 where
  "maximum_delay_milliseconds = embedded_limit ''retry_jitter_cap_milliseconds''"

definition maximum_reconnect_attempts :: u64 where
  "maximum_reconnect_attempts = embedded_limit ''maximum_automatic_retry_attempts''"

datatype reconnect_cause =
    CleanClose | HeartbeatTimeout | ProtocolLoss | RetryableStatus u16 | TransportFailure

record reconnection_schedule =
  schedule_attempt :: u64
  schedule_category :: string
  chosen_delay_milliseconds :: u64
  schedule_cause :: reconnect_cause
  eligible_at_unix_milliseconds :: u64
  schedule_ceiling_milliseconds :: u64

text \<open>\<open>u64::saturating_mul\<close> and \<open>u64::saturating_pow\<close>.\<close>

definition saturating_mul :: "u64 \<Rightarrow> u64 \<Rightarrow> u64" where
  "saturating_mul a b = (case checked_mul a b of Some c \<Rightarrow> c | None \<Rightarrow> - 1)"

definition saturating_pow :: "u64 \<Rightarrow> nat \<Rightarrow> u64" where
  "saturating_pow b n = (if unat b ^ n < 2 ^ 64 then of_nat (unat b ^ n) else - 1)"

definition jitter_ceiling_milliseconds :: "u64 \<Rightarrow> u64" where
  "jitter_ceiling_milliseconds n =
     (let since = unat (saturating_sub n FIRST_ATTEMPT);
          exponent = (if since < 2 ^ 32 then since else MAXIMUM_EXPONENT)
      in min (saturating_mul initial_delay_milliseconds
                (saturating_pow DELAY_MULTIPLIER (min exponent MAXIMUM_EXPONENT)))
           maximum_delay_milliseconds)"

definition schedule_for :: "u64 \<Rightarrow> reconnect_cause \<Rightarrow> u64 \<Rightarrow> u64 \<Rightarrow> reconnection_schedule" where
  "schedule_for n cause sample now =
     (let ceiling' = jitter_ceiling_milliseconds n; chosen = sample mod (ceiling' + 1) in
      \<lparr>schedule_attempt = n, schedule_category = RECONNECT_CATEGORY,
       chosen_delay_milliseconds = chosen, schedule_cause = cause,
       eligible_at_unix_milliseconds = saturating_add now chosen,
       schedule_ceiling_milliseconds = ceiling'\<rparr>)"

definition bounded_retry_after_milliseconds :: "u64 \<Rightarrow> u64" where
  "bounded_retry_after_milliseconds requested = retry_delay_milliseconds (Some requested)"

definition resumed_delay_milliseconds :: "reconnection_schedule \<Rightarrow> u64 \<Rightarrow> u64" where
  "resumed_delay_milliseconds schedule now =
     min (saturating_sub (eligible_at_unix_milliseconds schedule) now)
       (chosen_delay_milliseconds schedule)"

section \<open>The subscription\<close>

datatype stream_health = Healthy | Degraded

datatype commit_outcome = CommitAdvanced | CommitUnchanged | CommitConflicted

datatype reset_reason = CursorExpired | GenerationChanged | EqualCursorDigestConflict

datatype recovery_route = HighWaterSnapshotReset

definition reset_route :: "reset_reason \<Rightarrow> recovery_route" where
  "reset_route reason =
     (case reason of
        CursorExpired \<Rightarrow> HighWaterSnapshotReset
      | GenerationChanged \<Rightarrow> HighWaterSnapshotReset
      | EqualCursorDigestConflict \<Rightarrow> HighWaterSnapshotReset)"

datatype reconnection_refusal =
    ReconnectionHead response_refusal
  | UndeclaredTrailer
  | ServerRouteOffered str
  | RouteQueryTooLong u64 nat
  | ReconnectionsExhausted u64
  | ResetRequired
  | ResetContextMoved

definition undeclared_trailer :: reconnection_refusal where
  "undeclared_trailer = UndeclaredTrailer"

record subscription_ledger =
  committed_cursor :: "string option"
  committed_digest :: "string option"
  ledger_generation :: u64

definition ledger_empty :: "u64 \<Rightarrow> subscription_ledger" where
  "ledger_empty generation =
     \<lparr>committed_cursor = None, committed_digest = None, ledger_generation = generation\<rparr>"

definition last_event_identifier :: "subscription_ledger \<Rightarrow> string option" where
  "last_event_identifier self = committed_cursor self"

definition ledger_commit ::
  "subscription_ledger \<Rightarrow> string \<Rightarrow> string \<Rightarrow> commit_outcome \<times> subscription_ledger" where
  "ledger_commit self cursor digest =
     (if committed_cursor self = Some cursor
      then (if committed_digest self = Some digest then (CommitUnchanged, self)
            else (CommitConflicted, self))
      else (CommitAdvanced,
            self\<lparr>committed_cursor := Some cursor, committed_digest := Some digest\<rparr>))"

definition ledger_reset :: "subscription_ledger \<Rightarrow> u64 \<Rightarrow> subscription_ledger" where
  "ledger_reset self generation =
     self\<lparr>committed_cursor := None, committed_digest := None, ledger_generation := generation\<rparr>"

record event_stream_reconnection =
  reconnect_attempt :: u64
  health :: stream_health
  ledger :: subscription_ledger
  outstanding_reset :: "reset_reason option"
  reconnect_subscription :: string

definition reconnection_opening :: "string \<Rightarrow> u64 \<Rightarrow> event_stream_reconnection" where
  "reconnection_opening subscription generation =
     \<lparr>reconnect_attempt = FIRST_ATTEMPT, health = Healthy, ledger = ledger_empty generation,
      outstanding_reset = None, reconnect_subscription = subscription\<rparr>"

definition event_query :: "event_stream_reconnection \<Rightarrow> string" where
  "event_query self =
     GENERATION_QUERY_MEMBER @ ''='' @ to_string (ledger_generation (ledger self)) @ ''&'' @
     SUBSCRIPTION_QUERY_MEMBER @ ''='' @ reconnect_subscription self"

definition reconnection_route :: "event_stream_reconnection \<Rightarrow> reconnection_refusal + string" where
  "reconnection_route self =
     (if outstanding_reset self \<noteq> None then Inl ResetRequired
      else
       let query = event_query self; allowed = embedded_limit ''maximum_route_query_bytes'' in
       if as_u64_length (length query) > allowed
       then Inl (RouteQueryTooLong allowed (length query))
       else Inr (EVENT_ROUTE @ ''?'' @ query))"

definition connected ::
  "event_stream_reconnection \<Rightarrow> response_head \<Rightarrow> reconnection_refusal + event_stream_reconnection" where
  "connected self head' =
     (if outstanding_reset self \<noteq> None then Inl ResetRequired
      else (case location head' of
         Some offered \<Rightarrow> Inl (ServerRouteOffered offered)
       | None \<Rightarrow>
           (case require_acceptable head' of
              Inl refusal \<Rightarrow> Inl (ReconnectionHead refusal)
            | Inr _ \<Rightarrow> Inr (self\<lparr>reconnect_attempt := FIRST_ATTEMPT\<rparr>))))"

definition schedule_next ::
  "event_stream_reconnection \<Rightarrow> reconnect_cause \<Rightarrow> u64 \<Rightarrow> u64 \<Rightarrow>
     reconnection_refusal + (reconnection_schedule \<times> event_stream_reconnection)" where
  "schedule_next self cause sample now =
     (let allowed = maximum_reconnect_attempts in
      if reconnect_attempt self > allowed then Inl (ReconnectionsExhausted allowed)
      else Inr (schedule_for (reconnect_attempt self) cause sample now,
                self\<lparr>reconnect_attempt := reconnect_attempt self + 1\<rparr>))"

definition commit_cursor ::
  "event_stream_reconnection \<Rightarrow> string \<Rightarrow> string \<Rightarrow> commit_outcome \<times> event_stream_reconnection" where
  "commit_cursor self cursor digest =
     (case ledger_commit (ledger self) cursor digest of
        (outcome, ledger') \<Rightarrow>
          (outcome,
           if outcome = CommitConflicted
           then self\<lparr>ledger := ledger', health := Degraded,
                  outstanding_reset := Some EqualCursorDigestConflict\<rparr>
           else self\<lparr>ledger := ledger'\<rparr>))"

definition require_reset ::
  "event_stream_reconnection \<Rightarrow> reset_reason \<Rightarrow> recovery_route \<times> event_stream_reconnection" where
  "require_reset self reason =
     (reset_route reason, self\<lparr>health := Degraded, outstanding_reset := Some reason\<rparr>)"

definition reset_completed :: "event_stream_reconnection \<Rightarrow> u64 \<Rightarrow> event_stream_reconnection" where
  "reset_completed self generation =
     self\<lparr>reconnect_attempt := FIRST_ATTEMPT, health := Healthy,
       ledger := ledger_reset (ledger self) generation, outstanding_reset := None\<rparr>"

section \<open>Evidence that a reset is needed\<close>

text \<open>\<open>str::split\<close> with a character, and the media type every closed answer has.\<close>

fun split_all :: "'a \<Rightarrow> 'a list \<Rightarrow> 'a list list" where
  "split_all c [] = [[]]"
| "split_all c (x # xs) =
     (if x = c then [] # split_all c xs
      else (case split_all c xs of piece # pieces \<Rightarrow> (x # piece) # pieces | [] \<Rightarrow> [[x]]))"

definition same_ignoring_case :: "str \<Rightarrow> string \<Rightarrow> bool" where
  "same_ignoring_case a b \<longleftrightarrow> to_ascii_lowercase a = to_ascii_lowercase (text_of b)"

definition json_media_type :: "str \<Rightarrow> bool" where
  "json_media_type spelled =
     (case split_all (of_char CHR '';'') spelled of
        [] \<Rightarrow> False
      | kind # parameters \<Rightarrow>
          same_ignoring_case (trim kind) ''application/json'' \<and>
          (case parameters of
             [] \<Rightarrow> True
           | [parameter] \<Rightarrow>
               (case split_once (of_char CHR ''='') (trim parameter) of
                  None \<Rightarrow> False
                | Some (name, named) \<Rightarrow>
                    same_ignoring_case (trim name) ''charset'' \<and>
                    (same_ignoring_case (trim named) ''utf-8'' \<or>
                     same_ignoring_case (trim named) [CHR 0x22, CHR ''u'', CHR ''t'', CHR ''f'', CHR ''-'',
                       CHR ''8'', CHR 0x22]))
           | _ \<Rightarrow> False))"

record finite_response =
  response_status :: u16
  response_body :: "byte list"
  response_head' :: response_head
  response_content_type :: "str option"
  response_retry_after :: "str option"

datatype reset_query = EventsRoute | HighWaterRoute

record reset_request =
  request_route :: reset_query
  request_subscription :: string
  request_generation :: u64
  request_cursor :: "string option"

datatype announced_reason = AnnouncedGenerationChanged | AnnouncedCursorExpired

record reset_document =
  rd_format :: string
  rd_transport_contract_digest :: string
  rd_subscription :: string
  rd_requested_generation :: u64
  rd_requested_last_event_identifier :: "string option"
  rd_generation :: u64
  rd_high_water_cursor :: string
  rd_reason :: announced_reason

record validated_event_reset =
  reset_subscription :: string
  reset_requested_generation :: u64
  reset_requested_cursor :: "string option"
  reset_generation :: u64
  reset_cursor :: string
  reset_announced :: announced_reason

definition validated_reason :: "validated_event_reset \<Rightarrow> reset_reason" where
  "validated_reason self =
     (case reset_announced self of
        AnnouncedGenerationChanged \<Rightarrow> GenerationChanged
      | AnnouncedCursorExpired \<Rightarrow> CursorExpired)"

definition decode_event_reset ::
  "(byte list \<Rightarrow> reset_document option) \<Rightarrow> (string \<Rightarrow> bool) \<Rightarrow> string \<Rightarrow> finite_response \<Rightarrow>
     reset_request \<Rightarrow> unit + validated_event_reset" where
  "decode_event_reset parse header_value_ok embedded_digest response request =
     (if request_subscription request = [] \<or>
         (of_nat (length (request_subscription request)) :: u64) >
           embedded_limit ''maximum_daemon_subscription_identifier_bytes'' \<or>
         request_generation request = 0 \<or>
         request_route request = HighWaterRoute \<and> request_cursor request \<noteq> None \<or>
         (of_nat (length (response_body response)) :: u64) >
           embedded_limit ''maximum_agent_protocol_document_bytes'' \<or>
         \<not> (response_status response = 409 \<or> response_status response = 410) \<or>
         location (response_head' response) \<noteq> None \<or>
         \<not> json_media_type (case response_content_type response of Some t \<Rightarrow> t | None \<Rightarrow> [])
      then Inl ()
      else
       bindE (case request_cursor request of
                Some cursor \<Rightarrow> require_cursor header_value_ok cursor | None \<Rightarrow> Inr ()) (\<lambda>_.
       case require_acceptable (response_head' response) of
         Inl _ \<Rightarrow> Inl ()
       | Inr _ \<Rightarrow>
        (case parse (response_body response) of
           None \<Rightarrow> Inl ()
         | Some document \<Rightarrow>
            if rd_format document \<noteq> AGENT_FORMAT \<or>
               rd_transport_contract_digest document \<noteq> embedded_digest \<or>
               rd_subscription document \<noteq> request_subscription request \<or>
               rd_requested_generation document \<noteq> request_generation request \<or>
               rd_requested_last_event_identifier document \<noteq> request_cursor request \<or>
               rd_generation document = 0
            then Inl ()
            else
             bindE (require_cursor header_value_ok (rd_high_water_cursor document)) (\<lambda>_.
              if response_status response = 409 \<and> rd_reason document = AnnouncedGenerationChanged \<and>
                   rd_generation document \<noteq> request_generation request \<or>
                 response_status response = 410 \<and> rd_reason document = AnnouncedCursorExpired \<and>
                   request_route request = EventsRoute \<and> request_cursor request \<noteq> None \<and>
                   rd_generation document = request_generation request
              then (case stream_cursor_new (rd_high_water_cursor document)
                           (bound_identifier_bytes decoder_bounds_embedded) of
                      Inl _ \<Rightarrow> Inl ()
                    | Inr cursor \<Rightarrow>
                        Inr \<lparr>reset_subscription = rd_subscription document,
                          reset_requested_generation = request_generation request,
                          reset_requested_cursor = rd_requested_last_event_identifier document,
                          reset_generation = rd_generation document, reset_cursor = cursor,
                          reset_announced = rd_reason document\<rparr>)
              else Inl ()))))"

definition require_validated_reset ::
  "event_stream_reconnection \<Rightarrow> validated_event_reset \<Rightarrow>
     reconnection_refusal + (recovery_route \<times> event_stream_reconnection)" where
  "require_validated_reset self reset =
     (if reconnect_subscription self \<noteq> reset_subscription reset \<or>
         ledger_generation (ledger self) \<noteq> reset_requested_generation reset \<or>
         last_event_identifier (ledger self) \<noteq> reset_requested_cursor reset \<or>
         outstanding_reset self \<noteq> None
      then Inl ResetContextMoved
      else Inr (require_reset self (validated_reason reset)))"

section \<open>Evidence that one physical job is gone\<close>

record missing_document =
  md_format :: string
  md_transport_contract_digest :: string
  md_kind :: string
  md_generation :: u64
  md_sling_job :: string

record validated_physical_job_missing =
  missing_generation :: u64
  missing_identifier :: string

definition decode_physical_job_missing ::
  "(byte list \<Rightarrow> missing_document option) \<Rightarrow> string \<Rightarrow> finite_response \<Rightarrow> string \<Rightarrow> u64 \<Rightarrow>
     unit + validated_physical_job_missing" where
  "decode_physical_job_missing parse embedded_digest response sling_job generation_now =
     (case agent_job_identifier_new sling_job of
        Inl _ \<Rightarrow> Inl ()
      | Inr _ \<Rightarrow>
         if generation_now = 0 \<or> response_status response \<noteq> 404 \<or>
            location (response_head' response) \<noteq> None \<or>
            (of_nat (length (response_body response)) :: u64) >
              embedded_limit ''maximum_agent_protocol_document_bytes'' \<or>
            \<not> json_media_type (case response_content_type response of Some t \<Rightarrow> t | None \<Rightarrow> [])
         then Inl ()
         else (case require_acceptable (response_head' response) of
            Inl _ \<Rightarrow> Inl ()
          | Inr _ \<Rightarrow>
             (case parse (response_body response) of
                None \<Rightarrow> Inl ()
              | Some wire \<Rightarrow>
                  if md_format wire \<noteq> AGENT_FORMAT \<or> md_kind wire \<noteq> ''missing'' \<or>
                     md_transport_contract_digest wire \<noteq> embedded_digest \<or>
                     md_generation wire \<noteq> generation_now \<or> md_sling_job wire \<noteq> sling_job
                  then Inl ()
                  else Inr \<lparr>missing_generation = generation_now,
                         missing_identifier = md_sling_job wire\<rparr>)))"

section \<open>Delays\<close>

lemma recovery_limits [contract_simps]:
  "limit embedded_contract ''retry_base_milliseconds'' = Some 250"
  "limit embedded_contract ''retry_jitter_cap_milliseconds'' = Some 30000"
  "limit embedded_contract ''maximum_automatic_retry_attempts'' = Some 8"
  "limit embedded_contract ''maximum_route_query_bytes'' = Some 8192"
  "limit embedded_contract ''maximum_daemon_subscription_identifier_bytes'' = Some 96"
  by code_simp+

lemma contract_delays [simp]:
  "initial_delay_milliseconds = 250" "maximum_delay_milliseconds = 30000" "maximum_reconnect_attempts = 8"
  by (simp_all add: initial_delay_milliseconds_def maximum_delay_milliseconds_def maximum_reconnect_attempts_def
      embedded_limit_def contract_simps)

lemma unat_min: "unat (min a b) = min (unat a) (unat b)" for a b :: u64
  by (simp add: min_def word_le_nat_alt)

lemma delay_power:
  assumes "e \<le> 32"
  shows "unat (saturating_mul 250 (saturating_pow 2 e)) = 250 * 2 ^ e"
proof -
  have "(2::nat) ^ e \<le> 2 ^ 32" using assms by (intro power_increasing) simp_all
  then have p: "(2::nat) ^ e \<le> 4294967296" by simp
  then have q: "unat (saturating_pow 2 e) = 2 ^ e"
    by (simp add: saturating_pow_def unat_of_nat del: of_nat_power)
  show ?thesis
    using p by (simp add: saturating_mul_def checked_mul_def q unat_word_ariths)
qed

lemma unat_jitter_ceiling:
  "unat (jitter_ceiling_milliseconds n) = min (250 * 2 ^ (unat n - 1)) 30000"
proof -
  have e: "min (if m < 2 ^ 32 then m else 32) 32 = min m 32" for m :: nat by simp
  have "unat (jitter_ceiling_milliseconds n) = min (250 * 2 ^ min (unat n - 1) 32) 30000"
    by (simp add: jitter_ceiling_milliseconds_def Let_def MAXIMUM_EXPONENT_def DELAY_MULTIPLIER_def
        FIRST_ATTEMPT_def e unat_min delay_power)
  moreover have "min (250 * 2 ^ min m 32) 30000 = min (250 * 2 ^ m) (30000::nat)" for m
  proof (cases "m \<le> 32")
    case False
    then have "(2::nat) ^ 32 \<le> 2 ^ m" by (intro power_increasing) simp_all
    with False show ?thesis by (simp add: min_def)
  qed (simp add: min_def)
  ultimately show ?thesis by simp
qed

text \<open>C35: The delay before a reconnection is exact and bounded by a decision already made.  The ceiling of
  an attempt is the base delay doubled with every attempt before it, up to the cap, with no
  overflow on the way; the delay is the sample reduced to that ceiling; and what a restart waits
  is the rest of the chosen wait by the wall clock, due at once after a clock that jumped ahead and
  never longer than was chosen after one that jumped back.\<close>

theorem reconnection_delay_exact:
  "unat (jitter_ceiling_milliseconds n) = min (250 * 2 ^ (unat n - 1)) 30000 \<and>
   unat (chosen_delay_milliseconds (schedule_for n cause sample now)) =
     unat sample mod (min (250 * 2 ^ (unat n - 1)) 30000 + 1) \<and>
   unat (resumed_delay_milliseconds (schedule_for n cause sample now) later) =
     min (min (unat now + unat (chosen_delay_milliseconds (schedule_for n cause sample now)))
            (2 ^ 64 - 1) - unat later)
       (unat (chosen_delay_milliseconds (schedule_for n cause sample now)))"
proof -
  have "unat (jitter_ceiling_milliseconds n) \<le> 30000" by (simp add: unat_jitter_ceiling)
  then have "unat (jitter_ceiling_milliseconds n + 1) = unat (jitter_ceiling_milliseconds n) + 1"
    by (simp add: unat_word_ariths)
  then show ?thesis
    by (simp add: unat_jitter_ceiling schedule_for_def resumed_delay_milliseconds_def Let_def unat_min
        unat_mod unat_saturating_add)
qed

section \<open>Histories of a subscription\<close>

datatype recovery_input =
    Committed string string
  | ResetNeeded reset_reason
  | ResetAnnounced validated_event_reset
  | ResetFinished u64
  | Established response_head
  | Retried reconnect_cause u64 u64

definition after_recovery ::
  "event_stream_reconnection \<Rightarrow> recovery_input \<Rightarrow> reconnection_refusal + event_stream_reconnection" where
  "after_recovery r i =
     (case i of
        Committed cursor digest \<Rightarrow> Inr (snd (commit_cursor r cursor digest))
      | ResetNeeded reason \<Rightarrow> Inr (snd (require_reset r reason))
      | ResetAnnounced reset \<Rightarrow> map_sum id snd (require_validated_reset r reset)
      | ResetFinished generation \<Rightarrow> Inr (reset_completed r generation)
      | Established head' \<Rightarrow> connected r head'
      | Retried cause sample now \<Rightarrow> map_sum id snd (schedule_next r cause sample now))"

abbreviation recovered :: "event_stream_reconnection \<Rightarrow> recovery_input list \<Rightarrow> event_stream_reconnection"
  where "recovered \<equiv> history after_recovery"

text \<open>A subscription is degraded exactly while a reset is outstanding, and counts no more attempts than
  it may make.\<close>

definition well_kept :: "event_stream_reconnection \<Rightarrow> bool" where
  "well_kept r \<longleftrightarrow> (health r = Degraded \<longleftrightarrow> outstanding_reset r \<noteq> None) \<and>
     1 \<le> reconnect_attempt r \<and> reconnect_attempt r \<le> maximum_reconnect_attempts + 1"

lemma commit_cursor_fields [simp]:
  "reconnect_attempt (snd (commit_cursor r c d)) = reconnect_attempt r"
  "reconnect_subscription (snd (commit_cursor r c d)) = reconnect_subscription r"
  "ledger (snd (commit_cursor r c d)) = snd (ledger_commit (ledger r) c d)"
  "health (snd (commit_cursor r c d)) =
     (if fst (ledger_commit (ledger r) c d) = CommitConflicted then Degraded else health r)"
  "outstanding_reset (snd (commit_cursor r c d)) =
     (if fst (ledger_commit (ledger r) c d) = CommitConflicted then Some EqualCursorDigestConflict
      else outstanding_reset r)"
  by (simp_all add: commit_cursor_def split: prod.split)

interpretation recovery_machine: guarded_machine after_recovery well_kept
  "\<lambda>r r'. reconnect_subscription r' = reconnect_subscription r"
proof
  fix r i r'
  assume w: "well_kept r" and s: "after_recovery r i = Inr r'"
  have "a \<le> 8 \<Longrightarrow> 1 \<le> a \<Longrightarrow> 1 \<le> a + 1 \<and> a + 1 \<le> 9" for a :: u64
    by (simp add: word_le_nat_alt unat_word_ariths)
  with w s show "well_kept r'"
    by (cases i) (auto simp: after_recovery_def well_kept_def require_reset_def reset_completed_def
        connected_def require_validated_reset_def schedule_next_def FIRST_ATTEMPT_def not_less
        split: if_splits option.splits sum.splits)
  show "reconnect_subscription r' = reconnect_subscription r"
    using s by (cases i) (auto simp: after_recovery_def require_reset_def reset_completed_def
        connected_def require_validated_reset_def schedule_next_def
        split: if_splits option.splits sum.splits)
qed simp_all

lemma well_kept_opening: "well_kept (reconnection_opening s g)"
  by (simp add: well_kept_def reconnection_opening_def FIRST_ATTEMPT_def)

lemma well_kept_history: "well_kept (recovered (reconnection_opening s g) is)"
  using recovery_machine.history_inv [OF well_kept_opening] .

section \<open>What the ledger holds\<close>

text \<open>The positions committed since the last completed reset, newest first, and the generation it
  was completed for.\<close>

fun commits_since :: "recovery_input list \<Rightarrow> (string \<times> string) list" where
  "commits_since [] = []"
| "commits_since (ResetFinished _ # newest_first) = []"
| "commits_since (Committed c d # newest_first) = (c, d) # commits_since newest_first"
| "commits_since (_ # newest_first) = commits_since newest_first"

fun generation_since :: "u64 \<Rightarrow> recovery_input list \<Rightarrow> u64" where
  "generation_since g [] = g"
| "generation_since g (ResetFinished g' # newest_first) = g'"
| "generation_since g (_ # newest_first) = generation_since g newest_first"

text \<open>The last position, with the contents it was first committed with since another position, and
  the ledger that holds it.\<close>

fun account_of_last_run :: "(string \<times> string) list \<Rightarrow> (string \<times> string) option" where
  "account_of_last_run [] = None"
| "account_of_last_run ((c, d) # older) =
     Some (c, snd (last ((c, d) # takeWhile (\<lambda>(c', d'). c' = c) older)))"

definition last_run_ledger :: "u64 \<Rightarrow> recovery_input list \<Rightarrow> subscription_ledger" where
  "last_run_ledger g is =
     (let held_account = account_of_last_run (commits_since (rev is)) in
      \<lparr>committed_cursor = map_option fst held_account, committed_digest = map_option snd held_account,
       ledger_generation = generation_since g (rev is)\<rparr>)"

text \<open>A stream that does not go back: since the last completed reset, a position that was left for
  another was not committed again.\<close>

definition never_returns :: "recovery_input list \<Rightarrow> bool" where
  "never_returns is \<longleftrightarrow> distinct (remdups_adj (map fst (commits_since (rev is))))"

text \<open>What such a stream promises: the last position committed, with the contents of the first of all
  the commits of that position.\<close>

definition ledger_spec :: "u64 \<Rightarrow> recovery_input list \<Rightarrow> subscription_ledger" where
  "ledger_spec g is =
     (let oldest_first = rev (commits_since (rev is));
          position = if oldest_first = [] then None else Some (fst (last oldest_first)) in
      \<lparr>committed_cursor = position, committed_digest = Option.bind position (map_of oldest_first),
       ledger_generation = generation_since g (rev is)\<rparr>)"

lemma last_run_again:
  "account_of_last_run cs = Some (c, d') \<Longrightarrow> account_of_last_run ((c, d) # cs) = Some (c, d')"
  by (cases cs) (auto split: if_splits)

lemma last_run_new:
  "map_option fst (account_of_last_run cs) \<noteq> Some c \<Longrightarrow>
     account_of_last_run ((c, d) # cs) = Some (c, d)"
  by (cases cs) (auto split: if_splits)

lemma offered_ledger:
  "ledger (offerE after_recovery r i) =
     (case i of
        Committed c d \<Rightarrow> snd (ledger_commit (ledger r) c d)
      | ResetFinished g \<Rightarrow> ledger_reset (ledger r) g
      | _ \<Rightarrow> ledger r)"
  by (cases i) (auto simp: offerE_def after_recovery_def require_reset_def reset_completed_def
      connected_def require_validated_reset_def schedule_next_def
      split: if_splits option.splits sum.splits)

lemma last_run_ledger_snoc:
  "last_run_ledger g (is @ [i]) =
     (case i of
        Committed c d \<Rightarrow> snd (ledger_commit (last_run_ledger g is) c d)
      | ResetFinished g' \<Rightarrow> ledger_reset (last_run_ledger g is) g'
      | _ \<Rightarrow> last_run_ledger g is)"
proof (cases i)
  case (Committed c d)
  show ?thesis
  proof (cases "account_of_last_run (commits_since (rev is))")
    case None
    then show ?thesis
      using Committed last_run_new [of "commits_since (rev is)" c d]
      by (simp add: last_run_ledger_def ledger_commit_def Let_def)
  next
    case (Some a)
    then show ?thesis
      using Committed last_run_new [of "commits_since (rev is)" c d]
        last_run_again [of "commits_since (rev is)" c "snd a" d]
      by (cases a; cases "fst a = c") (auto simp: last_run_ledger_def ledger_commit_def Let_def)
  qed
qed (simp_all add: last_run_ledger_def ledger_reset_def Let_def)

lemma ledger_holds_last_run:
  "ledger (recovered (reconnection_opening subscription generation) is) = last_run_ledger generation is"
proof (induction "is" rule: rev_induct)
  case Nil
  show ?case by (simp add: reconnection_opening_def ledger_empty_def last_run_ledger_def)
next
  case (snoc i "is")
  then show ?case by (simp add: offered_ledger last_run_ledger_snoc split: recovery_input.split)
qed

lemma left_for_good: "distinct (remdups_adj (c # cs)) \<Longrightarrow> c \<notin> set (dropWhile (\<lambda>c'. c' = c) cs)"
  by (induction cs) (auto split: if_splits)

lemma map_of_run: "set ps \<subseteq> {p. fst p = c} \<Longrightarrow> ps \<noteq> [] \<Longrightarrow> map_of ps c = Some (snd (hd ps))"
  by (cases ps) auto

lemma account_of_last_run_first:
  assumes "distinct (remdups_adj (map fst ((c, d) # older)))"
  shows "map_of (rev ((c, d) # older)) c = Some (snd (last ((c, d) # takeWhile (\<lambda>(c', d'). c' = c) older)))"
proof -
  let ?here = "\<lambda>(c', d'). c' = c"
  let ?run = "(c, d) # takeWhile ?here older"
  have "c \<notin> set (dropWhile (\<lambda>c'. c' = c) (map fst older))"
    using left_for_good [of c "map fst older"] assms by simp
  then have "map_of (rev (dropWhile ?here older)) c = None"
    by (simp add: dropWhile_map map_of_eq_None_iff comp_def case_prod_beta')
  moreover have "map_of (rev ?run) c = Some (snd (hd (rev ?run)))"
    by (rule map_of_run) (auto dest: set_takeWhileD)
  moreover have "rev ((c, d) # older) = rev (dropWhile ?here older) @ rev ?run"
    by (metis append_Cons rev_append takeWhile_dropWhile_id)
  ultimately show ?thesis by (simp add: hd_rev map_add_def)
qed

lemma last_run_is_first_commit:
  assumes "never_returns is"
  shows "last_run_ledger g is = ledger_spec g is"
proof (cases "commits_since (rev is)")
  case Nil
  then show ?thesis by (simp add: last_run_ledger_def ledger_spec_def)
next
  case (Cons p older)
  obtain c d where p: "p = (c, d)" by fastforce
  have "map_of (rev ((c, d) # older)) c =
      Some (snd (last ((c, d) # takeWhile (\<lambda>(c', d'). c' = c) older)))"
    using assms Cons p by (intro account_of_last_run_first) (simp add: never_returns_def)
  then show ?thesis
    unfolding last_run_ledger_def ledger_spec_def Cons p account_of_last_run.simps Let_def by simp
qed

text \<open>C13: A reconnection resumes from what was committed and from nothing else.  After any history of
  commits, retries, connections, announced and completed resets in which the stream did not go back to
  a position it had left, the ledger holds the last position committed since the last completed reset,
  with the contents that position was first committed with, under the generation of that reset; no
  lost connection, refused answer or announced reset moves it.\<close>

theorem ledger_resumes_from_commits:
  assumes "never_returns is"
  shows "ledger (recovered (reconnection_opening subscription generation) is) = ledger_spec generation is"
  using last_run_is_first_commit [OF assms] ledger_holds_last_run by simp

theorem ledger_resumes_from_commits_witness:
  "ledger (recovered (reconnection_opening ''s'' 1)
     [Committed ''a'' ''x'', ResetFinished 2, Committed ''b'' ''y'', Committed ''c'' ''u'',
      Committed ''c'' ''v'']) =
   \<lparr>committed_cursor = Some ''c'', committed_digest = Some ''u'', ledger_generation = 2\<rparr>"
  by (subst ledger_resumes_from_commits) (simp_all add: never_returns_def ledger_spec_def)

text \<open>The ledger compares a position with the last one only: a replayed earlier position is reported as
  an advance and moves it back.\<close>

lemma earlier_position_is_an_advance:
  assumes "later \<noteq> earlier"
  shows "ledger_commit (snd (ledger_commit (snd (ledger_commit self earlier d)) later e)) earlier d =
    (CommitAdvanced, self\<lparr>committed_cursor := Some earlier, committed_digest := Some d\<rparr>)"
  using assms by (auto simp: ledger_commit_def)

section \<open>A degraded subscription\<close>

lemma outstanding_stays:
  "outstanding_reset r \<noteq> None \<Longrightarrow> i \<notin> range ResetFinished \<Longrightarrow>
     outstanding_reset (offerE after_recovery r i) \<noteq> None"
  by (cases i) (auto simp: offerE_def after_recovery_def require_reset_def reset_completed_def
      connected_def require_validated_reset_def schedule_next_def
      split: if_splits option.splits sum.splits)

lemma outstanding_until_reset:
  "outstanding_reset r \<noteq> None \<Longrightarrow> set js \<inter> range ResetFinished = {} \<Longrightarrow>
     outstanding_reset (recovered r js) \<noteq> None"
proof (induction js arbitrary: r)
  case (Cons j js)
  then have "outstanding_reset (offerE after_recovery r j) \<noteq> None"
    by (intro outstanding_stays) auto
  then show ?case using Cons by auto
qed simp

text \<open>C14: Two accounts of one position stop a subscription.  When the position the ledger holds arrives
  with other contents, the ledger keeps what it had, and whatever follows - retries, connections,
  further commits, other resets announced - every route and every connection is refused until a
  reset has completed; the subscription shows itself degraded for all that time.\<close>

theorem conflict_stops_until_reset:
  assumes "committed_cursor (ledger (recovered (reconnection_opening s g) is)) = Some c"
    and "committed_digest (ledger (recovered (reconnection_opening s g) is)) \<noteq> Some d"
    and "set js \<inter> range ResetFinished = {}"
  shows "ledger (recovered (reconnection_opening s g) (is @ [Committed c d])) =
      ledger (recovered (reconnection_opening s g) is) \<and>
    reconnection_route (recovered (reconnection_opening s g) (is @ Committed c d # js)) =
      Inl ResetRequired \<and>
    connected (recovered (reconnection_opening s g) (is @ Committed c d # js)) head' =
      Inl ResetRequired \<and>
    health (recovered (reconnection_opening s g) (is @ Committed c d # js)) = Degraded"
proof -
  let ?r = "recovered (reconnection_opening s g) is"
  let ?r' = "recovered (reconnection_opening s g) (is @ Committed c d # js)"
  have o: "offerE after_recovery ?r (Committed c d) = snd (commit_cursor ?r c d)"
    by (simp add: offerE_def after_recovery_def)
  have "ledger (recovered (reconnection_opening s g) (is @ [Committed c d])) = ledger ?r"
    using assms(1,2) by (simp add: o ledger_commit_def)
  moreover have "outstanding_reset (snd (commit_cursor ?r c d)) \<noteq> None"
    using assms(1,2) by (simp add: ledger_commit_def)
  then have "outstanding_reset ?r' \<noteq> None"
    using outstanding_until_reset [OF _ assms(3)] by (simp add: o)
  then have "reconnection_route ?r' = Inl ResetRequired" "connected ?r' head' = Inl ResetRequired"
    "health ?r' = Degraded"
    using well_kept_history [of s g "is @ Committed c d # js"]
    by (simp_all add: reconnection_route_def connected_def well_kept_def)
  ultimately show ?thesis by (intro conjI)
qed

theorem conflict_stops_until_reset_witness:
  "reconnection_route (recovered (reconnection_opening ''s'' 1)
     ([Committed ''1:1'' ''x''] @ Committed ''1:1'' ''y'' # [Retried CleanClose 7 9])) = Inl ResetRequired"
proof -
  have "committed_cursor (ledger (recovered (reconnection_opening ''s'' 1) [Committed ''1:1'' ''x''])) =
      Some ''1:1''" by code_simp
  moreover have "committed_digest (ledger (recovered (reconnection_opening ''s'' 1)
      [Committed ''1:1'' ''x''])) \<noteq> Some ''y''" by code_simp
  moreover have "set [Retried CleanClose 7 9] \<inter> range ResetFinished = {}" by auto
  ultimately show ?thesis by (rule conflict_stops_until_reset [THEN conjunct2, THEN conjunct1])
qed

section \<open>Which evidence is believed\<close>

lemma decode_event_reset_sound:
  assumes "decode_event_reset parse header_value_ok digest response request = Inr v"
  shows "reset_subscription v = request_subscription request"
    and "reset_requested_generation v = request_generation request"
    and "reset_requested_cursor v = request_cursor request"
    and "validated_reason v =
      (if reset_generation v = request_generation request then CursorExpired else GenerationChanged)"
    and "reset_generation v = request_generation request \<Longrightarrow>
      request_route request = EventsRoute \<and> request_cursor request \<noteq> None"
  using assms
  by (auto simp: decode_event_reset_def bindE_eq_Inr validated_reason_def
      split: if_splits sum.splits option.splits)

text \<open>Only the agent's own absence of the very job that was asked after, in the generation that was
  observed independently, is evidence that it is gone.\<close>

lemma decode_physical_job_missing_sound:
  assumes "decode_physical_job_missing parse digest response sling_job generation = Inr v"
  shows "v = \<lparr>missing_generation = generation, missing_identifier = sling_job\<rparr>"
    and "response_status response = 404" and "is_ok (require_acceptable (response_head' response))"
    and "\<exists>wire. parse (response_body response) = Some wire \<and> md_kind wire = ''missing'' \<and>
      md_generation wire = generation \<and> md_sling_job wire = sling_job"
  using assms
  by (auto simp: decode_physical_job_missing_def split: if_splits sum.splits option.splits)

text \<open>C15: The evidence of a reset is believed only about the request it answers, and only while that
  request is still what the subscription stands on.  A decoded reset opens recovery exactly when
  the subscription, the generation and the committed position that were asked with are still
  current and no other reset is outstanding; the reason is an expired position exactly when the
  generation did not change; and believing it moves no position and installs none.\<close>

theorem reset_evidence_is_current:
  assumes "decode_event_reset parse header_value_ok digest response request = Inr v"
  shows "require_validated_reset r v = Inr out \<longleftrightarrow>
    request_subscription request = reconnect_subscription r \<and>
    request_generation request = ledger_generation (ledger r) \<and>
    request_cursor request = committed_cursor (ledger r) \<and> outstanding_reset r = None \<and>
    out = (HighWaterSnapshotReset, r\<lparr>health := Degraded, outstanding_reset :=
      Some (if reset_generation v = request_generation request then CursorExpired
            else GenerationChanged)\<rparr>)"
  using decode_event_reset_sound [OF assms]
  by (auto simp: require_validated_reset_def require_reset_def last_event_identifier_def reset_route_def
      split: reset_reason.split)

definition sample_reset_response :: finite_response where
  "sample_reset_response =
     \<lparr>response_status = 409, response_body = [],
      response_head' = \<lparr>content_coding = None, location = None, protocol_version = text_of ''HTTP/2'',
        trailers_declared = False, alternative_service_offered = False, informational = False\<rparr>,
      response_content_type = Some (text_of ''application/json; charset=utf-8''),
      response_retry_after = None\<rparr>"

definition sample_reset_document :: reset_document where
  "sample_reset_document =
     \<lparr>rd_format = AGENT_FORMAT, rd_transport_contract_digest = ''d'', rd_subscription = ''s'',
      rd_requested_generation = 1, rd_requested_last_event_identifier = None, rd_generation = 2,
      rd_high_water_cursor = ''2:7'', rd_reason = AnnouncedGenerationChanged\<rparr>"

definition sample_reset_request :: reset_request where
  "sample_reset_request =
     \<lparr>request_route = EventsRoute, request_subscription = ''s'', request_generation = 1,
      request_cursor = None\<rparr>"

definition sample_reset :: validated_event_reset where
  "sample_reset =
     \<lparr>reset_subscription = ''s'', reset_requested_generation = 1, reset_requested_cursor = None,
      reset_generation = 2, reset_cursor = ''2:7'', reset_announced = AnnouncedGenerationChanged\<rparr>"

theorem reset_evidence_is_current_witness:
  "is_ok (require_validated_reset (reconnection_opening ''s'' 1) sample_reset) \<and>
   \<not> is_ok (require_validated_reset (reconnection_opening ''s'' 2) sample_reset)"
proof -
  have "json_media_type (text_of ''application/json; charset=utf-8'')" by code_simp
  moreover have "require_acceptable (response_head' sample_reset_response) = Inr ()" by code_simp
  ultimately have "decode_event_reset (\<lambda>_. Some sample_reset_document) (\<lambda>_. True) ''d'' sample_reset_response
      sample_reset_request = Inr sample_reset"
    by (simp add: decode_event_reset_def sample_reset_response_def sample_reset_request_def
        sample_reset_document_def sample_reset_def require_cursor_def stream_cursor_new_def blank_def
        decoder_bounds_embedded_def embedded_limit_def contract_simps as_u64_length_def)
  note d = reset_evidence_is_current [OF this]
  show ?thesis
    using d [of "reconnection_opening ''s'' 1"] d [of "reconnection_opening ''s'' 2"]
    by (auto simp: is_ok_iff sample_reset_request_def reconnection_opening_def ledger_empty_def)
qed

end
