(* ===== verification/Recovery_Supervisor.thy ===== *)
theory Recovery_Supervisor
  imports Stream_Recovery "HOL-Library.Product_Lexorder"
begin

text \<open>
  The supervisor that keeps recoverable work moving,
  \<open>slingshot-daemon/src/operation/recovery_and_event_supervisor.rs\<close>: what a failure category may conclude,
  the waits it writes down, and the queue of due work with its pauses, resume receipts and fairness.
  The categories the command catalog publishes are an argument.

  The theorems show that no kind of work starves, that an operation is held once per kind, that a
  receipt wakes at most once, and that nothing moves after the supervisor has let go.
\<close>

section \<open>What a category means\<close>

definition OUTCOME_UNKNOWN_CATEGORIES :: "string list" where
  "OUTCOME_UNKNOWN_CATEGORIES =
     [''admission_outcome_unknown'', ''artifact_publication_outcome_unknown'',
      ''mutation_outcome_unknown'']"

definition REMOTE_FAILURE_CATEGORIES :: "string list" where
  "REMOTE_FAILURE_CATEGORIES = [''admission_budget_exceeded'', ''admission_rejected'']"

definition STAGING_CLEANUP_CATEGORY :: string where
  "STAGING_CLEANUP_CATEGORY = ''staging_cleanup_failed''"

datatype category_disposition =
    CategoryRejected | CategoryRemoteFailed | CategoryRecoveryRequired | CategoryResultUnavailable
  | CategoryWindowExpired

definition disposition_for :: "string list \<Rightarrow> string \<Rightarrow> category_disposition option" where
  "disposition_for published_categories category =
     (if category \<in> set OUTCOME_UNKNOWN_CATEGORIES then Some CategoryRecoveryRequired
      else if category \<in> set REMOTE_FAILURE_CATEGORIES then Some CategoryRemoteFailed
      else if category \<in> set published_categories then Some CategoryRejected else None)"

definition preserves_maintenance_diagnosis :: "string \<Rightarrow> bool" where
  "preserves_maintenance_diagnosis category \<longleftrightarrow> category = STAGING_CLEANUP_CATEGORY"

definition permits_rebuild :: "string \<Rightarrow> bool" where
  "permits_rebuild category \<longleftrightarrow> category \<noteq> STAGING_CLEANUP_CATEGORY"

datatype artifact_unavailability =
    IdentifiedMissingBeyondGrace | IdentifiedRetentionExpired | BareAnswer | MalformedAnswer
  | MismatchedAnswer

definition artifact_disposition :: "artifact_unavailability \<Rightarrow> category_disposition" where
  "artifact_disposition unavailability =
     (case unavailability of
        IdentifiedMissingBeyondGrace \<Rightarrow> CategoryResultUnavailable
      | IdentifiedRetentionExpired \<Rightarrow> CategoryResultUnavailable
      | BareAnswer \<Rightarrow> CategoryRecoveryRequired
      | MalformedAnswer \<Rightarrow> CategoryRecoveryRequired
      | MismatchedAnswer \<Rightarrow> CategoryRecoveryRequired)"

datatype execution_certainty =
    CertainlyNotExecuted | RemoteOutcomeUnknown | AuthoritativeRemoteSuccess

datatype exhaustion = AuthoritativeNonExecution | ExhaustedRecoveryRequired

definition on_exhaustion :: "execution_certainty \<Rightarrow> exhaustion" where
  "on_exhaustion certainty =
     (case certainty of
        CertainlyNotExecuted \<Rightarrow> AuthoritativeNonExecution
      | RemoteOutcomeUnknown \<Rightarrow> ExhaustedRecoveryRequired
      | AuthoritativeRemoteSuccess \<Rightarrow> ExhaustedRecoveryRequired)"

section \<open>Waits\<close>

datatype retry_category =
    AmbiguousSubmission | ArtifactAcquisition | EventReconnect | ResultAcquisition | SnapshotPoll

definition automatic_attempt_cap :: u64 where
  "automatic_attempt_cap = embedded_limit ''maximum_automatic_retry_attempts''"

record retry_schedule =
  rs_attempt :: u64
  rs_category :: retry_category
  rs_chosen_delay_milliseconds :: u64
  rs_eligible_at_unix_milliseconds :: u64
  rs_jitter_ceiling_milliseconds :: u64

definition supervisor_jitter_ceiling :: "u64 \<Rightarrow> u64" where
  "supervisor_jitter_ceiling n =
     (let initial = embedded_limit ''retry_base_milliseconds'';
          maximum = embedded_limit ''retry_jitter_cap_milliseconds'';
          since = unat (saturating_sub n 1);
          exponent = (if since < 2 ^ 32 then since else 2 ^ 32 - 1)
      in min (saturating_mul initial (saturating_pow 2 (min exponent 32))) maximum)"

definition retry_schedule_of :: "retry_category \<Rightarrow> u64 \<Rightarrow> u64 \<Rightarrow> u64 \<Rightarrow> retry_schedule" where
  "retry_schedule_of category n sample now =
     (let ceiling' = supervisor_jitter_ceiling n; chosen = sample mod (ceiling' + 1) in
      \<lparr>rs_attempt = n, rs_category = category, rs_chosen_delay_milliseconds = chosen,
       rs_eligible_at_unix_milliseconds = saturating_add now chosen,
       rs_jitter_ceiling_milliseconds = ceiling'\<rparr>)"

definition supervisor_resumed_delay :: "retry_schedule \<Rightarrow> u64 \<Rightarrow> u64" where
  "supervisor_resumed_delay schedule now =
     min (saturating_sub (rs_eligible_at_unix_milliseconds schedule) now)
       (rs_chosen_delay_milliseconds schedule)"

section \<open>The queue\<close>

record due_work =
  due_operation :: string
  due_category :: retry_category
  due_eligible_at :: u64
  due_paused :: bool

datatype resume_refusal =
    WrongSelectedRevision | StaleOperationRevision u64 u64 | WrongCategory

record resume_request =
  resume_operation :: string
  resume_category :: retry_category
  quoted_operation_revision :: u64
  receipt_identifier :: string
  supplied_revision :: string

datatype resume_outcome = Woken retry_category | ReceiptReplayed

record supervisor =
  sup_partition :: string
  consumed_receipts :: "string list"
  served :: "retry_category \<Rightarrow> u64 option"
  shutting_down :: bool
  work :: "due_work list"

definition supervisor_over :: "string \<Rightarrow> supervisor" where
  "supervisor_over digest =
     \<lparr>sup_partition = digest, consumed_receipts = [], served = Map.empty, shutting_down = False,
      work = []\<rparr>"

definition same_work :: "string \<Rightarrow> retry_category \<Rightarrow> due_work \<Rightarrow> bool" where
  "same_work operation' category h \<longleftrightarrow> due_operation h = operation' \<and> due_category h = category"

text \<open>Overwriting the first element that satisfies the test, as through \<open>iter_mut().find\<close>.\<close>

fun overwrite_first :: "('a \<Rightarrow> bool) \<Rightarrow> 'a \<Rightarrow> 'a list \<Rightarrow> 'a list option" where
  "overwrite_first p y [] = None"
| "overwrite_first p y (x # xs) =
     (if p x then Some (y # xs) else map_option ((#) x) (overwrite_first p y xs))"

definition hold :: "due_work \<Rightarrow> supervisor \<Rightarrow> supervisor" where
  "hold w self =
     (if shutting_down self then self
      else (case overwrite_first (same_work (due_operation w) (due_category w)) w (work self) of
              Some work' \<Rightarrow> self\<lparr>work := work'\<rparr>
            | None \<Rightarrow> self\<lparr>work := work self @ [w]\<rparr>))"

definition pause :: "string \<Rightarrow> supervisor \<Rightarrow> bool \<times> supervisor" where
  "pause operation' self =
     (\<exists>h \<in> set (work self). due_operation h = operation',
      self\<lparr>work := map (\<lambda>h. if due_operation h = operation' then h\<lparr>due_paused := True\<rparr> else h)
             (work self)\<rparr>)"

definition times_served :: "supervisor \<Rightarrow> retry_category \<Rightarrow> u64" where
  "times_served self category = (case served self category of Some n \<Rightarrow> n | None \<Rightarrow> 0)"

definition is_due :: "u64 \<Rightarrow> due_work \<Rightarrow> bool" where
  "is_due now h \<longleftrightarrow> \<not> due_paused h \<and> due_eligible_at h \<le> now"

definition due_indices :: "u64 \<Rightarrow> supervisor \<Rightarrow> nat list" where
  "due_indices now self = filter (\<lambda>i. is_due now (work self ! i)) [0..<length (work self)]"

definition due_key :: "supervisor \<Rightarrow> nat \<Rightarrow> u64 \<times> u64 \<times> nat" where
  "due_key self i =
     (times_served self (due_category (work self ! i)), due_eligible_at (work self ! i), i)"

definition rebased :: "retry_category \<Rightarrow> (retry_category \<Rightarrow> u64 option) \<Rightarrow> (retry_category \<Rightarrow> u64 option)" where
  "rebased category counts =
     (if counts category = Some (- 1) then (\<lambda>c. map_option (\<lambda>_. 0) (counts c)) else counts)"

definition next_due :: "u64 \<Rightarrow> supervisor \<Rightarrow> due_work option \<times> supervisor" where
  "next_due now self =
     (if shutting_down self then (None, self)
      else if due_indices now self = [] then (None, self)
      else
       let i = arg_min_list (due_key self) (due_indices now self);
           chosen = work self ! i;
           counts = rebased (due_category chosen) (served self);
           before = (case counts (due_category chosen) of Some n \<Rightarrow> n | None \<Rightarrow> 0)
       in (Some chosen,
           self\<lparr>work := take i (work self) @ drop (Suc i) (work self),
             served := counts(due_category chosen \<mapsto> before + 1)\<rparr>))"

definition holds :: "supervisor \<Rightarrow> resume_request \<Rightarrow> bool" where
  "holds self request \<longleftrightarrow>
     (\<exists>h \<in> set (work self). same_work (resume_operation request) (resume_category request) h)"

definition resume ::
  "resume_request \<Rightarrow> string \<Rightarrow> u64 \<Rightarrow> supervisor \<Rightarrow> (resume_refusal + resume_outcome) \<times> supervisor" where
  "resume request submitted_revision stored_operation_revision self =
     (if supplied_revision request \<noteq> submitted_revision then (Inl WrongSelectedRevision, self)
      else if quoted_operation_revision request \<noteq> stored_operation_revision
      then (Inl (StaleOperationRevision (quoted_operation_revision request) stored_operation_revision),
            self)
      else if \<not> holds self request then (Inl WrongCategory, self)
      else if receipt_identifier request \<in> set (consumed_receipts self)
      then (Inr ReceiptReplayed, self)
      else (Inr (Woken (resume_category request)),
            self\<lparr>consumed_receipts := consumed_receipts self @ [receipt_identifier request],
              work := map (\<lambda>h. if same_work (resume_operation request) (resume_category request) h
                                then h\<lparr>due_paused := False\<rparr> else h) (work self)\<rparr>))"

definition detach :: "supervisor \<Rightarrow> due_work list \<times> supervisor" where
  "detach self = (work self, self\<lparr>shutting_down := True, work := []\<rparr>)"

definition accepts_new_work :: "supervisor \<Rightarrow> bool" where
  "accepts_new_work self \<longleftrightarrow> \<not> shutting_down self"

section \<open>Histories\<close>

datatype supervisor_call =
    Hold due_work
  | Pause string
  | NextDue u64
  | Resume resume_request string u64
  | Detach

datatype supervisor_answer =
    HeldWork
  | PausedWork bool
  | Dispatched "due_work option"
  | ResumeAnswer "resume_refusal + resume_outcome"
  | Detached "due_work list"

fun supervise :: "supervisor_call \<Rightarrow> supervisor \<Rightarrow> supervisor_answer \<times> supervisor" where
  "supervise (Hold w) s = (HeldWork, hold w s)"
| "supervise (Pause operation') s = map_prod PausedWork id (pause operation' s)"
| "supervise (NextDue now) s = map_prod Dispatched id (next_due now s)"
| "supervise (Resume request revision stored) s =
     map_prod ResumeAnswer id (resume request revision stored s)"
| "supervise Detach s = map_prod Detached id (detach s)"

fun supervised :: "supervisor \<Rightarrow> supervisor_call list \<Rightarrow> supervisor_answer list \<times> supervisor" where
  "supervised s [] = ([], s)"
| "supervised s (c # cs) =
     (fst (supervise c s) # fst (supervised (snd (supervise c s)) cs),
      snd (supervised (snd (supervise c s)) cs))"

section \<open>Waits are the stream's waits\<close>

lemma supervisor_jitter_ceiling_eq: "supervisor_jitter_ceiling n = jitter_ceiling_milliseconds n"
proof -
  have "min (if m < 2 ^ 32 then m else 2 ^ 32 - 1) 32 = min (if m < 2 ^ 32 then m else 32) (32::nat)" for m
    by simp
  then show ?thesis
    by (simp add: supervisor_jitter_ceiling_def jitter_ceiling_milliseconds_def Let_def
        FIRST_ATTEMPT_def MAXIMUM_EXPONENT_def DELAY_MULTIPLIER_def embedded_limit_def contract_simps)
qed

lemma retry_schedule_eq:
  "rs_chosen_delay_milliseconds (retry_schedule_of k n sample now) =
     chosen_delay_milliseconds (schedule_for n cause sample now)"
  "supervisor_resumed_delay (retry_schedule_of k n sample now) later =
     resumed_delay_milliseconds (schedule_for n cause sample now) later"
  by (simp_all add: retry_schedule_of_def schedule_for_def supervisor_resumed_delay_def
      resumed_delay_milliseconds_def Let_def supervisor_jitter_ceiling_eq)

section \<open>What is dispatched\<close>

lemma due_indices_iff: "i \<in> set (due_indices now s) \<longleftrightarrow> i < length (work s) \<and> is_due now (work s ! i)"
  by (auto simp: due_indices_def)

lemma next_due_None:
  "fst (next_due now s) = None \<longleftrightarrow> shutting_down s \<or> (\<forall>h \<in> set (work s). \<not> is_due now h)"
proof -
  have "due_indices now s = [] \<longleftrightarrow> (\<forall>h \<in> set (work s). \<not> is_due now h)"
    using all_set_conv_all_nth [of "work s" "\<lambda>h. \<not> is_due now h"]
    by (auto simp: due_indices_def filter_empty_conv)
  then show ?thesis by (auto simp: next_due_def Let_def)
qed

lemma next_due_idle: "fst (next_due now s) = None \<Longrightarrow> snd (next_due now s) = s"
  by (auto simp: next_due_def Let_def split: if_splits)

lemma next_due_Some:
  assumes "fst (next_due now s) = Some w"
  obtains i where "i < length (work s)" "w = work s ! i" "is_due now w"
    "\<And>j. j < length (work s) \<Longrightarrow> is_due now (work s ! j) \<Longrightarrow> due_key s i \<le> due_key s j"
    "work (snd (next_due now s)) = take i (work s) @ drop (Suc i) (work s)"
    "served (snd (next_due now s)) = (let counts = rebased (due_category w) (served s) in
       counts(due_category w \<mapsto> (case counts (due_category w) of Some n \<Rightarrow> n | None \<Rightarrow> 0) + 1))"
    "consumed_receipts (snd (next_due now s)) = consumed_receipts s"
    "\<not> shutting_down s" "\<not> shutting_down (snd (next_due now s))"
proof -
  let ?i = "arg_min_list (due_key s) (due_indices now s)"
  have ne: "due_indices now s \<noteq> []" and d: "\<not> shutting_down s" and w: "w = work s ! ?i"
    using assms by (auto simp: next_due_def Let_def split: if_splits)
  have "?i \<in> set (due_indices now s)" using ne by (rule arg_min_list_in)
  moreover have "due_key s ?i \<le> due_key s j" if "j \<in> set (due_indices now s)" for j
    using that by (simp add: f_arg_min_list_f [OF ne])
  ultimately show ?thesis
    using ne d w by (intro that [of ?i]) (auto simp: due_indices_iff next_due_def Let_def)
qed

section \<open>Bookkeeping\<close>

abbreviation work_key :: "due_work \<Rightarrow> string \<times> retry_category" where
  "work_key h \<equiv> (due_operation h, due_category h)"

definition well_held :: "supervisor \<Rightarrow> bool" where
  "well_held s \<longleftrightarrow> distinct (map work_key (work s)) \<and> distinct (consumed_receipts s) \<and>
     (shutting_down s \<longrightarrow> work s = [])"

lemma overwrite_first_keys:
  "overwrite_first (same_work (due_operation w) (due_category w)) w xs = Some ys \<Longrightarrow>
     map work_key ys = map work_key xs"
  by (induction xs arbitrary: ys) (auto simp: same_work_def split: if_splits)

lemma overwrite_first_None: "overwrite_first p y xs = None \<longleftrightarrow> (\<forall>x \<in> set xs. \<not> p x)"
  by (induction xs) auto

lemma well_held_hold: "well_held s \<Longrightarrow> well_held (hold w s)"
proof (cases "overwrite_first (same_work (due_operation w) (due_category w)) w (work s)")
  case None
  then have "work_key w \<notin> set (map work_key (work s))"
    by (auto simp: overwrite_first_None same_work_def)
  with None show "well_held s \<Longrightarrow> well_held (hold w s)" by (simp add: hold_def well_held_def)
next
  case (Some ys)
  then show "well_held s \<Longrightarrow> well_held (hold w s)"
    using overwrite_first_keys [OF Some] by (simp add: hold_def well_held_def)
qed

lemma map_key_pausing:
  "map work_key (map (\<lambda>h. if p h then h\<lparr>due_paused := b\<rparr> else h) xs) = map work_key xs"
  by (induction xs) auto

lemma well_held_next_due: "well_held s \<Longrightarrow> well_held (snd (next_due now s))"
proof (cases "fst (next_due now s)")
  case None
  then show "well_held s \<Longrightarrow> ?thesis" by (simp add: next_due_idle)
next
  case (Some w)
  assume h: "well_held s"
  from Some obtain i where i: "i < length (work s)"
    "work (snd (next_due now s)) = take i (work s) @ drop (Suc i) (work s)"
    "consumed_receipts (snd (next_due now s)) = consumed_receipts s"
    "\<not> shutting_down (snd (next_due now s))" by (rule next_due_Some) blast
  have "distinct (map work_key (take i (work s) @ work s ! i # drop (Suc i) (work s)))"
    using h i(1) by (simp only: well_held_def flip: id_take_nth_drop)
  then show ?thesis using h i by (auto simp: well_held_def)
qed

lemma well_held_resume: "well_held s \<Longrightarrow> well_held (snd (resume q revision stored s))"
  by (auto simp: resume_def well_held_def map_key_pausing simp del: map_map)

lemma well_held_pause: "well_held s \<Longrightarrow> well_held (snd (pause operation' s))"
  by (auto simp: pause_def well_held_def map_key_pausing simp del: map_map)

lemma well_held_detach: "well_held s \<Longrightarrow> well_held (snd (detach s))"
  by (simp add: detach_def well_held_def)

interpretation supervision: guarded_machine "\<lambda>s c. Inr (snd (supervise c s)) :: unit + supervisor"
  well_held "\<lambda>s s'. sup_partition s' = sup_partition s \<and> (shutting_down s \<longrightarrow> shutting_down s')"
proof
  fix s s' c
  assume "well_held s" and "(Inr (snd (supervise c s)) :: unit + supervisor) = Inr s'"
  then show "well_held s'"
    by (cases c) (auto simp: well_held_hold well_held_next_due well_held_resume well_held_pause
        well_held_detach)
next
  fix s s' c
  assume "(Inr (snd (supervise c s)) :: unit + supervisor) = Inr s'"
  then show "sup_partition s' = sup_partition s \<and> (shutting_down s \<longrightarrow> shutting_down s')"
    by (cases c) (auto simp: hold_def pause_def detach_def resume_def next_due_def Let_def
        split: option.splits)
qed auto

lemma supervised_history:
  "snd (supervised s cs) = history (\<lambda>s c. Inr (snd (supervise c s)) :: unit + supervisor) s cs"
  by (induction cs arbitrary: s) (simp_all add: offerE_def)

text \<open>The receipts of the resumes that woke something, in the order they did.\<close>

fun woken_receipts :: "supervisor_call list \<Rightarrow> supervisor_answer list \<Rightarrow> string list" where
  "woken_receipts (Resume q _ _ # cs) (ResumeAnswer (Inr (Woken _)) # as) =
     receipt_identifier q # woken_receipts cs as"
| "woken_receipts (_ # cs) (_ # as) = woken_receipts cs as"
| "woken_receipts _ _ = []"

lemma supervise_receipts:
  "consumed_receipts (snd (supervise c s)) =
     consumed_receipts s @ woken_receipts [c] [fst (supervise c s)]"
  by (cases c) (auto simp: hold_def pause_def detach_def resume_def next_due_def Let_def
      split: option.splits)

lemma woken_receipts_Cons: "woken_receipts (c # cs) (a # as) = woken_receipts [c] [a] @ woken_receipts cs as"
  by (cases "(c # cs, a # as)" rule: woken_receipts.cases) simp_all

lemma consumed_is_woken:
  "consumed_receipts (snd (supervised s cs)) =
     consumed_receipts s @ woken_receipts cs (fst (supervised s cs))"
proof (induction cs arbitrary: s)
  case (Cons c cs)
  show ?case
    by (simp add: Cons.IH supervise_receipts woken_receipts_Cons [of c cs])
qed simp

lemma shutting_down_iff:
  "shutting_down (snd (supervised s cs)) \<longleftrightarrow> shutting_down s \<or> Detach \<in> set cs"
proof (induction cs arbitrary: s)
  case (Cons c cs)
  have "shutting_down (snd (supervise c s)) \<longleftrightarrow> shutting_down s \<or> c = Detach"
    by (cases c) (auto simp: hold_def pause_def detach_def resume_def next_due_def Let_def
        split: option.splits)
  with Cons.IH [of "snd (supervise c s)"] show ?case by auto
qed simp

text \<open>C17: The supervisor's books are always in order.  After any calls in any order it holds each
  operation at most once per kind of work, however often it was scheduled; the receipts it has
  consumed are exactly those of the resumes that woke something, in their order and each once, so
  that a replayed resume wakes nothing; and once it has been detached it is shut down for good and
  holds nothing.\<close>

theorem supervisor_bookkeeping:
  "distinct (map work_key (work (snd (supervised (supervisor_over digest) cs)))) \<and>
   consumed_receipts (snd (supervised (supervisor_over digest) cs)) =
     woken_receipts cs (fst (supervised (supervisor_over digest) cs)) \<and>
   distinct (woken_receipts cs (fst (supervised (supervisor_over digest) cs))) \<and>
   (shutting_down (snd (supervised (supervisor_over digest) cs)) \<longleftrightarrow> Detach \<in> set cs) \<and>
   {w \<in> set (work (snd (supervised (supervisor_over digest) cs))). Detach \<in> set cs} = {}"
proof -
  have "well_held (supervisor_over digest)" by (simp add: well_held_def supervisor_over_def)
  then have "well_held (snd (supervised (supervisor_over digest) cs))"
    unfolding supervised_history by (rule supervision.history_inv)
  then show ?thesis
    using consumed_is_woken [of "supervisor_over digest" cs]
      shutting_down_iff [of "supervisor_over digest" cs]
    by (auto simp: well_held_def supervisor_over_def)
qed

section \<open>No kind of work starves\<close>

definition due_in :: "retry_category \<Rightarrow> u64 \<Rightarrow> supervisor \<Rightarrow> bool" where
  "due_in k now s \<longleftrightarrow> \<not> shutting_down s \<and> (\<exists>h \<in> set (work s). due_category h = k \<and> is_due now h)"

text \<open>At every dispatch of the history there is due work of this kind.\<close>

fun keeps_due :: "retry_category \<Rightarrow> supervisor \<Rightarrow> supervisor_call list \<Rightarrow> bool" where
  "keeps_due k s [] \<longleftrightarrow> True"
| "keeps_due k s (c # cs) \<longleftrightarrow>
     (case c of NextDue now \<Rightarrow> due_in k now s | _ \<Rightarrow> True) \<and> keeps_due k (snd (supervise c s)) cs"

definition dispatches :: "supervisor_call list \<Rightarrow> nat" where
  "dispatches cs = length (filter (\<lambda>c. case c of NextDue _ \<Rightarrow> True | _ \<Rightarrow> False) cs)"

definition other_kinds :: "retry_category \<Rightarrow> retry_category set" where
  "other_kinds k =
     {AmbiguousSubmission, ArtifactAcquisition, EventReconnect, ResultAcquisition, SnapshotPoll} - {k}"

text \<open>How many dispatches of other kinds can still come before this kind is served.\<close>

definition may_pass :: "retry_category \<Rightarrow> supervisor \<Rightarrow> nat" where
  "may_pass k s =
     (\<Sum>j \<in> other_kinds k. unat (times_served s k) + 1 - unat (times_served s j))"

lemma other_kinds_iff: "j \<in> other_kinds k \<longleftrightarrow> j \<noteq> k"
  by (cases j) (auto simp: other_kinds_def)

lemma finite_other_kinds: "finite (other_kinds k)"
  by (simp add: other_kinds_def)

lemma may_pass_decreases:
  assumes k: "due_in k now s" and w: "fst (next_due now s) = Some w" "due_category w \<noteq> k"
  shows "may_pass k (snd (next_due now s)) < may_pass k s"
proof -
  let ?s = "snd (next_due now s)" and ?j = "due_category w"
  obtain i where i: "i < length (work s)" "w = work s ! i"
    "\<And>j. j < length (work s) \<Longrightarrow> is_due now (work s ! j) \<Longrightarrow> due_key s i \<le> due_key s j"
    and sv: "served ?s = (let counts = rebased ?j (served s) in
       counts(?j \<mapsto> (case counts ?j of Some n \<Rightarrow> n | None \<Rightarrow> 0) + 1))"
    using w(1) by (rule next_due_Some) blast
  from k obtain m where "m < length (work s)" "due_category (work s ! m) = k" "is_due now (work s ! m)"
    by (auto simp: due_in_def in_set_conv_nth)
  then have le: "times_served s ?j \<le> times_served s k"
    using i(3) [of m] i(2) by (auto simp: due_key_def)
  have count: "unat (times_served ?s c) =
      (if served s ?j = Some (- 1) then of_bool (c = ?j)
       else unat (times_served s c) + of_bool (c = ?j))" for c
  proof -
    have "unat (n + 1) = Suc (unat n)" if "n \<noteq> - 1" for n :: u64
      using that unatSuc [of n] by (simp add: add.commute eq_neg_iff_add_eq_0)
    then show ?thesis
      by (auto simp: times_served_def sv rebased_def Let_def split: option.split)
  qed
  have top: "unat (times_served s c) \<le> 2 ^ 64 - 1" for c
    using unsigned_less [of "times_served s c", where 'a = nat] by simp
  have "unat (- 1 :: u64) = 2 ^ 64 - 1" by (simp add: unsigned_minus_1_eq_mask mask_eq_exp_minus_1)
  moreover have "times_served s k = - 1" if "served s ?j = Some (- 1)"
    using le that by (simp add: times_served_def word_order.extremum_unique)
  ultimately have "served s ?j = Some (- 1) \<Longrightarrow> unat (times_served s k) = 2 ^ 64 - 1" by simp
  moreover have "unat (times_served s ?j) \<le> unat (times_served s k)"
    using le by (simp add: word_le_nat_alt)
  ultimately have "unat (times_served ?s k) + 1 - unat (times_served ?s ?j) <
      unat (times_served s k) + 1 - unat (times_served s ?j)"
    and "unat (times_served ?s k) + 1 - unat (times_served ?s c) \<le>
      unat (times_served s k) + 1 - unat (times_served s c)" if "c \<noteq> k" for c
    using w(2) top [of c] by (auto simp: count)
  then show ?thesis
    unfolding may_pass_def using w(2)
    by (intro sum_strict_mono_ex1 finite_other_kinds)
      (auto simp: other_kinds_iff intro!: bexI [of _ ?j])
qed

lemma served_unchanged:
  assumes "\<And>now. c \<noteq> NextDue now"
  shows "may_pass k (snd (supervise c s)) = may_pass k s"
proof -
  have "served (snd (supervise c s)) = served s"
    using assms by (cases c) (auto simp: hold_def pause_def detach_def resume_def split: option.split)
  then show ?thesis by (simp add: may_pass_def times_served_def)
qed

text \<open>C16: No kind of work starves.  However work is held, paused, resumed and retried meanwhile, and
  even when the counts reach their ceiling and are rebased, work of a kind that is due at every
  dispatch is dispatched before more dispatches are made than the lead that kind has over the
  other four, one each for a tie.\<close>

theorem no_category_starves:
  assumes "keeps_due k s cs" and "may_pass k s < dispatches cs"
  shows "\<exists>w. due_category w = k \<and> Dispatched (Some w) \<in> set (fst (supervised s cs))"
  using assms
proof (induction cs arbitrary: s)
  case Nil
  then show ?case by (simp add: dispatches_def)
next
  case (Cons c cs)
  show ?case
  proof (cases "\<exists>now. c = NextDue now")
    case False
    then have "may_pass k (snd (supervise c s)) < dispatches cs"
      using Cons.prems(2) served_unchanged [of c k s]
      by (cases c) (simp_all add: dispatches_def)
    with Cons.IH [of "snd (supervise c s)"] Cons.prems(1) show ?thesis by auto
  next
    case True
    then obtain now where c: "c = NextDue now" by blast
    with Cons.prems(1) have due: "due_in k now s" by simp
    then obtain w where w: "fst (next_due now s) = Some w"
      using next_due_None [of now s] by (cases "fst (next_due now s)") (auto simp: due_in_def)
    show ?thesis
    proof (cases "due_category w = k")
      case True
      then show ?thesis using w c by auto
    next
      case False
      then have "may_pass k (snd (supervise c s)) < dispatches cs"
        using may_pass_decreases [OF due w] Cons.prems(2) c by (simp add: dispatches_def)
      with Cons.IH [of "snd (supervise c s)"] Cons.prems(1) show ?thesis by auto
    qed
  qed
qed

definition sample_work :: "string \<Rightarrow> retry_category \<Rightarrow> due_work" where
  "sample_work operation' k =
     \<lparr>due_operation = operation', due_category = k, due_eligible_at = 0, due_paused = False\<rparr>"

definition sample_supervisor :: supervisor where
  "sample_supervisor = (supervisor_over ''t'')
     \<lparr>work := [sample_work ''a'' EventReconnect, sample_work ''b'' EventReconnect,
              sample_work ''c'' SnapshotPoll],
      served := [SnapshotPoll \<mapsto> 0, AmbiguousSubmission \<mapsto> 1, ArtifactAcquisition \<mapsto> 1,
                 ResultAcquisition \<mapsto> 1]\<rparr>"

theorem no_category_starves_witness:
  "\<exists>w. due_category w = SnapshotPoll \<and>
     Dispatched (Some w) \<in> set (fst (supervised sample_supervisor [NextDue 5, NextDue 5]))"
proof (rule no_category_starves)
  show "keeps_due SnapshotPoll sample_supervisor [NextDue 5, NextDue 5]" by code_simp
  have "other_kinds SnapshotPoll =
      {AmbiguousSubmission, ArtifactAcquisition, EventReconnect, ResultAcquisition}"
    by (auto simp: other_kinds_def)
  then show "may_pass SnapshotPoll sample_supervisor < dispatches [NextDue 5, NextDue 5]"
    by (simp add: may_pass_def times_served_def sample_supervisor_def dispatches_def)
qed

end
