(* ===== verification/Access_Tokens.thy ===== *)
theory Access_Tokens
  imports Stream_Recovery
begin

text \<open>
  The cloud access token: the exchange that obtains one,
  \<open>slingshot-agent-connection/src/authentication/identity_management_exchange.rs\<close>, and the cache that lends it,
  \<open>access_token_cache.rs\<close>.  Field names and values are character lists, whose length in bytes is that of
  their encoding; bodies and secrets are byte lists.  The JSON parser, the network and the source of
  tokens are parameters; the source is a function over its own state.  Every operation of the cache
  holds one lock from its first read to its last write, so a history of concurrent callers is a list
  of calls.

  The theorems show that a request body spells the credentials it was built from, exactly which
  documents become a token and for how long it may be used, that a lease names one token for good,
  and that callers that were refused together share one exchange.
\<close>

section \<open>The contract's bounds\<close>

record profile_authentication_limits =
  access_token_refresh_skew_milliseconds :: u64
  identity_management_response_field_charge_bytes :: u64
  identity_management_response_head_status_charge_bytes :: u64
  identity_management_response_success_status :: u64
  identity_management_response_trailer_charge_bytes :: u64
  maximum_access_token_bytes :: u64
  maximum_access_token_lifetime_milliseconds :: u64
  maximum_identity_management_request_body_bytes :: u64
  maximum_identity_management_response_body_bytes :: u64
  maximum_identity_management_response_head_bytes :: u64
  maximum_identity_management_response_header_bytes :: u64
  maximum_identity_management_response_header_count :: u64
  minimum_access_token_usable_lease_milliseconds :: u64

definition profile_limits :: profile_authentication_limits where
  "profile_limits =
     \<lparr>access_token_refresh_skew_milliseconds = 300000,
      identity_management_response_field_charge_bytes = 3,
      identity_management_response_head_status_charge_bytes = 5,
      identity_management_response_success_status = 200,
      identity_management_response_trailer_charge_bytes = 1,
      maximum_access_token_bytes = 16384,
      maximum_access_token_lifetime_milliseconds = 86400000,
      maximum_identity_management_request_body_bytes = 25868,
      maximum_identity_management_response_body_bytes = 65536,
      maximum_identity_management_response_head_bytes = 32768,
      maximum_identity_management_response_header_bytes = 8192,
      maximum_identity_management_response_header_count = 64,
      minimum_access_token_usable_lease_milliseconds = 60000\<rparr>"

datatype exchange_failure =
    ResponseHeadLimitExceeded
  | ResponseBodyLimitExceeded
  | RedirectRefused
  | ResponseStatusRejected
  | ResponseTrailerRejected
  | ResponseMediaInvalid
  | ResponseDocumentInvalid
  | TokenTypeInvalid
  | TokenLifetimeInvalid
  | AccessTokenLifetimeTooShort
  | InstallationGenerationExhausted
  | AuthenticationTargetMismatch
  | TransportRefused

section \<open>The request\<close>

definition is_ascii_alphanumeric :: "byte \<Rightarrow> bool" where
  "is_ascii_alphanumeric b \<longleftrightarrow>
     0x30 \<le> b \<and> b \<le> 0x39 \<or> 0x41 \<le> b \<and> b \<le> 0x5A \<or> 0x61 \<le> b \<and> b \<le> 0x7A"

definition form_literal :: "byte \<Rightarrow> bool" where
  "form_literal b \<longleftrightarrow> is_ascii_alphanumeric b \<or> b \<in> set (ascii ''*-._'')"

definition HEX :: "byte list" where "HEX = ascii ''0123456789ABCDEF''"

definition form_encode :: "byte list \<Rightarrow> byte list" where
  "form_encode bytes =
     concat (map (\<lambda>b. if b = 0x20 then [0x2B]
        else if form_literal b then [b]
        else [0x25, HEX ! unat (drop_bit 4 b), HEX ! unat (b AND 15)]) bytes)"

definition form_width :: "byte \<Rightarrow> nat" where
  "form_width b = (if b = 0x20 \<or> form_literal b then 1 else 3)"

definition request_fields :: "byte list list" where
  "request_fields = [ascii ''client_id'', ascii ''client_secret'', ascii ''jwt_token'']"

text \<open>The capacity is summed with checked additions on \<open>usize\<close>.\<close>

fun checked_sum :: "nat \<Rightarrow> nat list \<Rightarrow> nat option" where
  "checked_sum acc [] = Some acc"
| "checked_sum acc (n # ns) = (if acc + n < 2 ^ 64 then checked_sum (acc + n) ns else None)"

definition form_capacity :: "byte list list \<Rightarrow> nat option" where
  "form_capacity secrets =
     checked_sum (length request_fields - 1)
       (concat (map2 (\<lambda>name secret. length name # 1 # map form_width secret) request_fields secrets))"

fun form_fields_body :: "(byte list \<times> byte list) list \<Rightarrow> byte list \<Rightarrow> byte list" where
  "form_fields_body [] body = body"
| "form_fields_body ((name, secret) # rest) body =
     form_fields_body rest
       (body @ (if body \<noteq> [] then [0x26] else []) @ name @ [0x3D] @ form_encode secret)"

definition build_form_body ::
  "byte list \<Rightarrow> byte list \<Rightarrow> byte list \<Rightarrow> exchange_failure + byte list" where
  "build_form_body client client_secret assertion =
     (let secrets = [client, client_secret, assertion] in
      case form_capacity secrets of
        None \<Rightarrow> Inl ResponseHeadLimitExceeded
      | Some capacity \<Rightarrow>
          if as_u64_length capacity > maximum_identity_management_request_body_bytes profile_limits
          then Inl ResponseHeadLimitExceeded
          else
           let body = form_fields_body (zip request_fields secrets) [] in
           if as_u64_length (length body) >
                maximum_identity_management_request_body_bytes profile_limits
           then Inl ResponseHeadLimitExceeded
           else Inr body)"

section \<open>The response\<close>

record decoded_head' =
  dh_status :: u16
  dh_fields :: "(str \<times> str) list"

record decoded_response =
  dr_informational :: "decoded_head' list"
  dr_head :: decoded_head'
  dr_body :: "byte list"
  dr_trailer :: "(str \<times> str) list option"

record access_token =
  token_bytes :: "byte list"
  token_deadline_milliseconds :: u64

record token_document =
  document_token :: "byte list"
  document_expires_in :: u64

record response_document =
  rdoc_access_token :: "byte list"
  rdoc_token_type :: string
  rdoc_expires_in :: u64

fun charge_fields :: "u64 \<Rightarrow> (str \<times> str) list \<Rightarrow> exchange_failure + unit" where
  "charge_fields charged [] = Inr ()"
| "charge_fields charged ((name, spelled) # rest) =
     (if length (as_bytes name) + length (as_bytes spelled) \<ge> 2 ^ 64
      then Inl ResponseHeadLimitExceeded
      else
       let field = of_nat (length (as_bytes name) + length (as_bytes spelled)) in
       if field > maximum_identity_management_response_header_bytes profile_limits
       then Inl ResponseHeadLimitExceeded
       else (case Option.bind (checked_add charged field)
               (\<lambda>t. checked_add t (identity_management_response_field_charge_bytes profile_limits)) of
            None \<Rightarrow> Inl ResponseHeadLimitExceeded
          | Some charged' \<Rightarrow>
              if charged' > maximum_identity_management_response_head_bytes profile_limits
              then Inl ResponseHeadLimitExceeded
              else charge_fields charged' rest))"

definition charge_head :: "(str \<times> str) list \<Rightarrow> u64 \<Rightarrow> exchange_failure + unit" where
  "charge_head section_fields base =
     (if as_u64_length (length section_fields) > maximum_identity_management_response_header_count profile_limits
      then Inl ResponseHeadLimitExceeded
      else charge_fields base section_fields)"

definition refuse_trailers :: "decoded_response \<Rightarrow> u64 \<Rightarrow> exchange_failure + unit" where
  "refuse_trailers response base =
     (if \<exists>f \<in> set (dh_fields (dr_head response)). same_ignoring_case (fst f) ''trailer''
      then Inl ResponseTrailerRejected
      else (case dr_trailer response of
              None \<Rightarrow> Inr ()
            | Some trailer \<Rightarrow>
                bindE (charge_head trailer base) (\<lambda>_. Inl ResponseTrailerRejected)))"

definition named_fields :: "(str \<times> str) list \<Rightarrow> string \<Rightarrow> str list" where
  "named_fields section_fields wanted_name = map snd (filter (\<lambda>f. same_ignoring_case (fst f) wanted_name) section_fields)"

definition accept_media :: "(str \<times> str) list \<Rightarrow> exchange_failure + unit" where
  "accept_media section_fields =
     bindE (case named_fields section_fields ''content-encoding'' of
              [] \<Rightarrow> Inr ()
            | [coding] \<Rightarrow>
                if same_ignoring_case coding ''identity'' then Inr () else Inl ResponseMediaInvalid
            | _ \<Rightarrow> Inl ResponseMediaInvalid) (\<lambda>_.
     case named_fields section_fields ''content-type'' of
       [declared] \<Rightarrow>
         (case map trim (split_all (of_char CHR '';'') declared) of
            [] \<Rightarrow> Inl ResponseMediaInvalid
          | media # parameters \<Rightarrow>
              if \<not> same_ignoring_case media ''application/json'' then Inl ResponseMediaInvalid
              else (case parameters of
                      [] \<Rightarrow> Inr ()
                    | [parameter] \<Rightarrow>
                        if same_ignoring_case parameter ''charset=utf-8'' then Inr ()
                        else Inl ResponseMediaInvalid
                    | _ \<Rightarrow> Inl ResponseMediaInvalid))
     | _ \<Rightarrow> Inl ResponseMediaInvalid)"

definition is_token_byte :: "byte \<Rightarrow> bool" where
  "is_token_byte b \<longleftrightarrow> is_ascii_alphanumeric b \<or> b \<in> set (ascii ''-._~+/='')"

definition accept_document ::
  "(byte list \<Rightarrow> response_document option) \<Rightarrow> byte list \<Rightarrow> exchange_failure + token_document" where
  "accept_document parse body =
     (case parse body of
        None \<Rightarrow> Inl ResponseDocumentInvalid
      | Some document \<Rightarrow>
          if \<not> eq_ignore_ascii_case (rdoc_token_type document) ''bearer'' \<or>
             rdoc_token_type document \<noteq> ''bearer''
          then Inl TokenTypeInvalid
          else
           let token_length = as_u64_length (length (rdoc_access_token document)) in
           if token_length = 0 \<or> token_length > maximum_access_token_bytes profile_limits \<or>
              \<not> list_all is_token_byte (rdoc_access_token document)
           then Inl ResponseDocumentInvalid
           else if rdoc_expires_in document = 0 \<or>
              rdoc_expires_in document > maximum_access_token_lifetime_milliseconds profile_limits
           then Inl TokenLifetimeInvalid
           else Inr \<lparr>document_token = rdoc_access_token document,
                  document_expires_in = rdoc_expires_in document\<rparr>)"

definition accept_response ::
  "(byte list \<Rightarrow> response_document option) \<Rightarrow> decoded_response \<Rightarrow> exchange_failure + token_document" where
  "accept_response parse response =
     (case dr_informational response of
        head' # _ \<Rightarrow>
          bindE (charge_head (dh_fields head')
                   (identity_management_response_head_status_charge_bytes profile_limits))
            (\<lambda>_. Inl ResponseStatusRejected)
      | [] \<Rightarrow>
          bindE (charge_head (dh_fields (dr_head response))
                   (identity_management_response_head_status_charge_bytes profile_limits)) (\<lambda>_.
          if as_u64_length (length (dr_body response)) >
               maximum_identity_management_response_body_bytes profile_limits
          then Inl ResponseBodyLimitExceeded
          else if 300 \<le> dh_status (dr_head response) \<and> dh_status (dr_head response) < 400
          then Inl RedirectRefused
          else if (ucast (dh_status (dr_head response)) :: u64) \<noteq>
               identity_management_response_success_status profile_limits
          then Inl ResponseStatusRejected
          else
           bindE (refuse_trailers response
                    (identity_management_response_trailer_charge_bytes profile_limits)) (\<lambda>_.
           bindE (accept_media (dh_fields (dr_head response))) (\<lambda>_.
           accept_document parse (dr_body response)))))"

definition install_document :: "token_document \<Rightarrow> u64 \<Rightarrow> u64 \<Rightarrow> exchange_failure + access_token" where
  "install_document document anchor receipt =
     (case checked_add anchor (document_expires_in document) of
        None \<Rightarrow> Inl AccessTokenLifetimeTooShort
      | Some deadline' \<Rightarrow>
         (case checked_sub deadline' receipt of
            None \<Rightarrow> Inl AccessTokenLifetimeTooShort
          | Some usable \<Rightarrow>
             (case checked_add (access_token_refresh_skew_milliseconds profile_limits)
                     (minimum_access_token_usable_lease_milliseconds profile_limits) of
                None \<Rightarrow> Inl AccessTokenLifetimeTooShort
              | Some required \<Rightarrow>
                  if usable \<le> required then Inl AccessTokenLifetimeTooShort
                  else Inr \<lparr>token_bytes = document_token document,
                         token_deadline_milliseconds = deadline'\<rparr>)))"

text \<open>The network answers the body it is sent; the clock is read before and after it.\<close>

definition exchange_assertion ::
  "(byte list \<Rightarrow> response_document option) \<Rightarrow> (byte list \<Rightarrow> exchange_failure + decoded_response) \<Rightarrow>
     u64 \<Rightarrow> u64 \<Rightarrow> byte list \<Rightarrow> byte list \<Rightarrow> byte list \<Rightarrow> exchange_failure + access_token" where
  "exchange_assertion parse transport anchor receipt client client_secret assertion =
     bindE (build_form_body client client_secret assertion) (\<lambda>body.
     bindE (transport body) (\<lambda>response.
     bindE (accept_response parse response) (\<lambda>document.
     install_document document anchor receipt)))"

definition refresh_required :: "access_token \<Rightarrow> u64 \<Rightarrow> bool" where
  "refresh_required self reading \<longleftrightarrow>
     saturating_sub (token_deadline_milliseconds self) reading \<le>
       access_token_refresh_skew_milliseconds profile_limits"

definition scrub :: "access_token \<Rightarrow> access_token" where
  "scrub self = self\<lparr>token_bytes := replicate (length (token_bytes self)) 0\<rparr>"

section \<open>The cache\<close>

record access_token_lease =
  lease_identity :: "byte list"
  lease_generation :: u64

record token_cache =
  cache_identity :: "byte list"
  installed :: "access_token option"
  cache_generation :: u64
  cache_usable :: bool

definition cache_with_identity :: "u64 \<Rightarrow> token_cache" where
  "cache_with_identity identity =
     \<lparr>cache_identity =
        map (\<lambda>k. ucast (drop_bit k identity)) [56, 48, 40, 32, 24, 16, 8, 0] @ replicate 24 0,
      installed = None, cache_generation = 0, cache_usable = False\<rparr>"

type_synonym 'x token_source = "'x \<Rightarrow> 'x \<times> (exchange_failure + access_token)"

definition cache_install ::
  "'x token_source \<Rightarrow> token_cache \<Rightarrow> 'x \<Rightarrow> token_cache \<times> 'x \<times> (exchange_failure + unit)" where
  "cache_install source st x =
     (case source x of
        (x', Inl failure) \<Rightarrow> (st, x', Inl failure)
      | (x', Inr replacement) \<Rightarrow>
          (case checked_add (cache_generation st) 1 of
             None \<Rightarrow> (st, x', Inl InstallationGenerationExhausted)
           | Some generation \<Rightarrow>
               (st\<lparr>cache_generation := generation, installed := Some replacement, cache_usable := True\<rparr>,
                x', Inr ())))"

definition lend ::
  "token_cache \<Rightarrow> exchange_failure + (access_token \<times> access_token_lease)" where
  "lend st =
     (case installed st of
        None \<Rightarrow> Inl InstallationGenerationExhausted
      | Some token \<Rightarrow>
          Inr (token, \<lparr>lease_identity = cache_identity st, lease_generation = cache_generation st\<rparr>))"

definition install_then_lend ::
  "'x token_source \<Rightarrow> token_cache \<Rightarrow> 'x \<Rightarrow>
     token_cache \<times> 'x \<times> (exchange_failure + (access_token \<times> access_token_lease))" where
  "install_then_lend source st x =
     (case cache_install source st x of
        (st', x', Inl failure) \<Rightarrow> (st', x', Inl failure)
      | (st', x', Inr _) \<Rightarrow> (st', x', lend st'))"

definition token ::
  "u64 \<Rightarrow> 'x token_source \<Rightarrow> token_cache \<Rightarrow> 'x \<Rightarrow>
     token_cache \<times> 'x \<times> (exchange_failure + (access_token \<times> access_token_lease))" where
  "token reading source st x =
     (let fresh = (case installed st of
            None \<Rightarrow> False | Some held_token \<Rightarrow> cache_usable st \<and> \<not> refresh_required held_token reading)
      in if \<not> fresh then install_then_lend source st x else (st, x, lend st))"

definition refresh_after_unauthorized ::
  "access_token_lease \<Rightarrow> 'x token_source \<Rightarrow> token_cache \<Rightarrow> 'x \<Rightarrow>
     token_cache \<times> 'x \<times> (exchange_failure + (access_token \<times> access_token_lease))" where
  "refresh_after_unauthorized lease source st x =
     (if lease_identity lease \<noteq> cache_identity st then (st, x, Inl AuthenticationTargetMismatch)
      else
       let current = (lease_identity lease = cache_identity st \<and>
                      lease_generation lease = cache_generation st);
           st' = (if current \<and> cache_usable st
                  then st\<lparr>cache_usable := False, installed := map_option scrub (installed st)\<rparr> else st)
       in if \<not> cache_usable st' then install_then_lend source st' x else (st', x, lend st'))"

section \<open>What a body spells\<close>

text \<open>Reading a form the way its grammar says.\<close>

definition hex_value :: "byte \<Rightarrow> byte option" where
  "hex_value b =
     (if 0x30 \<le> b \<and> b \<le> 0x39 then Some (b - 0x30)
      else if 0x41 \<le> b \<and> b \<le> 0x46 then Some (b - 0x37) else None)"

fun form_decode :: "byte list \<Rightarrow> byte list option" where
  "form_decode [] = Some []"
| "form_decode (b # bs) =
     (if b = 0x2B then map_option ((#) 0x20) (form_decode bs)
      else if b = 0x25 then
        (case bs of
           h # l # rest \<Rightarrow>
             (case (hex_value h, hex_value l) of
                (Some h', Some l') \<Rightarrow> map_option ((#) (push_bit 4 h' OR l')) (form_decode rest)
              | _ \<Rightarrow> None)
         | _ \<Rightarrow> None)
      else map_option ((#) b) (form_decode bs))"

definition form_read :: "byte list \<Rightarrow> (byte list \<times> byte list) option list" where
  "form_read body =
     map (\<lambda>part. case split_once 0x3D part of
            None \<Rightarrow> None
          | Some (name, encoded) \<Rightarrow> map_option (Pair name) (form_decode encoded))
       (split_all 0x26 body)"

lemma nibble_lt: "unat (drop_bit 4 b) < 16" "unat (b AND 15) < 16" for b :: byte
proof -
  show "unat (drop_bit 4 b) < 16"
    unfolding unat_drop_bit_eq unfolding drop_bit_eq_div
    using unsigned_less [of b, where 'a = nat] by simp
  have "b AND 15 \<le> 15" by (rule word_and_le1)
  then show "unat (b AND 15) < 16" by (simp add: word_le_nat_alt)
qed

lemma HEX_read: "n < 16 \<Longrightarrow> hex_value (HEX ! n) = Some (of_nat n)"
proof -
  have "\<forall>n \<in> set [0..<16]. hex_value (HEX ! n) = Some (of_nat n)" by code_simp
  then show "n < 16 \<Longrightarrow> ?thesis" by simp
qed

lemma HEX_plain: "n < 16 \<Longrightarrow> HEX ! n \<noteq> 0x26 \<and> HEX ! n \<noteq> 0x3D"
proof -
  have "\<forall>n \<in> set [0..<16]. HEX ! n \<noteq> 0x26 \<and> HEX ! n \<noteq> 0x3D" by code_simp
  then show "n < 16 \<Longrightarrow> ?thesis" by simp
qed

lemma nibbles: "push_bit 4 (drop_bit 4 b) OR (b AND 15) = b" for b :: byte
proof (rule bit_eqI)
  fix n
  assume "possible_bit TYPE(byte) n"
  then have "n < 8" by simp
  have "bit (15 :: byte) n \<longleftrightarrow> n < 4"
    using bit_mask_iff [of 4 n, where 'a = byte] by (auto simp: mask_eq_exp_minus_1)
  with \<open>n < 8\<close> show "bit (push_bit 4 (drop_bit 4 b) OR (b AND 15)) n = bit b n"
    by (auto simp: bit_or_iff bit_and_iff bit_push_bit_iff bit_drop_bit_eq not_le)
qed

lemma form_literal_plain:
  "form_literal b \<Longrightarrow> b \<noteq> 0x2B \<and> b \<noteq> 0x25 \<and> b \<noteq> 0x26 \<and> b \<noteq> 0x3D"
  by (auto simp: form_literal_def is_ascii_alphanumeric_def)

lemma form_encode_Cons:
  "form_encode (b # bs) =
     (if b = 0x20 then [0x2B] else if form_literal b then [b]
      else [0x25, HEX ! unat (drop_bit 4 b), HEX ! unat (b AND 15)]) @ form_encode bs"
  by (simp add: form_encode_def)

lemma form_decode_encode: "form_decode (form_encode bs) = Some bs"
proof (induction bs)
  case Nil
  show ?case by (simp add: form_encode_def)
next
  case (Cons b bs)
  then show ?case
    using form_literal_plain [of b]
    by (auto simp: form_encode_Cons HEX_read nibble_lt nibbles)
qed

lemma form_encode_plain: "0x26 \<notin> set (form_encode bs)" "0x3D \<notin> set (form_encode bs)"
  using HEX_plain nibble_lt by (induction bs) (auto simp: form_encode_Cons form_encode_def dest: form_literal_plain)

lemma length_form_encode: "length (form_encode bs) = sum_list (map form_width bs)"
  by (induction bs) (auto simp: form_encode_Cons form_width_def form_encode_def)

lemma checked_sum_eq:
  "acc < 2 ^ 64 \<Longrightarrow> checked_sum acc ns = (if acc + sum_list ns < 2 ^ 64 then Some (acc + sum_list ns) else None)"
  by (induction ns arbitrary: acc) auto

lemma form_fields_body_three:
  "form_fields_body (zip request_fields [c, s, a]) [] =
     ascii ''client_id='' @ form_encode c @ ascii ''&client_secret='' @ form_encode s @
     ascii ''&jwt_token='' @ form_encode a"
  by (simp add: request_fields_def)

lemma split_all_plain: "sep \<notin> set xs \<Longrightarrow> split_all sep xs = [xs]"
  by (induction xs) auto

lemma split_all_append:
  "sep \<notin> set xs \<Longrightarrow> split_all sep (xs @ sep # ys) = xs # split_all sep ys"
  by (induction xs) auto

lemma form_read_three:
  "form_read (form_fields_body (zip request_fields [c, s, a]) []) =
     [Some (ascii ''client_id'', c), Some (ascii ''client_secret'', s), Some (ascii ''jwt_token'', a)]"
proof -
  have once: "split_once 0x3D (name @ 0x3D # e) = Some (name, e)" if "0x3D \<notin> set name" for name e :: "byte list"
    using that by (induction name) auto
  have "split_all 0x26 (form_fields_body (zip request_fields [c, s, a]) []) =
      [ascii ''client_id'' @ 0x3D # form_encode c, ascii ''client_secret'' @ 0x3D # form_encode s,
       ascii ''jwt_token'' @ 0x3D # form_encode a]"
    using split_all_append [of "0x26" "ascii ''client_id'' @ 0x3D # form_encode c"
        "ascii ''client_secret='' @ form_encode s @ ascii ''&jwt_token='' @ form_encode a"]
      split_all_append [of "0x26" "ascii ''client_secret'' @ 0x3D # form_encode s"
        "ascii ''jwt_token='' @ form_encode a"]
      split_all_plain [of "0x26" "ascii ''jwt_token'' @ 0x3D # form_encode a"]
    by (simp add: form_fields_body_three form_encode_plain)
  moreover have "split_once 0x3D (ascii ''client_id'' @ 0x3D # form_encode c) = Some (ascii ''client_id'', form_encode c)"
    "split_once 0x3D (ascii ''client_secret'' @ 0x3D # form_encode s) = Some (ascii ''client_secret'', form_encode s)"
    "split_once 0x3D (ascii ''jwt_token'' @ 0x3D # form_encode a) = Some (ascii ''jwt_token'', form_encode a)"
    by (rule once; simp)+
  ultimately show ?thesis
    by (simp only: form_read_def list.map option.case prod.case form_decode_encode option.map)
qed

text \<open>C37: The form body spells exactly the credentials it was built from, whatever bytes they hold: it
  is built when the encoded fields fit the contract's bound and only then, the capacity reserved
  for it beforehand being its exact length, and reading it as a form gives the three fields back,
  so that no secret can forge or hide another field.\<close>

theorem form_body_spells_credentials:
  "build_form_body client client_secret assertion = Inr body \<longleftrightarrow>
     form_capacity [client, client_secret, assertion] = Some (length body) \<and> length body \<le> 25868 \<and>
     form_read body = [Some (ascii ''client_id'', client), Some (ascii ''client_secret'', client_secret),
       Some (ascii ''jwt_token'', assertion)] \<and>
     body = form_fields_body (zip request_fields [client, client_secret, assertion]) []"
proof -
  let ?body = "form_fields_body (zip request_fields [client, client_secret, assertion]) []"
  have cap: "form_capacity [client, client_secret, assertion] =
      (if length ?body < 2 ^ 64 then Some (length ?body) else None)"
    by (simp add: form_capacity_def checked_sum_eq request_fields_def form_encode_plain
        length_form_encode add_ac)
  have "as_u64_length n \<le> 25868 \<longleftrightarrow> n \<le> 25868" for n using as_u64_length_le [of 25868 n] by simp
  then have n: "as_u64_length n > 25868 \<longleftrightarrow> \<not> n \<le> 25868" for n by (metis not_le)
  show ?thesis
    using form_read_three [of client client_secret assertion]
    by (auto simp: build_form_body_def Let_def cap n profile_limits_def)
qed

section \<open>Which exchanges yield a token\<close>

abbreviation named_length :: "str \<times> str \<Rightarrow> nat" where
  "named_length f \<equiv> length (as_bytes (fst f)) + length (as_bytes (snd f))"

lemma charge_fields_Inr:
  assumes "charged \<le> 32768"
  shows "charge_fields charged fs = Inr () \<longleftrightarrow>
    list_all (\<lambda>f. named_length f \<le> 8192) fs \<and> unat charged + (\<Sum>f\<leftarrow>fs. named_length f + 3) \<le> 32768"
  using assms
proof (induction fs arbitrary: charged)
  case Nil
  then show ?case by (simp add: word_le_nat_alt)
next
  case (Cons f fs)
  show ?case
  proof (cases "named_length f \<le> 8192")
    case False
    then show ?thesis
      by (cases f) (auto simp: profile_limits_def Let_def word_less_nat_alt unat_of_nat simp del: of_nat_add)
  next
    case True
    let ?c = "charged + of_nat (named_length f) + 3"
    have u: "unat (of_nat (named_length f) :: u64) = named_length f"
      using True by (simp add: unat_of_nat del: of_nat_add)
    have c: "unat charged \<le> 32768" using Cons.prems by (simp add: word_le_nat_alt)
    have uc: "unat ?c = unat charged + named_length f + 3"
      using True c by (simp add: unat_word_ariths u del: of_nat_add)
    have add: "Option.bind (checked_add charged (of_nat (named_length f))) (\<lambda>t. checked_add t 3) = Some ?c"
      using True c by (simp add: checked_add_def unat_word_ariths u del: of_nat_add)
    have "charge_fields charged (f # fs) =
        (if ?c > 32768 then Inl ResponseHeadLimitExceeded else charge_fields ?c fs)"
      using True add u by (cases f) (simp add: profile_limits_def Let_def word_less_nat_alt del: of_nat_add)
    moreover have "?c > 32768 \<longleftrightarrow> unat charged + named_length f + 3 > 32768"
      using uc by (simp add: word_less_nat_alt del: of_nat_add)
    moreover have "charge_fields ?c fs = Inr () \<longleftrightarrow>
        list_all (\<lambda>f. named_length f \<le> 8192) fs \<and>
        unat charged + named_length f + 3 + (\<Sum>f\<leftarrow>fs. named_length f + 3) \<le> 32768" if "\<not> ?c > 32768"
      using Cons.IH [of ?c] that by (simp only: not_less uc)
    ultimately show ?thesis using True by auto
  qed
qed

definition head_within_bounds :: "(str \<times> str) list \<Rightarrow> bool" where
  "head_within_bounds fs \<longleftrightarrow> length fs \<le> 64 \<and> list_all (\<lambda>f. named_length f \<le> 8192) fs \<and>
     5 + (\<Sum>f\<leftarrow>fs. named_length f + 3) \<le> 32768"

lemma charge_head_Inr: "charge_head fs 5 = Inr () \<longleftrightarrow> head_within_bounds fs"
proof -
  have "as_u64_length n \<le> 64 \<longleftrightarrow> n \<le> 64" for n using as_u64_length_le [of 64 n] by simp
  then have n: "as_u64_length n > 64 \<longleftrightarrow> \<not> n \<le> 64" for n by (metis not_le)
  have l: "maximum_identity_management_response_header_count profile_limits = 64"
    by (simp add: profile_limits_def)
  show ?thesis
    using charge_fields_Inr [of 5 fs] by (auto simp: charge_head_def head_within_bounds_def n l)
qed

definition clean_response :: "decoded_response \<Rightarrow> bool" where
  "clean_response r \<longleftrightarrow>
     dr_informational r = [] \<and> dh_status (dr_head r) = 200 \<and> head_within_bounds (dh_fields (dr_head r)) \<and>
     length (dr_body r) \<le> 65536 \<and> dr_trailer r = None \<and>
     named_fields (dh_fields (dr_head r)) ''trailer'' = [] \<and>
     accept_media (dh_fields (dr_head r)) = Inr ()"

lemma refuse_trailers_Inr:
  "refuse_trailers r base = Inr () \<longleftrightarrow>
     dr_trailer r = None \<and> named_fields (dh_fields (dr_head r)) ''trailer'' = []"
  by (auto simp: refuse_trailers_def named_fields_def filter_empty_conv bindE_eq_Inr split: option.split)

lemma accept_response_Inr:
  "accept_response parse r = Inr d \<longleftrightarrow> clean_response r \<and> accept_document parse (dr_body r) = Inr d"
proof -
  have "as_u64_length n \<le> 65536 \<longleftrightarrow> n \<le> 65536" for n using as_u64_length_le [of 65536 n] by simp
  then have n: "as_u64_length n > 65536 \<longleftrightarrow> \<not> n \<le> 65536" for n by (metis not_le)
  have s: "(ucast w :: u64) = 200 \<longleftrightarrow> w = 200" for w :: u16
  proof -
    have "unat (ucast w :: u64) = unat w"
      using unsigned_less [of w, where 'a = nat] by (simp add: unsigned_ucast_eq take_bit_nat_eq_self)
    then show ?thesis by (simp add: word_unat_eq_iff)
  qed
  have r: "\<not> ((300::u16) \<le> 200 \<and> (200::u16) < 400)" by simp
  show ?thesis
    by (cases "dr_informational r")
      (auto simp: accept_response_def clean_response_def bindE_eq_Inr n s refuse_trailers_Inr
        charge_head_Inr profile_limits_def)
qed

lemma accept_document_Inr:
  "accept_document parse body = Inr d \<longleftrightarrow>
     (\<exists>document. parse body = Some document \<and> rdoc_token_type document = ''bearer'' \<and>
        length (rdoc_access_token document) \<in> {1..16384} \<and>
        list_all is_token_byte (rdoc_access_token document) \<and>
        unat (rdoc_expires_in document) \<in> {1..86400000} \<and>
        d = \<lparr>document_token = rdoc_access_token document,
             document_expires_in = rdoc_expires_in document\<rparr>)"
proof -
  have "as_u64_length n \<le> 16384 \<longleftrightarrow> n \<le> 16384" for n using as_u64_length_le [of 16384 n] by simp
  then have n: "as_u64_length n > 16384 \<longleftrightarrow> \<not> n \<le> 16384" for n by (metis not_le)
  have z: "as_u64_length n = 0 \<longleftrightarrow> n = 0" for n
    by (cases "n < 2 ^ 64") (auto simp: as_u64_length_def word_unat_eq_iff unat_of_nat
        unsigned_minus_1_eq_mask)
  have e: "\<not> (w = 0 \<or> w > 86400000) \<longleftrightarrow> unat w \<in> {1..86400000}" for w :: u64
    by (auto simp: word_less_nat_alt word_unat_eq_iff Suc_le_eq)
  show ?thesis
  proof (cases "parse body")
    case None
    then show ?thesis by (simp add: accept_document_def)
  next
    case (Some document)
    let ?n = "length (rdoc_access_token document)"
    have "\<not> (as_u64_length ?n = 0 \<or> as_u64_length ?n > 16384) \<longleftrightarrow> ?n \<in> {1..16384}"
      by (auto simp: n z Suc_le_eq)
    with Some e [of "rdoc_expires_in document"] show ?thesis
      by (auto simp: accept_document_def Let_def profile_limits_def eq_ignore_ascii_case_def
          split: if_splits)
  qed
qed

lemma install_document_Inr:
  "install_document d anchor receipt = Inr t \<longleftrightarrow>
     unat receipt + 360000 < unat anchor + unat (document_expires_in d) \<and>
     unat (token_deadline_milliseconds t) = unat anchor + unat (document_expires_in d) \<and>
     token_bytes t = document_token d"
proof (cases "checked_add anchor (document_expires_in d)")
  case None
  then have "unat w \<noteq> unat anchor + unat (document_expires_in d)" for w :: u64
    by (metis checked_add_Some_iff option.distinct(1))
  then show ?thesis using None by (simp add: install_document_def)
next
  case (Some deadline')
  then have u: "unat deadline' = unat anchor + unat (document_expires_in d)" by (rule checked_add_Some)
  have s: "checked_add 300000 60000 = Some (360000 :: u64)" by (simp add: checked_add_Some_iff)
  have "install_document d anchor receipt = Inr t \<longleftrightarrow>
      unat receipt + 360000 < unat deadline' \<and>
      t = \<lparr>token_bytes = document_token d, token_deadline_milliseconds = deadline'\<rparr>"
    using Some s
    by (auto simp: install_document_def profile_limits_def checked_sub_def unat_sub word_le_nat_alt
        split: option.split)
  then show ?thesis
    by (cases t) (auto simp: u [symmetric] word_unat_eq_iff)
qed

text \<open>The grammar the contract gives a token, \<open>[A-Za-z0-9._~+/-]+=*\<close>, and tokens whose padding stands
  where the grammar has it, after some other octet.\<close>

definition unpadded :: "byte list \<Rightarrow> byte list" where
  "unpadded bs = rev (dropWhile (\<lambda>b. b = 0x3D) (rev bs))"

definition token_grammar :: "byte list \<Rightarrow> bool" where
  "token_grammar bs \<longleftrightarrow> unpadded bs \<noteq> [] \<and>
     list_all (\<lambda>b. is_ascii_alphanumeric b \<or> b \<in> set (ascii ''._~+/-'')) (unpadded bs)"

definition padding_trails :: "byte list \<Rightarrow> bool" where
  "padding_trails bs \<longleftrightarrow> bs = [] \<or> unpadded bs \<noteq> [] \<and> 0x3D \<notin> set (unpadded bs)"

lemma list_all_unpadded: "P 0x3D \<Longrightarrow> list_all P (unpadded bs) \<longleftrightarrow> list_all P bs"
proof -
  assume p: "P 0x3D"
  have "list_all P (dropWhile (\<lambda>b. b = 0x3D) xs) \<longleftrightarrow> list_all P xs" for xs
    by (induction xs) (use p in auto)
  then show ?thesis by (metis unpadded_def list_all_rev rev_rev_ident)
qed

lemma token_bytes_iff_grammar:
  assumes "padding_trails bs" "bs \<noteq> []"
  shows "list_all is_token_byte bs \<longleftrightarrow> token_grammar bs"
proof -
  have eq: "is_token_byte 0x3D" by (simp add: is_token_byte_def)
  have "is_token_byte b \<longleftrightarrow> is_ascii_alphanumeric b \<or> b \<in> set (ascii ''._~+/-'')" if "b \<noteq> 0x3D" for b
    using that by (auto simp: is_token_byte_def)
  then have "list_all is_token_byte (unpadded bs) \<longleftrightarrow> token_grammar bs"
    using assms unfolding padding_trails_def token_grammar_def list_all_iff by metis
  then show ?thesis using list_all_unpadded [of is_token_byte bs, OF eq] by simp
qed

lemma exchange_yields_token_bytes:
  "(exchange_assertion parse transport anchor receipt client client_secret assertion = Inr t \<longleftrightarrow>
     (\<exists>body response document.
        build_form_body client client_secret assertion = Inr body \<and> transport body = Inr response \<and>
        clean_response response \<and> parse (dr_body response) = Some document \<and>
        rdoc_token_type document = ''bearer'' \<and>
        length (rdoc_access_token document) \<in> {1..16384} \<and>
        list_all is_token_byte (rdoc_access_token document) \<and>
        unat (rdoc_expires_in document) \<in> {1..86400000} \<and>
        unat receipt + 360000 < unat anchor + unat (rdoc_expires_in document) \<and>
        unat (token_deadline_milliseconds t) = unat anchor + unat (rdoc_expires_in document) \<and>
        token_bytes t = rdoc_access_token document)) \<and>
   (refresh_required t reading \<longleftrightarrow> unat (token_deadline_milliseconds t) \<le> unat reading + 300000)"
proof -
  have r: "refresh_required t reading \<longleftrightarrow> unat (token_deadline_milliseconds t) \<le> unat reading + 300000"
    by (auto simp: refresh_required_def profile_limits_def word_le_nat_alt)
  have "exchange_assertion parse transport anchor receipt client client_secret assertion = Inr t \<longleftrightarrow>
      (\<exists>body response d. build_form_body client client_secret assertion = Inr body \<and>
         transport body = Inr response \<and> clean_response response \<and>
         accept_document parse (dr_body response) = Inr d \<and> install_document d anchor receipt = Inr t)"
    by (auto simp: exchange_assertion_def bindE_eq_Inr accept_response_Inr)
  then show ?thesis
    unfolding accept_document_Inr install_document_Inr using r by fastforce
qed

text \<open>C36: Exactly which exchanges yield a token, and for how long it may be used.  The response must be
  final and clean - no informational head, status 200, a head and a body within bounds, no trailer,
  the one media type - its document must declare a bearer token that is spelled by the contract's
  grammar and a lifetime within bounds, and more than the refresh skew and the minimum lease must be
  left when it has been received, counting from the moment before the request was sent; the token is
  then fresh until the skew before that deadline, at least a minute beyond the receipt.  This is
  claimed of responses whose token, if it has padding at all, has it behind its other octets.\<close>

theorem exchange_yields_iff:
  assumes "\<And>body response document.
    build_form_body client client_secret assertion = Inr body \<Longrightarrow> transport body = Inr response \<Longrightarrow>
    parse (dr_body response) = Some document \<Longrightarrow> padding_trails (rdoc_access_token document)"
  shows
  "(exchange_assertion parse transport anchor receipt client client_secret assertion = Inr t \<longleftrightarrow>
     (\<exists>body response document.
        build_form_body client client_secret assertion = Inr body \<and> transport body = Inr response \<and>
        clean_response response \<and> parse (dr_body response) = Some document \<and>
        rdoc_token_type document = ''bearer'' \<and>
        length (rdoc_access_token document) \<le> 16384 \<and> token_grammar (rdoc_access_token document) \<and>
        unat (rdoc_expires_in document) \<in> {1..86400000} \<and>
        unat receipt + 360000 < unat anchor + unat (rdoc_expires_in document) \<and>
        unat (token_deadline_milliseconds t) = unat anchor + unat (rdoc_expires_in document) \<and>
        token_bytes t = rdoc_access_token document)) \<and>
   (refresh_required t reading \<longleftrightarrow> unat (token_deadline_milliseconds t) \<le> unat reading + 300000)"
proof -
  have "length bs \<in> {1..16384} \<and> list_all is_token_byte bs \<longleftrightarrow> length bs \<le> 16384 \<and> token_grammar bs"
    if "padding_trails bs" for bs
    using token_bytes_iff_grammar [OF that]
    by (cases bs) (auto simp: token_grammar_def unpadded_def)
  then show ?thesis
    using exchange_yields_token_bytes [of parse transport anchor receipt client client_secret assertion t
        reading] assms
    by blast
qed

definition issued :: decoded_response where
  "issued = \<lparr>dr_informational = [],
     dr_head = \<lparr>dh_status = 200, dh_fields = [(text_of ''content-type'', text_of ''application/json'')]\<rparr>,
     dr_body = [], dr_trailer = None\<rparr>"

definition issued_document :: response_document where
  "issued_document = \<lparr>rdoc_access_token = ascii ''ab=='', rdoc_token_type = ''bearer'',
     rdoc_expires_in = 3600000\<rparr>"

lemma issued_clean: "clean_response issued"
proof -
  let ?f = "[(text_of ''content-type'', text_of ''application/json'')]"
  have "head_within_bounds ?f"
    by (simp add: head_within_bounds_def as_bytes_def encode_utf8_def text_of_def)
  moreover have "named_fields ?f ''trailer'' = []" "named_fields ?f ''content-encoding'' = []"
    "named_fields ?f ''content-type'' = [text_of ''application/json'']"
    by (simp_all add: named_fields_def same_ignoring_case_def text_of_def to_ascii_lowercase_def)
  moreover have "trim (text_of ''application/json'') = text_of ''application/json''"
    by (simp add: trim_def text_of_def is_whitespace_def)
  moreover have "split_all 0x3B (text_of ''application/json'') = [text_of ''application/json'']"
    by (simp add: split_all_plain text_of_def)
  moreover have "same_ignoring_case (text_of ''application/json'') ''application/json''"
    by (simp add: same_ignoring_case_def text_of_def)
  ultimately show ?thesis by (simp add: clean_response_def issued_def accept_media_def)
qed

theorem exchange_yields_iff_witness:
  "exchange_assertion (\<lambda>_. Some issued_document) (\<lambda>_. Inr issued) 1000 2000 (ascii ''c'') (ascii ''s'')
     (ascii ''j'') = Inr \<lparr>token_bytes = ascii ''ab=='', token_deadline_milliseconds = 3601000\<rparr>"
proof -
  have "\<exists>body. build_form_body (ascii ''c'') (ascii ''s'') (ascii ''j'') = Inr body"
  proof -
    have "is_ok (build_form_body (ascii ''c'') (ascii ''s'') (ascii ''j''))"
      by (simp add: build_form_body_def form_capacity_def request_fields_def form_width_def form_literal_def
          is_ascii_alphanumeric_def form_encode_def as_u64_length_def profile_limits_def)
    then show ?thesis by (cases "build_form_body (ascii ''c'') (ascii ''s'') (ascii ''j'')") auto
  qed
  then show ?thesis
    by (subst exchange_yields_iff [THEN conjunct1])
      (auto simp: issued_document_def issued_clean padding_trails_def unpadded_def token_grammar_def
        is_ascii_alphanumeric_def)
qed

text \<open>The padding character is taken anywhere in a token.\<close>

lemma padding_first_is_taken: "list_all is_token_byte (ascii ''=a'')"
  by (simp add: is_token_byte_def is_ascii_alphanumeric_def)

section \<open>Histories of the cache\<close>

datatype cache_call = UseToken u64 | Unauthorized access_token_lease

type_synonym lent = "exchange_failure + (access_token \<times> access_token_lease)"

fun cache_step ::
  "'x token_source \<Rightarrow> cache_call \<Rightarrow> token_cache \<Rightarrow> 'x \<Rightarrow> token_cache \<times> 'x \<times> lent" where
  "cache_step source (UseToken reading) st x = token reading source st x"
| "cache_step source (Unauthorized lease) st x = refresh_after_unauthorized lease source st x"

fun cache_run ::
  "'x token_source \<Rightarrow> cache_call list \<Rightarrow> token_cache \<Rightarrow> 'x \<Rightarrow> token_cache \<times> 'x \<times> lent list" where
  "cache_run source [] st x = (st, x, [])"
| "cache_run source (c # cs) st x =
     (case cache_step source c st x of
        (st', x', answer) \<Rightarrow>
          (case cache_run source cs st' x' of (st'', x'', answers) \<Rightarrow> (st'', x'', answer # answers)))"

text \<open>A source that writes down every token it has produced.\<close>

definition recording :: "'x token_source \<Rightarrow> ('x \<times> access_token list) token_source" where
  "recording source = (\<lambda>(x, produced).
     (case source x of
        (x', Inl failure) \<Rightarrow> ((x', produced), Inl failure)
      | (x', Inr replacement) \<Rightarrow> ((x', produced @ [replacement]), Inr replacement)))"

text \<open>What the cache holds of the tokens that were produced: the generation counts them up to the
  largest number, and a usable cache holds the token of its generation.\<close>

definition cache_holds :: "token_cache \<Rightarrow> access_token list \<Rightarrow> bool" where
  "cache_holds st produced \<longleftrightarrow>
     unat (cache_generation st) = min (length produced) (2 ^ 64 - 1) \<and>
     (cache_usable st \<longrightarrow>
        produced \<noteq> [] \<and> installed st = Some (produced ! (unat (cache_generation st) - 1)))"

definition lent_of :: "byte list \<Rightarrow> access_token list \<Rightarrow> lent \<Rightarrow> bool" where
  "lent_of identity produced answer \<longleftrightarrow>
     (case answer of
        Inl _ \<Rightarrow> True
      | Inr (tok, lease) \<Rightarrow>
          lease_identity lease = identity \<and>
          unat (lease_generation lease) \<in> {1..length produced} \<and>
          tok = produced ! (unat (lease_generation lease) - 1))"

lemma lent_of_grows: "lent_of identity produced answer \<Longrightarrow> lent_of identity (produced @ newer) answer"
  by (auto simp: lent_of_def nth_append split: sum.splits)

lemma cache_holds_generation:
  "cache_holds st produced \<Longrightarrow> unat (cache_generation st) \<le> length produced"
  by (simp add: cache_holds_def)

lemma lend_usable:
  assumes "cache_holds st produced" "cache_usable st" "lend st = a"
  shows "lent_of (cache_identity st) produced a"
proof -
  have "1 \<le> min (length produced) (2 ^ 64 - 1)" using assms(1,2) by (simp add: cache_holds_def Suc_le_eq)
  then show ?thesis
    using assms by (auto simp: cache_holds_def lend_def lent_of_def)
qed

lemma install_then_lend_recording:
  assumes h: "cache_holds st produced"
    and i: "install_then_lend (recording source) st (x, produced) = (st', (x', produced'), a)"
  shows "\<exists>newer. produced' = produced @ newer \<and> cache_holds st' produced' \<and>
    lent_of (cache_identity st) produced' a \<and> cache_identity st' = cache_identity st"
proof (cases "source x")
  case (Pair y r)
  show ?thesis
  proof (cases r)
    case (Inl failure)
    then show ?thesis
      using Pair h i by (auto simp: install_then_lend_def cache_install_def recording_def lent_of_def)
  next
    case (Inr tok)
    show ?thesis
    proof (cases "checked_add (cache_generation st) 1")
      case None
      then have full: "unat (cache_generation st) = 2 ^ 64 - 1"
        using unsigned_less [of "cache_generation st", where 'a = nat]
        by (auto simp: checked_add_def split: if_splits)
      then have "cache_holds st (produced @ [tok])"
        using h by (auto simp: cache_holds_def nth_append)
      then show ?thesis
        using Pair Inr None i
        by (auto simp: install_then_lend_def cache_install_def recording_def lent_of_def)
    next
      case (Some g)
      let ?st = "st\<lparr>cache_generation := g, installed := Some tok, cache_usable := True\<rparr>"
      have u: "unat g = Suc (unat (cache_generation st))" using checked_add_Some [OF Some] by simp
      moreover have "unat g \<le> 2 ^ 64 - 1" using unsigned_less [of g, where 'a = nat] by simp
      ultimately have len: "unat (cache_generation st) = length produced"
        using h by (simp add: cache_holds_def min_def split: if_splits)
      then have c: "cache_holds ?st (produced @ [tok])"
        using u unsigned_less [of g, where 'a = nat] by (simp add: cache_holds_def)
      have "st' = ?st" "produced' = produced @ [tok]" "a = lend ?st"
        using Pair Inr Some i by (auto simp: install_then_lend_def cache_install_def recording_def)
      then show ?thesis using c lend_usable [OF c _ refl] by simp
    qed
  qed
qed

lemma refresh_cases:
  "refresh_after_unauthorized lease source st x =
     (if lease_identity lease \<noteq> cache_identity st then (st, x, Inl AuthenticationTargetMismatch)
      else if lease_generation lease = cache_generation st \<and> cache_usable st
      then install_then_lend source
        (st\<lparr>cache_usable := False, installed := map_option scrub (installed st)\<rparr>) x
      else if \<not> cache_usable st then install_then_lend source st x
      else (st, x, lend st))"
  by (simp add: refresh_after_unauthorized_def Let_def)

lemma cache_step_recording:
  assumes h: "cache_holds st produced"
    and i: "cache_step (recording source) c st (x, produced) = (st', (x', produced'), a)"
  shows "\<exists>newer. produced' = produced @ newer \<and> cache_holds st' produced' \<and>
    lent_of (cache_identity st) produced' a \<and> cache_identity st' = cache_identity st"
proof (cases c)
  case (UseToken reading)
  then consider "install_then_lend (recording source) st (x, produced) = (st', (x', produced'), a)"
    | "cache_usable st" "(st, (x, produced), lend st) = (st', (x', produced'), a)"
    using i by (auto simp: token_def Let_def split: if_splits option.splits)
  then show ?thesis
  proof cases
    case 1
    then show ?thesis by (rule install_then_lend_recording [OF h])
  next
    case 2
    then show ?thesis using h lend_usable [OF h 2(1) refl] by auto
  qed
next
  case (Unauthorized lease)
  let ?st = "st\<lparr>cache_usable := False, installed := map_option scrub (installed st)\<rparr>"
  have h': "cache_holds ?st produced" using h by (simp add: cache_holds_def)
  from Unauthorized i consider "(st, (x, produced), Inl AuthenticationTargetMismatch) = (st', (x', produced'), a)"
    | "install_then_lend (recording source) ?st (x, produced) = (st', (x', produced'), a)"
    | "install_then_lend (recording source) st (x, produced) = (st', (x', produced'), a)"
    | "cache_usable st" "(st, (x, produced), lend st) = (st', (x', produced'), a)"
    by (simp only: cache_step.simps refresh_cases split: if_splits)
  then show ?thesis
  proof cases
    case 1
    then show ?thesis using h by (auto simp: lent_of_def)
  next
    case 2
    then show ?thesis using install_then_lend_recording [OF h' 2] by simp
  next
    case 3
    then show ?thesis using install_then_lend_recording [OF h 3] by simp
  next
    case 4
    then show ?thesis using h lend_usable [OF h 4(1) refl] by auto
  qed
qed

lemma cache_run_recording:
  "cache_holds st produced \<Longrightarrow>
   cache_run (recording source) cs st (x, produced) = (st', (x', produced'), as) \<Longrightarrow>
   (\<exists>newer. produced' = produced @ newer) \<and> cache_holds st' produced' \<and>
   list_all (lent_of (cache_identity st) produced') as \<and> cache_identity st' = cache_identity st"
proof (induction cs arbitrary: st x produced as)
  case (Cons c cs)
  obtain st1 y p1 a where one: "cache_step (recording source) c st (x, produced) = (st1, (y, p1), a)"
    by (metis prod.exhaust)
  obtain st2 z p2 bs where rest: "cache_run (recording source) cs st1 (y, p1) = (st2, (z, p2), bs)"
    by (metis prod.exhaust)
  note h = cache_step_recording [OF Cons.prems(1) one]
  have eq: "st' = st2" "x' = z" "produced' = p2" "as = a # bs" using Cons.prems(2) one rest by auto
  have r: "(\<exists>newer. p2 = p1 @ newer) \<and> cache_holds st2 p2 \<and>
      list_all (lent_of (cache_identity st1) p2) bs \<and> cache_identity st2 = cache_identity st1"
    using Cons.IH [of st1 p1 y bs] h rest eq by auto
  then have "lent_of (cache_identity st) p2 a" using h lent_of_grows by blast
  then show ?case using h r eq by auto
qed simp

text \<open>C19: A lease names one token for good.  Whatever callers ask in whatever order, with whatever
  answers and failures of the source between them, every token that is lent is the one produced
  as the generation its lease names, so that two callers with one lease were given one token and
  no scrubbed or superseded token is ever lent; the generation counts the tokens produced and
  stops at its largest value instead of wrapping.\<close>

theorem lease_names_one_token:
  "case cache_run (recording source) calls (cache_with_identity identity) (x, []) of
     (st, (x', produced), answers) \<Rightarrow>
       unat (cache_generation st) = min (length produced) (2 ^ 64 - 1) \<and>
       list_all (lent_of (cache_identity (cache_with_identity identity)) produced) answers"
proof -
  obtain st x' produced answers where
    r: "cache_run (recording source) calls (cache_with_identity identity) (x, []) = (st, (x', produced), answers)"
    by (metis prod.exhaust)
  have "cache_holds (cache_with_identity identity) []"
    by (simp add: cache_holds_def cache_with_identity_def)
  from cache_run_recording [OF this r] r show ?thesis by (simp add: cache_holds_def)
qed

text \<open>C18: Callers that were refused together share one exchange.  However many callers come back with
  the lease of the current generation after an unauthorized answer, the source is asked once; all
  of them are given the token it produced under one new lease, and none evicts it.\<close>

theorem refusals_share_one_exchange:
  assumes "cache_usable st" and "source x = (x', Inr tok)" and "cache_generation st \<noteq> - 1"
  shows "cache_run source
      (replicate (Suc n) (Unauthorized \<lparr>lease_identity = cache_identity st,
         lease_generation = cache_generation st\<rparr>)) st x =
    (st\<lparr>cache_generation := cache_generation st + 1, installed := Some tok\<rparr>, x',
     replicate (Suc n) (Inr (tok, \<lparr>lease_identity = cache_identity st,
       lease_generation = cache_generation st + 1\<rparr>)))"
proof -
  let ?l = "\<lparr>lease_identity = cache_identity st, lease_generation = cache_generation st\<rparr>"
  let ?st = "st\<lparr>cache_generation := cache_generation st + 1, installed := Some tok\<rparr>"
  let ?a = "Inr (tok, \<lparr>lease_identity = cache_identity st, lease_generation = cache_generation st + 1\<rparr>)"
  have "checked_add (cache_generation st) 1 = Some (cache_generation st + 1)"
    using assms(3) unatSuc [of "cache_generation st"]
    by (simp add: checked_add_Some_iff add.commute eq_neg_iff_add_eq_0)
  then have first: "cache_step source (Unauthorized ?l) st x = (?st, x', ?a)"
    using assms(1,2)
    by (cases st) (simp add: refresh_after_unauthorized_def Let_def install_then_lend_def cache_install_def lend_def)
  have again: "cache_step source (Unauthorized ?l) ?st y = (?st, y, ?a)" for y
    using assms(1) by (simp add: refresh_after_unauthorized_def Let_def lend_def)
  have "cache_run source (replicate n (Unauthorized ?l)) ?st y = (?st, y, replicate n ?a)" for n y
    by (induction n) (simp_all only: replicate.simps cache_run.simps again prod.case)
  then show ?thesis by (simp only: replicate.simps cache_run.simps first prod.case)
qed

definition sample_cache :: token_cache where
  "sample_cache = (cache_with_identity 7)\<lparr>cache_generation := 3, cache_usable := True,
     installed := Some \<lparr>token_bytes = [0x61], token_deadline_milliseconds = 9\<rparr>\<rparr>"

theorem refusals_share_one_exchange_witness:
  "fst (snd (cache_run
     (\<lambda>n. (n + 1, Inr \<lparr>token_bytes = [0x62], token_deadline_milliseconds = 99\<rparr>))
     (replicate (Suc 4) (Unauthorized \<lparr>lease_identity = cache_identity sample_cache,
        lease_generation = cache_generation sample_cache\<rparr>)) sample_cache (0::nat))) = 1"
proof -
  have "cache_usable sample_cache" "cache_generation sample_cache \<noteq> - 1"
    by (simp_all add: sample_cache_def)
  from refusals_share_one_exchange [where source = "\<lambda>n. (n + 1, Inr \<lparr>token_bytes = [0x62],
      token_deadline_milliseconds = 99\<rparr>)" and x = "0::nat" and n = 4, OF this(1) refl this(2)]
  show ?thesis by simp
qed

end
