(* ===== verification/Discovery.thy ===== *)
theory Discovery
  imports Stream_Recovery
begin

text \<open>
  What a discovery command may ask for and spend: the result window of
  \<open>slingshot-domain/src/command/result_window.rs\<close>, the budgets and the page of
  \<open>discovery_budget.rs\<close>, over the limits of \<open>command_identity.rs\<close>.  The manifest's limits are written
  out; the JSON library hands over the members of a window, the clock and the cancellation are
  arguments.

  The theorems show that exactly the well-formed windows are read and that each is read back as it
  was written, that a job never spends more than its budget, and that paging through an
  enumeration ends and delivers every match once.
\<close>

section \<open>The command contract's limits\<close>

definition command_limits :: "(string \<times> u64) list" where
  "command_limits = [
    (''continuation_token_lifetime_milliseconds'', 900000),
    (''default_load_depth'', 2),
    (''default_result_limit'', 100),
    (''maximum_adjusted_references'', 100000),
    (''maximum_agent_inline_loaded_document_bytes'', 262144),
    (''maximum_artifact_identifier_bytes'', 128),
    (''maximum_artifact_media_type_bytes'', 128),
    (''maximum_artifact_slot_bytes'', 64),
    (''maximum_artifact_suggested_file_name_bytes'', 255),
    (''maximum_asset_byte_length'', 9223372036854775807),
    (''maximum_asset_reference_paths'', 128),
    (''maximum_asset_tag_bytes'', 512),
    (''maximum_authorizable_disabled_reason_bytes'', 1024),
    (''maximum_authorizable_identifier_bytes'', 255),
    (''maximum_authorizable_intermediate_path_bytes'', 1024),
    (''maximum_bundle_states'', 8),
    (''maximum_bundle_symbolic_name_bytes'', 512),
    (''maximum_bundle_version_bytes'', 128),
    (''maximum_command_argument_bytes'', 1048576),
    (''maximum_command_description_bytes'', 1024),
    (''maximum_command_failure_categories'', 32),
    (''maximum_command_result_bytes'', 1048576),
    (''maximum_command_schema_bytes'', 1048576),
    (''maximum_command_schema_manifest_bytes'', 1048576),
    (''maximum_command_semantic_contract_version_bytes'', 64),
    (''maximum_command_semantic_contract_version_identifiers'', 16),
    (''maximum_command_semantic_contract_version_numeric_digits'', 10),
    (''maximum_command_title_bytes'', 160),
    (''maximum_command_wire_name_bytes'', 96),
    (''maximum_component_name_bytes'', 128),
    (''maximum_component_resource_type_bytes'', 1024),
    (''maximum_component_resource_type_segments'', 64),
    (''maximum_component_states'', 8),
    (''maximum_configuration_lookup_duration_milliseconds'', 5000),
    (''maximum_configuration_lookup_filter_bytes'', 2064),
    (''maximum_configuration_lookup_matches'', 2),
    (''maximum_configuration_persistent_identifier_bytes'', 1024),
    (''maximum_configuration_property_key_bytes'', 1024),
    (''maximum_configuration_scalar_string_bytes'', 65536),
    (''maximum_configuration_sequence_canonical_bytes'', 524288),
    (''maximum_configuration_sequence_items'', 4096),
    (''maximum_content_fragment_element_name_bytes'', 255),
    (''maximum_content_fragment_element_values'', 256),
    (''maximum_content_fragment_elements'', 256),
    (''maximum_content_fragment_variation_name_bytes'', 255),
    (''maximum_continuation_key_identifier_bytes'', 128),
    (''maximum_continuation_resume_key_canonical_bytes'', 8192),
    (''maximum_continuation_token_bytes'', 16384),
    (''maximum_continuation_token_clock_skew_milliseconds'', 60000),
    (''maximum_date_time_fraction_digits'', 3),
    (''maximum_decimal_bytes'', 2050),
    (''maximum_decimal_fraction_digits'', 1024),
    (''maximum_decimal_integer_digits'', 1024),
    (''maximum_declarative_service_component_name_bytes'', 512),
    (''maximum_deleted_nodes'', 100000),
    (''maximum_discovery_candidate_nodes'', 100000),
    (''maximum_discovery_criterion_evaluations'', 2000000),
    (''maximum_discovery_execution_duration_milliseconds'', 30000),
    (''maximum_discovery_property_bytes'', 67108864),
    (''maximum_discovery_property_values'', 1000000),
    (''maximum_discovery_result_bytes'', 1048576),
    (''maximum_experience_fragment_variation_name_bytes'', 255),
    (''maximum_inline_binary_decoded_bytes'', 524288),
    (''maximum_inline_binary_encoded_bytes'', 699052),
    (''maximum_inline_binary_media_type_bytes'', 128),
    (''maximum_inspected_configuration_properties'', 512),
    (''maximum_inspected_configuration_result_bytes'', 1048576),
    (''maximum_load_depth'', 32),
    (''maximum_load_document_bytes'', 16777216),
    (''maximum_load_property_bytes'', 67108864),
    (''maximum_load_property_values'', 1000000),
    (''maximum_load_resource_nodes'', 50000),
    (''maximum_load_traversal_duration_milliseconds'', 30000),
    (''maximum_loaded_content_artifact_bytes'', 16777216),
    (''maximum_media_format_bytes'', 255),
    (''maximum_mutation_properties'', 256),
    (''maximum_mutation_success_result_bytes'', 16384),
    (''maximum_operational_candidate_records'', 100000),
    (''maximum_operational_inspection_result_bytes'', 262144),
    (''maximum_operational_listing_result_bytes'', 1048576),
    (''maximum_package_archive_entries'', 1000000),
    (''maximum_package_candidate_paths'', 100000),
    (''maximum_package_exclusion_expressions'', 256),
    (''maximum_package_filter_document_bytes'', 16777216),
    (''maximum_package_inclusion_expressions'', 256),
    (''maximum_package_manifest_bytes'', 16777216),
    (''maximum_package_matcher_cells'', 66049),
    (''maximum_package_name_bytes'', 128),
    (''maximum_package_output_bytes'', 536870912),
    (''maximum_package_pattern_evaluations'', 10000000),
    (''maximum_package_roots'', 64),
    (''maximum_package_selected_paths'', 100000),
    (''maximum_package_selection_expression_bytes'', 4096),
    (''maximum_package_selection_expression_tokens'', 256),
    (''maximum_package_suggested_file_name_bytes'', 132),
    (''maximum_package_uncompressed_input_bytes'', 1073741824),
    (''maximum_page_name_bytes'', 128),
    (''maximum_page_title_bytes'', 1024),
    (''maximum_primary_node_type_name_bytes'', 255),
    (''maximum_property_name_bytes'', 255),
    (''maximum_property_predicate_values'', 256),
    (''maximum_property_predicates'', 64),
    (''maximum_property_string_bytes'', 65536),
    (''maximum_property_value_items'', 1024),
    (''maximum_relative_property_path_bytes'', 4095),
    (''maximum_removed_property_names'', 256),
    (''maximum_rendition_name_bytes'', 255),
    (''maximum_replication_admission_duration_milliseconds'', 60000),
    (''maximum_replication_agent_identifier_bytes'', 128),
    (''maximum_replication_candidate_paths'', 10000),
    (''maximum_replication_queue_entries'', 100000),
    (''maximum_replication_queue_entry_identifier_bytes'', 256),
    (''maximum_replication_result_bytes'', 16384),
    (''maximum_replication_traversal_duration_milliseconds'', 30000),
    (''maximum_repository_name_bytes'', 255),
    (''maximum_repository_path_bytes'', 4096),
    (''maximum_repository_path_segments'', 256),
    (''maximum_repository_property_path_bytes'', 4096),
    (''maximum_repository_reference_bytes'', 512),
    (''maximum_repository_relative_path_bytes'', 4095),
    (''maximum_repository_uniform_resource_identifier_bytes'', 4096),
    (''maximum_request_address_bytes'', 4096),
    (''maximum_requested_asset_tags'', 256),
    (''maximum_requested_component_resource_types'', 256),
    (''maximum_requested_media_formats'', 256),
    (''maximum_resolution_trace_entries'', 64),
    (''maximum_resource_mapping_pattern_bytes'', 2048),
    (''maximum_resource_mapping_replacements'', 16),
    (''maximum_result_limit'', 1000),
    (''maximum_result_offset'', 1000000),
    (''maximum_same_name_sibling_index'', 2147483647),
    (''maximum_search_phrase_bytes'', 4096),
    (''maximum_sling_job_identifier_bytes'', 256),
    (''maximum_sling_job_property_keys'', 512),
    (''maximum_sling_job_queue_name_bytes'', 255),
    (''maximum_sling_job_states'', 8),
    (''maximum_sling_job_topic_bytes'', 512),
    (''maximum_work_item_identifier_bytes'', 1024),
    (''maximum_workflow_comment_bytes'', 4096),
    (''maximum_workflow_instance_identifier_bytes'', 1024),
    (''maximum_workflow_instance_states'', 8),
    (''maximum_workflow_metadata_entries'', 64),
    (''maximum_workflow_model_identifier_bytes'', 1024),
    (''maximum_workflow_work_items'', 256)]"

text \<open>Reading a limit the manifest does not declare panics.\<close>

definition command_limit :: "string \<Rightarrow> u64 option" where
  "command_limit name = map_of command_limits name"

definition named_limit :: "string \<Rightarrow> u64" where
  "named_limit name = the (command_limit name)"

definition INITIAL_MODE :: string where "INITIAL_MODE = ''initial''"
definition CONTINUATION_MODE :: string where "CONTINUATION_MODE = ''continuation''"
definition DEFAULT_RESULT_OFFSET :: u64 where "DEFAULT_RESULT_OFFSET = 0"

definition default_result_limit :: u64 where
  "default_result_limit = named_limit ''default_result_limit''"
definition maximum_result_limit :: u64 where
  "maximum_result_limit = named_limit ''maximum_result_limit''"
definition maximum_result_offset :: u64 where
  "maximum_result_offset = named_limit ''maximum_result_offset''"
definition maximum_continuation_token_bytes :: u64 where
  "maximum_continuation_token_bytes = named_limit ''maximum_continuation_token_bytes''"

section \<open>The result window\<close>

datatype window_failure =
    UnknownMode
  | LimitZero
  | LimitAboveMaximum
  | OffsetAboveMaximum
  | InitialIncomplete
  | ContinuationNotAlone
  | ContinuationIncomplete
  | TokenEmpty
  | TokenControlCharacter
  | TokenTooLong

datatype result_offset = ResultOffset u64
datatype result_limit = ResultLimit u64
datatype continuation_token = ContinuationToken str

definition offset_beginning :: result_offset where
  "offset_beginning = ResultOffset DEFAULT_RESULT_OFFSET"

definition offset_new :: "u64 \<Rightarrow> window_failure + result_offset" where
  "offset_new n =
     (if n > maximum_result_offset then Inl OffsetAboveMaximum else Inr (ResultOffset n))"

definition limit_default :: result_limit where
  "limit_default = ResultLimit default_result_limit"

definition limit_new :: "u64 \<Rightarrow> window_failure + result_limit" where
  "limit_new n =
     (if n = 0 then Inl LimitZero
      else if n > maximum_result_limit then Inl LimitAboveMaximum else Inr (ResultLimit n))"

definition continuation_token_new :: "str \<Rightarrow> window_failure + continuation_token" where
  "continuation_token_new spelled =
     (if spelled = [] then Inl TokenEmpty
      else if list_ex is_control spelled then Inl TokenControlCharacter
      else if as_u64_length (length (as_bytes spelled)) > maximum_continuation_token_bytes
      then Inl TokenTooLong
      else Inr (ContinuationToken spelled))"

datatype result_window = Initial result_offset result_limit | Continuation continuation_token

definition window_omitted :: result_window where
  "window_omitted = Initial offset_beginning limit_default"

definition window_initial :: "u64 \<Rightarrow> u64 \<Rightarrow> window_failure + result_window" where
  "window_initial offset' limit' =
     bindE (offset_new offset') (\<lambda>o'. bindE (limit_new limit') (\<lambda>l. Inr (Initial o' l)))"

definition window_continuation :: "str \<Rightarrow> window_failure + result_window" where
  "window_continuation spelled =
     bindE (continuation_token_new spelled) (\<lambda>t. Inr (Continuation t))"

record window_document =
  wd_mode :: string
  wd_offset :: "u64 option"
  wd_limit :: "u64 option"
  wd_continuation_token :: "str option"

definition accept_initial :: "window_document \<Rightarrow> window_failure + result_window" where
  "accept_initial document =
     (if wd_continuation_token document \<noteq> None then Inl ContinuationNotAlone
      else (case (wd_offset document, wd_limit document) of
              (Some offset', Some limit') \<Rightarrow> window_initial offset' limit'
            | _ \<Rightarrow> Inl InitialIncomplete))"

definition accept_continuation :: "window_document \<Rightarrow> window_failure + result_window" where
  "accept_continuation document =
     (if wd_offset document \<noteq> None \<or> wd_limit document \<noteq> None then Inl ContinuationNotAlone
      else (case wd_continuation_token document of
              None \<Rightarrow> Inl ContinuationIncomplete
            | Some spelled \<Rightarrow> window_continuation spelled))"

definition window_try_from :: "window_document \<Rightarrow> window_failure + result_window" where
  "window_try_from document =
     (if wd_mode document = INITIAL_MODE then accept_initial document
      else if wd_mode document = CONTINUATION_MODE then accept_continuation document
      else Inl UnknownMode)"

fun window_serialize :: "result_window \<Rightarrow> window_document" where
  "window_serialize (Initial (ResultOffset offset') (ResultLimit limit')) =
     \<lparr>wd_mode = INITIAL_MODE, wd_offset = Some offset', wd_limit = Some limit',
      wd_continuation_token = None\<rparr>"
| "window_serialize (Continuation (ContinuationToken spelled)) =
     \<lparr>wd_mode = CONTINUATION_MODE, wd_offset = None, wd_limit = None,
      wd_continuation_token = Some spelled\<rparr>"

section \<open>Budgets\<close>

datatype discovery_budget =
    CandidateNodes | PropertyValues | PropertyBytes | CriterionEvaluations | ExecutionDuration

datatype discovery_stop = DiscoveryCancelled | BudgetExceeded discovery_budget

record discovery_execution_budget =
  candidate_nodes :: u64
  property_values :: u64
  property_bytes :: u64
  criterion_evaluations :: u64
  execution_duration_milliseconds :: u64

definition budget_full :: discovery_execution_budget where
  "budget_full =
     \<lparr>candidate_nodes = named_limit ''maximum_discovery_candidate_nodes'',
      property_values = named_limit ''maximum_discovery_property_values'',
      property_bytes = named_limit ''maximum_discovery_property_bytes'',
      criterion_evaluations = named_limit ''maximum_discovery_criterion_evaluations'',
      execution_duration_milliseconds =
        named_limit ''maximum_discovery_execution_duration_milliseconds''\<rparr>"

definition observe_boundary ::
  "discovery_execution_budget \<Rightarrow> bool \<Rightarrow> u64 \<Rightarrow> discovery_stop + unit" where
  "observe_boundary self is_cancelled elapsed =
     (if is_cancelled then Inl DiscoveryCancelled
      else if elapsed \<ge> execution_duration_milliseconds self
      then Inl (BudgetExceeded ExecutionDuration)
      else Inr ())"

definition observe_call_return :: "discovery_execution_budget \<Rightarrow> u64 \<Rightarrow> discovery_stop + unit" where
  "observe_call_return self elapsed =
     (if elapsed \<ge> execution_duration_milliseconds self
      then Inl (BudgetExceeded ExecutionDuration) else Inr ())"

definition spend :: "u64 \<Rightarrow> u64 \<Rightarrow> discovery_budget \<Rightarrow> discovery_stop + u64" where
  "spend remaining amount budget =
     (case checked_sub remaining amount of
        Some left \<Rightarrow> Inr left | None \<Rightarrow> Inl (BudgetExceeded budget))"

definition charge_candidate_node ::
  "(discovery_execution_budget, discovery_stop, unit) receiver" where
  "charge_candidate_node self =
     (case spend (candidate_nodes self) 1 CandidateNodes of
        Inl stop \<Rightarrow> (self, Inl stop)
      | Inr left \<Rightarrow> (self\<lparr>candidate_nodes := left\<rparr>, Inr ()))"

text \<open>The count is spent before the bytes and stays spent when they do not fit.\<close>

definition charge_property_value ::
  "u64 \<Rightarrow> (discovery_execution_budget, discovery_stop, unit) receiver" where
  "charge_property_value bytes self =
     (case spend (property_values self) 1 PropertyValues of
        Inl stop \<Rightarrow> (self, Inl stop)
      | Inr left \<Rightarrow>
          let self' = self\<lparr>property_values := left\<rparr> in
          (case spend (property_bytes self') bytes PropertyBytes of
             Inl stop \<Rightarrow> (self', Inl stop)
           | Inr left' \<Rightarrow> (self'\<lparr>property_bytes := left'\<rparr>, Inr ())))"

definition charge_criterion_evaluation ::
  "(discovery_execution_budget, discovery_stop, unit) receiver" where
  "charge_criterion_evaluation self =
     (case spend (criterion_evaluations self) 1 CriterionEvaluations of
        Inl stop \<Rightarrow> (self, Inl stop)
      | Inr left \<Rightarrow> (self\<lparr>criterion_evaluations := left\<rparr>, Inr ()))"

definition textual_property_bytes :: "str \<Rightarrow> u64" where
  "textual_property_bytes spelled = as_u64_length (length (as_bytes spelled))"

section \<open>Pages\<close>

datatype match_disposition = SkippedForOffset | Admitted | PageCompleted

record discovery_page =
  remaining_offset :: u64
  remaining_limit :: u64
  remaining_result_bytes :: u64
  page_admitted :: u64

definition result_byte_budget :: u64 where
  "result_byte_budget = named_limit ''maximum_discovery_result_bytes''"

fun offset_count :: "result_offset \<Rightarrow> u64" where "offset_count (ResultOffset n) = n"
fun limit_count :: "result_limit \<Rightarrow> u64" where "limit_count (ResultLimit n) = n"

definition page_beginning :: "result_offset \<Rightarrow> result_limit \<Rightarrow> discovery_page" where
  "page_beginning offset' limit' =
     \<lparr>remaining_offset = offset_count offset', remaining_limit = limit_count limit',
      remaining_result_bytes = result_byte_budget, page_admitted = 0\<rparr>"

definition page_resuming :: "result_limit \<Rightarrow> discovery_page" where
  "page_resuming limit' =
     \<lparr>remaining_offset = 0, remaining_limit = limit_count limit',
      remaining_result_bytes = result_byte_budget, page_admitted = 0\<rparr>"

definition dispose :: "u64 \<Rightarrow> discovery_page \<Rightarrow> match_disposition \<times> discovery_page" where
  "dispose bytes self =
     (if remaining_offset self > 0
      then (SkippedForOffset, self\<lparr>remaining_offset := remaining_offset self - 1\<rparr>)
      else if remaining_limit self = 0 \<or> bytes > remaining_result_bytes self then (PageCompleted, self)
      else (Admitted,
            self\<lparr>remaining_result_bytes := remaining_result_bytes self - bytes,
              remaining_limit := remaining_limit self - 1, page_admitted := page_admitted self + 1\<rparr>))"

definition page_is_complete :: "discovery_page \<Rightarrow> bool" where
  "page_is_complete self \<longleftrightarrow> remaining_limit self = 0"

text \<open>The use the pages are documented for; no function of the sources pages through a whole result.
  Matches are disposed of one after another until the page is full or completes before one; what is
  left begins with the match the next page resumes at.\<close>

fun fill_page :: "('m \<Rightarrow> u64) \<Rightarrow> discovery_page \<Rightarrow> 'm list \<Rightarrow> 'm list \<times> 'm list" where
  "fill_page size_of page [] = ([], [])"
| "fill_page size_of page (m # ms) =
     (case dispose (size_of m) page of
        (SkippedForOffset, page') \<Rightarrow> fill_page size_of page' ms
      | (PageCompleted, page') \<Rightarrow> ([], m # ms)
      | (Admitted, page') \<Rightarrow>
          if page_is_complete page' then ([m], ms)
          else (case fill_page size_of page' ms of (admitted, rest) \<Rightarrow> (m # admitted, rest)))"

partial_function (option) continued ::
  "('m \<Rightarrow> u64) \<Rightarrow> result_limit \<Rightarrow> 'm list \<Rightarrow> 'm list list option" where
  "continued size_of limit' ms =
     (if ms = [] then Some []
      else (case fill_page size_of (page_resuming limit') ms of
              (admitted, rest) \<Rightarrow>
                Option.bind (continued size_of limit' rest) (\<lambda>pages. Some (admitted # pages))))"

definition enumerated ::
  "('m \<Rightarrow> u64) \<Rightarrow> result_offset \<Rightarrow> result_limit \<Rightarrow> 'm list \<Rightarrow> 'm list list option" where
  "enumerated size_of offset' limit' ms =
     (case fill_page size_of (page_beginning offset' limit') ms of
        (admitted, rest) \<Rightarrow>
          Option.bind (continued size_of limit' rest) (\<lambda>pages. Some (admitted # pages)))"

section \<open>Exactly the well-formed windows are read\<close>

named_theorems command_limit_simps

lemma command_limits_read [command_limit_simps]:
  "named_limit ''default_result_limit'' = 100"
  "named_limit ''maximum_result_limit'' = 1000"
  "named_limit ''maximum_result_offset'' = 1000000"
  "named_limit ''maximum_continuation_token_bytes'' = 16384"
  "named_limit ''maximum_discovery_candidate_nodes'' = 100000"
  "named_limit ''maximum_discovery_property_values'' = 1000000"
  "named_limit ''maximum_discovery_property_bytes'' = 67108864"
  "named_limit ''maximum_discovery_criterion_evaluations'' = 2000000"
  "named_limit ''maximum_discovery_result_bytes'' = 1048576"
  by code_simp+

lemma window_bounds [simp]:
  "default_result_limit = 100" "maximum_result_limit = 1000" "maximum_result_offset = 1000000"
  "maximum_continuation_token_bytes = 16384" "result_byte_budget = 1048576"
  by (simp_all add: default_result_limit_def maximum_result_limit_def maximum_result_offset_def
      maximum_continuation_token_bytes_def result_byte_budget_def command_limit_simps)

fun window_ok :: "result_window \<Rightarrow> bool" where
  "window_ok (Initial (ResultOffset o') (ResultLimit l)) \<longleftrightarrow> o' \<le> 1000000 \<and> 0 < l \<and> l \<le> 1000"
| "window_ok (Continuation (ContinuationToken t)) \<longleftrightarrow>
     t \<noteq> [] \<and> list_all (\<lambda>c. \<not> is_control c) t \<and> length (as_bytes t) \<le> 16384"

lemma limit_new_Inr: "limit_new n = Inr l \<longleftrightarrow> 0 < n \<and> n \<le> 1000 \<and> l = ResultLimit n"
  by (auto simp: limit_new_def word_neq_0_conv not_less)

lemma offset_new_Inr: "offset_new n = Inr o' \<longleftrightarrow> n \<le> 1000000 \<and> o' = ResultOffset n"
  by (auto simp: offset_new_def not_less)

lemma continuation_token_new_Inr:
  "continuation_token_new spelled = Inr t \<longleftrightarrow>
     spelled \<noteq> [] \<and> list_all (\<lambda>c. \<not> is_control c) spelled \<and> length (as_bytes spelled) \<le> 16384 \<and>
     t = ContinuationToken spelled"
proof -
  have "as_u64_length n \<le> 16384 \<longleftrightarrow> n \<le> 16384" for n using as_u64_length_le [of 16384 n] by simp
  then have n: "as_u64_length n > 16384 \<longleftrightarrow> \<not> n \<le> 16384" for n by (metis not_le)
  show ?thesis by (auto simp: continuation_token_new_def n list_ex_iff list_all_iff)
qed

text \<open>C39: Exactly the well-formed windows are read, and each from exactly one document.  A document is
  read as a window when it is the one that window is written as and the window is within the
  contract - an offset of at most a million and a limit of one to a thousand, or a token alone
  that is not empty, holds no control character and fits its bound; a member that belongs to the
  other mode, a missing member and a bound overrun are all refused.\<close>

theorem window_read_iff:
  "window_try_from document = Inr w \<longleftrightarrow> window_ok w \<and> document = window_serialize w"
proof (cases w)
  case (Initial o' l)
  then show ?thesis
    by (cases o'; cases l; cases document)
      (auto simp: window_try_from_def accept_initial_def accept_continuation_def window_initial_def
        window_continuation_def bindE_eq_Inr limit_new_Inr offset_new_Inr INITIAL_MODE_def
        CONTINUATION_MODE_def split: option.splits)
next
  case (Continuation t)
  then show ?thesis
    by (cases t; cases document)
      (auto simp: window_try_from_def accept_initial_def accept_continuation_def window_initial_def
        window_continuation_def bindE_eq_Inr continuation_token_new_Inr INITIAL_MODE_def
        CONTINUATION_MODE_def split: option.splits)
qed

section \<open>What a job spends\<close>

datatype charge = ChargeNode | ChargeValue u64 | ChargeCriterion

fun charge_budget :: "charge \<Rightarrow> (discovery_execution_budget, discovery_stop, unit) receiver" where
  "charge_budget ChargeNode = charge_candidate_node"
| "charge_budget (ChargeValue bytes) = charge_property_value bytes"
| "charge_budget ChargeCriterion = charge_criterion_evaluation"

text \<open>What one answered charge took of each budget.\<close>

fun took :: "discovery_budget \<Rightarrow> charge \<Rightarrow> discovery_stop + unit \<Rightarrow> nat" where
  "took CandidateNodes ChargeNode (Inr _) = 1"
| "took PropertyValues (ChargeValue _) answer =
     (if answer = Inl (BudgetExceeded PropertyValues) then 0 else 1)"
| "took PropertyBytes (ChargeValue bytes) (Inr _) = unat bytes"
| "took CriterionEvaluations ChargeCriterion (Inr _) = 1"
| "took _ _ _ = 0"

definition total_taken :: "discovery_budget \<Rightarrow> charge list \<Rightarrow> (discovery_stop + unit) list \<Rightarrow> nat" where
  "total_taken k cs as = sum_list (map2 (took k) cs as)"

fun remaining_of :: "discovery_budget \<Rightarrow> discovery_execution_budget \<Rightarrow> nat" where
  "remaining_of CandidateNodes b = unat (candidate_nodes b)"
| "remaining_of PropertyValues b = unat (property_values b)"
| "remaining_of PropertyBytes b = unat (property_bytes b)"
| "remaining_of CriterionEvaluations b = unat (criterion_evaluations b)"
| "remaining_of ExecutionDuration b = unat (execution_duration_milliseconds b)"

lemma spend_Inr: "spend r amount k = Inr left \<longleftrightarrow> unat r = unat left + unat amount"
proof -
  have "checked_sub r amount = Some left \<longleftrightarrow> unat r = unat left + unat amount"
    by (auto simp: checked_sub_def unat_sub word_le_nat_alt word_unat_eq_iff)
  then show ?thesis by (auto simp: spend_def split: option.split)
qed

lemma spend_Inl: "spend r amount k = Inl stop \<Longrightarrow> stop = BudgetExceeded k"
  by (auto simp: spend_def split: option.splits)

lemma charge_takes:
  "remaining_of k b =
     remaining_of k (fst (charge_budget c b)) + took k c (snd (charge_budget c b))"
  by (cases k; cases c)
    (auto simp: charge_candidate_node_def charge_property_value_def charge_criterion_evaluation_def
      spend_Inr Let_def dest: spend_Inl split: sum.split)

lemma drive_takes:
  "remaining_of k b =
     remaining_of k (fst (drive charge_budget b cs)) + total_taken k cs (snd (drive charge_budget b cs))"
proof (induction cs arbitrary: b)
  case (Cons c cs)
  show ?case
    using charge_takes [of k b c] Cons.IH [of "fst (charge_budget c b)"]
    by (simp add: total_taken_def Let_def split_beta)
qed (simp add: total_taken_def)

text \<open>A discovery job spends what it was given and nothing else.  Over any charges, refused ones
  included, what was taken of each budget and what remains of it add up to the budget the job
  started with, so that no counter wraps and no more nodes are inspected, values and bytes read or
  criteria tested than the contract allows.\<close>

lemma discovery_budget_conserved:
  "remaining_of k (fst (drive charge_budget budget_full cs)) +
     total_taken k cs (snd (drive charge_budget budget_full cs)) =
   (case k of CandidateNodes \<Rightarrow> 100000 | PropertyValues \<Rightarrow> 1000000 | PropertyBytes \<Rightarrow> 67108864
      | CriterionEvaluations \<Rightarrow> 2000000 | ExecutionDuration \<Rightarrow> 30000)"
proof -
  have "named_limit ''maximum_discovery_execution_duration_milliseconds'' = 30000" by code_simp
  then have "remaining_of k budget_full =
      (case k of CandidateNodes \<Rightarrow> 100000 | PropertyValues \<Rightarrow> 1000000 | PropertyBytes \<Rightarrow> 67108864
         | CriterionEvaluations \<Rightarrow> 2000000 | ExecutionDuration \<Rightarrow> 30000)"
    by (cases k) (simp_all add: budget_full_def command_limit_simps)
  then show ?thesis by (simp only: drive_takes [symmetric])
qed

section \<open>Paging\<close>

definition bytes_of_matches :: "('m \<Rightarrow> u64) \<Rightarrow> 'm list \<Rightarrow> nat" where
  "bytes_of_matches size_of ms = sum_list (map (\<lambda>m. unat (size_of m)) ms)"

definition within_page :: "('m \<Rightarrow> u64) \<Rightarrow> discovery_page \<Rightarrow> 'm list \<Rightarrow> bool" where
  "within_page size_of page ms \<longleftrightarrow>
     length ms \<le> unat (remaining_limit page) \<and>
     bytes_of_matches size_of ms \<le> unat (remaining_result_bytes page)"

lemma fill_page_split:
  "fill_page size_of page ms = (admitted, rest) \<Longrightarrow>
     drop (unat (remaining_offset page)) ms = admitted @ rest \<and> within_page size_of page admitted"
proof (induction ms arbitrary: page admitted rest)
  case Nil
  then show ?case by (simp add: within_page_def bytes_of_matches_def)
next
  case (Cons m ms)
  have pred: "unat (w - 1) = unat w - 1" if "0 < w" for w :: u64
    using that by (simp add: unat_sub word_le_nat_alt word_less_nat_alt)
  show ?case
  proof (cases "remaining_offset page > 0")
    case True
    then have "fill_page size_of (page\<lparr>remaining_offset := remaining_offset page - 1\<rparr>) ms = (admitted, rest)"
      using Cons.prems by (simp add: dispose_def)
    moreover have "unat (remaining_offset page) = Suc (unat (remaining_offset page) - 1)"
      using True by (simp add: word_less_nat_alt)
    moreover have "drop (Suc n) (m # ms) = drop n ms" for n by simp
    ultimately show ?thesis
      using Cons.IH [of "page\<lparr>remaining_offset := remaining_offset page - 1\<rparr>" admitted rest] pred [OF True]
      by (metis (no_types, lifting) discovery_page.simps(1,2,3) discovery_page.update_convs(1)
          discovery_page.surjective within_page_def)
  next
    case False
    then have z: "remaining_offset page = 0" using word_neq_0_conv by blast
    show ?thesis
    proof (cases "remaining_limit page = 0 \<or> size_of m > remaining_result_bytes page")
      case True
      then show ?thesis using Cons.prems z by (auto simp: dispose_def within_page_def bytes_of_matches_def)
    next
      case f: False
      let ?p = "page\<lparr>remaining_result_bytes := remaining_result_bytes page - size_of m,
        remaining_limit := remaining_limit page - 1, page_admitted := page_admitted page + 1\<rparr>"
      have d: "dispose (size_of m) page = (Admitted, ?p)" using z f by (simp add: dispose_def)
      have l: "unat (remaining_limit page) = Suc (unat (remaining_limit ?p))"
        using f pred [of "remaining_limit page"] by (simp add: word_neq_0_conv word_less_nat_alt)
      have b: "unat (remaining_result_bytes page) = unat (remaining_result_bytes ?p) + unat (size_of m)"
        using f by (simp add: unat_sub word_le_nat_alt word_less_nat_alt)
      show ?thesis
      proof (cases "page_is_complete ?p")
        case True
        then show ?thesis using Cons.prems z d l b by (auto simp: within_page_def bytes_of_matches_def)
      next
        case nc: False
        obtain ad rs where r: "fill_page size_of ?p ms = (ad, rs)" by fastforce
        then have "admitted = m # ad" "rest = rs" using Cons.prems d nc by auto
        then show ?thesis
          using Cons.IH [OF r] z l b by (auto simp: within_page_def bytes_of_matches_def)
      qed
    qed
  qed
qed

lemma fill_page_progress:
  assumes "remaining_offset page = 0" "remaining_limit page \<noteq> 0"
    "size_of m \<le> remaining_result_bytes page"
  shows "fst (fill_page size_of page (m # ms)) \<noteq> []"
  using assms by (auto simp: dispose_def split: prod.split)

lemma continued_ends:
  assumes "n \<noteq> 0" and "list_all (\<lambda>m. size_of m \<le> 1048576) ms"
  shows "\<exists>pages. continued size_of (ResultLimit n) ms = Some pages \<and> concat pages = ms \<and>
    list_all (within_page size_of (page_resuming (ResultLimit n))) pages \<and> [] \<notin> set pages"
  using assms(2)
proof (induction ms rule: length_induct)
  case (1 ms)
  show ?case
  proof (cases ms)
    case Nil
    then show ?thesis by (simp add: continued.simps)
  next
    case (Cons m ms')
    let ?p = "page_resuming (ResultLimit n)"
    obtain admitted rest where f: "fill_page size_of ?p ms = (admitted, rest)" by fastforce
    have split: "ms = admitted @ rest" "within_page size_of ?p admitted"
      using fill_page_split [OF f] by (simp_all add: page_resuming_def)
    have "fst (fill_page size_of ?p (m # ms')) \<noteq> []"
      using 1(2) Cons assms(1) by (intro fill_page_progress) (simp_all add: page_resuming_def)
    then have ne: "admitted \<noteq> []" using f Cons by simp
    then have "length rest < length ms" using split(1) by simp
    then obtain pages where "continued size_of (ResultLimit n) rest = Some pages" "concat pages = rest"
      "list_all (within_page size_of ?p) pages" "[] \<notin> set pages"
      using 1(1) [rule_format, of rest] 1(2) split(1) by auto
    then show ?thesis
      using f split ne Cons by (subst continued.simps) auto
  qed
qed

text \<open>C38: Paging ends and loses nothing.  When every match fits a page on its own, asking page after
  page - the first from an offset, each next from where the last one stopped - ends after finitely
  many pages; put together they are the matches behind the offset in their order, each once, and
  no page holds more matches than its limit or more bytes than the contract allows.\<close>

theorem paging_ends_and_loses_nothing:
  assumes "n \<noteq> 0" and "list_all (\<lambda>m. size_of m \<le> 1048576) ms"
  shows "\<exists>pages. enumerated size_of (ResultOffset k) (ResultLimit n) ms = Some pages \<and>
    concat pages = drop (unat k) ms \<and>
    list_all (\<lambda>page. length page \<le> unat n \<and> bytes_of_matches size_of page \<le> 1048576) pages"
proof -
  obtain admitted rest where
    f: "fill_page size_of (page_beginning (ResultOffset k) (ResultLimit n)) ms = (admitted, rest)"
    by fastforce
  have s: "drop (unat k) ms = admitted @ rest"
    "length admitted \<le> unat n" "bytes_of_matches size_of admitted \<le> 1048576"
    using fill_page_split [OF f] by (simp_all add: page_beginning_def within_page_def)
  have "set rest \<subseteq> set ms" using s(1) by (metis in_set_dropD Un_iff set_append subsetI)
  then have "list_all (\<lambda>m. size_of m \<le> 1048576) rest" using assms(2) by (auto simp: list_all_iff)
  from continued_ends [OF assms(1) this] obtain pages where
    "continued size_of (ResultLimit n) rest = Some pages" "concat pages = rest"
    "list_all (within_page size_of (page_resuming (ResultLimit n))) pages" by blast
  moreover have "within_page size_of (page_resuming (ResultLimit n)) =
      (\<lambda>page. length page \<le> unat n \<and> bytes_of_matches size_of page \<le> 1048576)"
    by (simp add: within_page_def page_resuming_def fun_eq_iff)
  ultimately show ?thesis
    using f s by (auto simp: enumerated_def)
qed

theorem paging_ends_and_loses_nothing_witness:
  "\<exists>pages. enumerated (\<lambda>m. m) (ResultOffset 1) (ResultLimit 2) [5, 7, 1048576, 9 :: u64] = Some pages \<and>
     concat pages = [7, 1048576, 9]"
  using paging_ends_and_loses_nothing [of 2 "\<lambda>m. m" "[5, 7, 1048576, 9]" 1] by auto

end
