(* ===== verification/Artifact_Transfer.thy ===== *)
theory Artifact_Transfer
  imports Stream_Recovery
begin

text \<open>
  Fetching one artifact, \<open>slingshot-agent-connection/src/artifact_download.rs\<close>: the route it is asked for on,
  the head it may stream from, the transfer that is bounded while it runs, and the closed answer that
  an artifact is unavailable.  The JSON parser, the contracts this build installs and the digest of the
  bytes that arrived are parameters; writing the staging file and renaming it are the caller's.

  The theorems show exactly which transfers may be published and which answers may conclude that an
  artifact is gone.
\<close>

section \<open>Slots and routes\<close>

definition ARTIFACT_ROUTE :: string where "ARTIFACT_ROUTE = ''/bin/slingshot/agent/artifact''"
definition STRUCTURED_RESULT_SLOT :: string where "STRUCTURED_RESULT_SLOT = ''structured_result''"
definition LOADED_CONTENT_SLOT :: string where "LOADED_CONTENT_SLOT = ''loaded_content_json''"
definition LOADED_CONTENT_MEDIA_TYPE :: string where "LOADED_CONTENT_MEDIA_TYPE = ''application/json''"
definition CONTENT_PACKAGE_SLOT :: string where "CONTENT_PACKAGE_SLOT = ''content_package''"
definition CONTENT_PACKAGE_MEDIA_TYPE :: string where "CONTENT_PACKAGE_MEDIA_TYPE = ''application/zip''"

definition REMOTE_SLOT_MEDIA_TYPES :: "(string \<times> string) list" where
  "REMOTE_SLOT_MEDIA_TYPES =
     [(CONTENT_PACKAGE_SLOT, CONTENT_PACKAGE_MEDIA_TYPE), (LOADED_CONTENT_SLOT, LOADED_CONTENT_MEDIA_TYPE)]"

datatype download_refusal =
    InvalidRouteSegment
  | SelectedConnectionMismatch
  | DownloadHead response_refusal
  | DownloadRouteOffered str
  | LocalSlot string
  | UnknownSlot string
  | MediaTypeDrifted str str
  | DownloadContentCoding str
  | DownloadUndeclaredTrailer
  | DownloadTrailingBytes
  | LengthDrifted u64 u64
  | DigestDrifted
  | SlotMaximumExceeded u64 u64
  | NotCanonicalDocument

definition require_remote_slot :: "string \<Rightarrow> download_refusal + string" where
  "require_remote_slot slot =
     (if slot = STRUCTURED_RESULT_SLOT then Inl (LocalSlot slot)
      else (case map_of REMOTE_SLOT_MEDIA_TYPES slot of
              Some named \<Rightarrow> Inr named | None \<Rightarrow> Inl (UnknownSlot slot)))"

definition route_byte :: "char \<Rightarrow> bool" where
  "route_byte c \<longleftrightarrow> (97::nat) \<le> of_char c \<and> of_char c \<le> (122::nat) \<or>
     (48::nat) \<le> of_char c \<and> of_char c \<le> (57::nat) \<or> c = CHR ''-'' \<or> c = CHR ''_''"

definition trim_end_slashes :: "string \<Rightarrow> string" where
  "trim_end_slashes s = rev (dropWhile (\<lambda>c. c = CHR ''/'') (rev s))"

definition artifact_route :: "string \<Rightarrow> string \<Rightarrow> string \<Rightarrow> download_refusal + string" where
  "artifact_route author_base identifier slot =
     (if identifier = [] \<or>
         (of_nat (length identifier) :: u64) > embedded_limit ''maximum_agent_operation_identifier_bytes'' \<or>
         \<not> list_all route_byte identifier
      then Inl InvalidRouteSegment
      else bindE (require_remote_slot slot) (\<lambda>_.
        Inr (trim_end_slashes author_base @ ARTIFACT_ROUTE @ ''?agent_operation_identifier='' @
             encoded_once identifier @ ''&artifact_slot='' @ encoded_once slot)))"

section \<open>The head and the transfer\<close>

record expected_artifact =
  artifact_digest :: string
  expected_slot :: string
  expected_length :: u64
  expected_media :: str

record artifact_response_head =
  announced_content_type :: str
  announced_head :: response_head

definition require_streamable :: "expected_artifact \<Rightarrow> artifact_response_head \<Rightarrow> download_refusal + unit" where
  "require_streamable expected announced =
     (case location (announced_head announced) of
        Some offered \<Rightarrow> Inl (DownloadRouteOffered offered)
      | None \<Rightarrow>
          (case require_acceptable (announced_head announced) of
             Inl refusal \<Rightarrow> Inl (DownloadHead refusal)
           | Inr _ \<Rightarrow>
               (case content_coding (announced_head announced) of
                  Some coding \<Rightarrow>
                    if coding \<notin> set PERMITTED_CONTENT_CODINGS then Inl (DownloadContentCoding coding)
                    else if announced_content_type announced \<noteq> expected_media expected
                    then Inl (MediaTypeDrifted (expected_media expected) (announced_content_type announced))
                    else Inr ()
                | None \<Rightarrow>
                    if announced_content_type announced \<noteq> expected_media expected
                    then Inl (MediaTypeDrifted (expected_media expected) (announced_content_type announced))
                    else Inr ())))"

datatype transfer_end = Framed | EndUndeclaredTrailer | EndTrailingBytes | Interrupted

record artifact_transfer =
  transfer_expected :: expected_artifact
  received :: u64
  slot_maximum :: u64

definition transfer_of :: "expected_artifact \<Rightarrow> u64 \<Rightarrow> artifact_transfer" where
  "transfer_of expected maximum =
     \<lparr>transfer_expected = expected, received = 0, slot_maximum = maximum\<rparr>"

definition transfer_absorb :: "artifact_transfer \<Rightarrow> u64 \<Rightarrow> download_refusal + artifact_transfer" where
  "transfer_absorb self bytes =
     (let reached = saturating_add (received self) bytes in
      if reached > slot_maximum self then Inl (SlotMaximumExceeded (slot_maximum self) reached)
      else if reached > expected_length (transfer_expected self)
      then Inl (LengthDrifted (expected_length (transfer_expected self)) reached)
      else Inr (self\<lparr>received := reached\<rparr>))"

definition require_publishable :: "artifact_transfer \<Rightarrow> transfer_end \<Rightarrow> string \<Rightarrow> download_refusal + unit" where
  "require_publishable self ended observed_digest =
     (case ended of
        EndUndeclaredTrailer \<Rightarrow> Inl DownloadUndeclaredTrailer
      | EndTrailingBytes \<Rightarrow> Inl DownloadTrailingBytes
      | Interrupted \<Rightarrow>
          Inl (LengthDrifted (expected_length (transfer_expected self)) (received self))
      | Framed \<Rightarrow>
          if received self \<noteq> expected_length (transfer_expected self)
          then Inl (LengthDrifted (expected_length (transfer_expected self)) (received self))
          else if observed_digest \<noteq> artifact_digest (transfer_expected self) then Inl DigestDrifted
          else Inr ())"

section \<open>An artifact that is unavailable\<close>

datatype unavailable_reason = ArtifactMissing | ArtifactRetentionExpired

record unavailable_document =
  ud_provenance :: document_provenance
  ud_generation :: u64
  ud_operation_identifier :: string
  ud_artifact_identifier :: string
  ud_slot :: string
  ud_reason :: unavailable_reason

definition decode_artifact_unavailable ::
  "(byte list \<Rightarrow> unavailable_document option) \<Rightarrow> (string \<Rightarrow> contract_identity option) \<Rightarrow> string \<Rightarrow>
     string \<Rightarrow> u16 \<Rightarrow> byte list \<Rightarrow> submission \<Rightarrow> string \<Rightarrow> string \<Rightarrow> unit + unavailable_reason" where
  "decode_artifact_unavailable parse installed_contract canonical_contract_digest embedded_digest response_status' body
     submitted identifier slot =
     (if (of_nat (length body) :: u64) > embedded_limit ''maximum_agent_protocol_document_bytes'' \<or>
         identifier = [] \<or> length identifier > 128 \<or>
         op_generation (operation submitted) = 0 \<or>
         length (op_identifier (operation submitted)) \<noteq> 64 \<or>
         \<not> list_all is_lowercase_hex (op_identifier (operation submitted))
      then Inl ()
      else (case require_remote_slot slot of
         Inl _ \<Rightarrow> Inl ()
       | Inr _ \<Rightarrow>
        (case parse body of
           None \<Rightarrow> Inl ()
         | Some document \<Rightarrow>
          (case installed_contract (command_wire_name (dp_command_contract (sub_provenance submitted))) of
             None \<Rightarrow> Inl ()
           | Some contract \<Rightarrow>
            (case require_matching
                    \<lparr>canonical_json_contract_digest = canonical_contract_digest, command_contract = contract,
                     transport_contract_digest = embedded_digest\<rparr> (ud_provenance document) of
               Inl _ \<Rightarrow> Inl ()
             | Inr _ \<Rightarrow>
                if ud_provenance document \<noteq> sub_provenance submitted \<or>
                   ud_generation document \<noteq> op_generation (operation submitted) \<or>
                   ud_operation_identifier document \<noteq> op_identifier (operation submitted) \<or>
                   ud_artifact_identifier document \<noteq> identifier \<or> ud_slot document \<noteq> slot \<or>
                   \<not> (response_status' = 404 \<and> ud_reason document = ArtifactMissing \<or>
                      response_status' = 410 \<and> ud_reason document = ArtifactRetentionExpired)
                then Inl () else Inr (ud_reason document))))))"

record artifact_unavailable =
  au_operation_identifier :: string
  au_generation :: u64
  au_digest :: string
  au_slot :: string
  au_reason :: unavailable_reason

datatype artifact_conclusion = UnavailableGrace u64 | ResultUnavailable | ProtocolInvalid

definition unavailable_outcome ::
  "expected_artifact \<Rightarrow> string \<Rightarrow> u64 \<Rightarrow> artifact_unavailable option \<Rightarrow> u64 \<Rightarrow> u64 \<Rightarrow> artifact_conclusion" where
  "unavailable_outcome expected identifier generation answered asked_at now =
     (case answered of
        None \<Rightarrow> ProtocolInvalid
      | Some a \<Rightarrow>
          if \<not> (au_operation_identifier a = identifier \<and> au_generation a = generation \<and>
                au_digest a = artifact_digest expected \<and> au_slot a = expected_slot expected)
          then ProtocolInvalid
          else (case au_reason a of
                  ArtifactRetentionExpired \<Rightarrow> ResultUnavailable
                | ArtifactMissing \<Rightarrow>
                    let until = saturating_add asked_at missing_grace_milliseconds in
                    if now < until then UnavailableGrace until else ResultUnavailable))"

section \<open>Which transfers may be published\<close>

lemma transfer_absorb_Inr:
  "transfer_absorb t n = Inr t' \<longleftrightarrow>
     saturating_add (received t) n \<le> min (slot_maximum t) (expected_length (transfer_expected t)) \<and>
     t' = t\<lparr>received := saturating_add (received t) n\<rparr>"
  by (auto simp: transfer_absorb_def Let_def not_less)

lemma absorbed_all:
  assumes "received t \<le> min (slot_maximum t) (expected_length (transfer_expected t))"
  shows "runE transfer_absorb t ns = Inr t' \<longleftrightarrow>
    min (unat (received t) + sum_list (map unat ns)) (2 ^ 64 - 1) \<le>
      min (unat (slot_maximum t)) (unat (expected_length (transfer_expected t))) \<and>
    unat (received t') = min (unat (received t) + sum_list (map unat ns)) (2 ^ 64 - 1) \<and>
    slot_maximum t' = slot_maximum t \<and> transfer_expected t' = transfer_expected t"
  using assms
proof (induction ns arbitrary: t)
  case Nil
  have "unat (received t) \<le> 2 ^ 64 - 1"
    using unsigned_less [of "received t", where 'a = nat] by simp
  then show ?case
    using Nil by (cases t; cases t') (auto simp: word_le_nat_alt word_unat_eq_iff unat_min)
next
  case (Cons n ns)
  let ?r = "saturating_add (received t) n"
  let ?t = "t\<lparr>received := ?r\<rparr>"
  have u: "unat ?r = min (unat (received t) + unat n) (2 ^ 64 - 1)"
    using unat_saturating_add [of "received t" n] by simp
  show ?case
  proof (cases "?r \<le> min (slot_maximum t) (expected_length (transfer_expected t))")
    case True
    then have "runE transfer_absorb t (n # ns) = runE transfer_absorb ?t ns"
      using transfer_absorb_Inr [of t n ?t] by simp
    moreover have "min (unat ?r + k) (2 ^ 64 - 1) = min (unat (received t) + unat n + k) (2 ^ 64 - 1)" for k
      by (simp add: u)
    ultimately show ?thesis using Cons.IH [of ?t] True by (simp add: add.assoc)
  next
    case False
    then have "\<not> min (unat (received t) + unat n) (2 ^ 64 - 1) \<le>
        min (unat (slot_maximum t)) (unat (expected_length (transfer_expected t)))"
      by (simp add: word_le_nat_alt min_def u split: if_splits)
    moreover have "transfer_absorb t n \<noteq> Inr t'" for t' using False transfer_absorb_Inr [of t n t'] by blast
    ultimately show ?thesis by (auto simp: bindE_eq_Inr)
  qed
qed

text \<open>C40: What a transfer counts and which transfers may be published, however the bytes were cut.  The
  chunks so far have all been absorbed exactly when what they add up to - without wrapping, counted up
  to the largest number the counter holds - is within both the slot and the length the manifest
  declared, and then exactly that has been counted; so the first chunk that takes the count beyond
  either bound is refused as it arrives.  A transfer may be published exactly when, besides, the body ended where its framing said,
  the count is the declared length, and the digest is the declared one.\<close>

theorem transfer_published_iff:
  "let total = min (sum_list (map unat ns)) (2 ^ 64 - 1);
       absorbed = runE transfer_absorb (transfer_of expected maximum) ns in
   (absorbed = Inr t \<longleftrightarrow>
      total \<le> unat maximum \<and> total \<le> unat (expected_length expected) \<and>
      unat (received t) = total \<and> slot_maximum t = maximum \<and> transfer_expected t = expected) \<and>
   ((\<exists>t. absorbed = Inr t \<and> require_publishable t ended observed_digest = Inr ()) \<longleftrightarrow>
      ended = Framed \<and> observed_digest = artifact_digest expected \<and>
      total = unat (expected_length expected) \<and> expected_length expected \<le> maximum)"
proof -
  let ?t = "transfer_of expected maximum"
  let ?s = "min (sum_list (map unat ns)) (2 ^ 64 - 1)"
  have a: "runE transfer_absorb ?t ns = Inr t \<longleftrightarrow>
      ?s \<le> unat maximum \<and> ?s \<le> unat (expected_length expected) \<and> unat (received t) = ?s \<and>
      slot_maximum t = maximum \<and> transfer_expected t = expected" for t
    using absorbed_all [of ?t ns t] by (simp add: transfer_of_def)
  have p: "require_publishable t ended observed_digest = Inr () \<longleftrightarrow>
      ended = Framed \<and> received t = expected_length (transfer_expected t) \<and>
      observed_digest = artifact_digest (transfer_expected t)" for t
    by (cases ended) (auto simp: require_publishable_def)
  have f: "unat (received (?t\<lparr>received := expected_length expected\<rparr>)) = unat (expected_length expected)"
    "slot_maximum (?t\<lparr>received := expected_length expected\<rparr>) = maximum"
    "transfer_expected (?t\<lparr>received := expected_length expected\<rparr>) = expected"
    by (simp_all add: transfer_of_def)
  have "(\<exists>t. runE transfer_absorb ?t ns = Inr t \<and> require_publishable t ended observed_digest = Inr ()) \<longleftrightarrow>
      ended = Framed \<and> observed_digest = artifact_digest expected \<and>
      ?s = unat (expected_length expected) \<and> expected_length expected \<le> maximum"
    unfolding a p using f by (metis (no_types, lifting) artifact_transfer.select_convs(2)
        order.refl word_le_nat_alt word_unat_eq_iff)
  then show ?thesis using a [of t] by (simp only: Let_def simp_thms)
qed

text \<open>The shared policy refuses every coding but identity, so the download's own refusal of a coding is
  never reached.\<close>

lemma content_coding_never_reached:
  "require_streamable expected announced \<noteq> Inl (DownloadContentCoding coding)"
  by (auto simp: require_streamable_def require_acceptable_def split: option.splits if_splits)

section \<open>What may conclude that an artifact is gone\<close>

lemma require_remote_slot_ok:
  "is_ok (require_remote_slot slot) \<longleftrightarrow> slot \<in> {''content_package'', ''loaded_content_json''}"
  by (auto simp: require_remote_slot_def REMOTE_SLOT_MEDIA_TYPES_def CONTENT_PACKAGE_SLOT_def
      LOADED_CONTENT_SLOT_def STRUCTURED_RESULT_SLOT_def split: option.split)

lemma digest_spelled_iff: "is_lowercase_hexadecimal s 64 \<longleftrightarrow> length s = 64 \<and> list_all is_lowercase_hex s"
  by (simp add: is_lowercase_hexadecimal_def is_lowercase_hex_def Let_def list_all_iff)

text \<open>Only a fully identified answer concludes anything.  An answer is taken as evidence exactly when
  it fits the protocol's bound, parses, carries the provenance of the submission, which must be
  the provenance of the contracts installed here, and names the submission's generation and
  operation, the artifact and the slot that were asked for, with the status its reason requires.\<close>

lemma unavailable_evidence_iff:
  "decode_artifact_unavailable parse installed_contract canonical_contract_digest embedded_digest code body
     submitted identifier slot = Inr reason \<longleftrightarrow>
   (\<exists>contract. installed_contract (command_wire_name (dp_command_contract (sub_provenance submitted))) = Some contract \<and>
      sub_provenance submitted = provenance_of \<lparr>canonical_json_contract_digest = canonical_contract_digest,
        command_contract = contract, transport_contract_digest = embedded_digest\<rparr>) \<and>
   parse body = Some \<lparr>ud_provenance = sub_provenance submitted,
     ud_generation = op_generation (operation submitted),
     ud_operation_identifier = op_identifier (operation submitted),
     ud_artifact_identifier = identifier, ud_slot = slot, ud_reason = reason\<rparr> \<and>
   code = (case reason of ArtifactMissing \<Rightarrow> 404 | ArtifactRetentionExpired \<Rightarrow> 410) \<and>
   slot \<in> {''content_package'', ''loaded_content_json''} \<and> length identifier \<in> {1..128} \<and>
   0 < op_generation (operation submitted) \<and> is_lowercase_hexadecimal (op_identifier (operation submitted)) 64 \<and>
   length body mod 2 ^ 64 \<le> 2097152"
proof -
  let ?p = "\<lambda>contract. \<lparr>canonical_json_contract_digest = canonical_contract_digest, command_contract = contract,
    transport_contract_digest = embedded_digest\<rparr>"
  let ?installed = "installed_contract (command_wire_name (dp_command_contract (sub_provenance submitted)))"
  let ?pre = "\<not> (of_nat (length body) :: u64) > 2097152 \<and> length identifier \<in> {1..128} \<and>
    0 < op_generation (operation submitted) \<and> is_lowercase_hexadecimal (op_identifier (operation submitted)) 64"
  have m: "embedded_limit ''maximum_agent_protocol_document_bytes'' = 2097152"
    by (simp add: embedded_limit_def contract_simps)
  have pre: "?pre \<longleftrightarrow> \<not> ((of_nat (length body) :: u64) > 2097152 \<or>
         identifier = [] \<or> length identifier > 128 \<or>
         op_generation (operation submitted) = 0 \<or>
         length (op_identifier (operation submitted)) \<noteq> 64 \<or>
         \<not> list_all is_lowercase_hex (op_identifier (operation submitted)))"
    by (auto simp: digest_spelled_iff word_neq_0_conv Suc_le_eq not_less)
  have size: "\<not> (of_nat (length body) :: u64) > 2097152 \<longleftrightarrow> length body mod 2 ^ 64 \<le> 2097152"
    by (simp add: word_less_nat_alt unat_of_nat not_less)
  have matching: "require_matching (?p contract) d = Inr () \<longleftrightarrow> d = provenance_of (?p contract)" for contract d
    by (rule require_matching_Inr)
  have "decode_artifact_unavailable parse installed_contract canonical_contract_digest embedded_digest code body
       submitted identifier slot = Inr reason \<longleftrightarrow>
      ?pre \<and> is_ok (require_remote_slot slot) \<and>
      (\<exists>document contract. parse body = Some document \<and> ?installed = Some contract \<and>
        ud_provenance document = provenance_of (?p contract) \<and>
        ud_provenance document = sub_provenance submitted \<and>
        ud_generation document = op_generation (operation submitted) \<and>
        ud_operation_identifier document = op_identifier (operation submitted) \<and>
        ud_artifact_identifier document = identifier \<and> ud_slot document = slot \<and>
        (code = 404 \<and> reason = ArtifactMissing \<or> code = 410 \<and> reason = ArtifactRetentionExpired) \<and>
        ud_reason document = reason)"
    unfolding decode_artifact_unavailable_def m pre
    using matching
    by (cases "require_remote_slot slot"; cases "parse body"; cases ?installed)
      (auto split: sum.split)
  then show ?thesis
    unfolding require_remote_slot_ok size
    by (cases reason) (fastforce simp: unavailable_document.equality)+
qed

end
