(* ===== verification/Spec2Isabelle.thy ===== *)
theory Spec2Isabelle
  imports Operation_Lifecycle Job_Reduction Hpack_Block Http2_Flow Local_Framing Event_Delivery
    Logical_Operation Operation_Wait Recovery_Supervisor
    Access_Tokens Discovery Artifact_Transfer
begin

text \<open>
  Slingshot runs commands on an author instance through a daemon on the developer's machine.  A
  client (command line or Model Context Protocol server) speaks framed JSON to the daemon over a
  local socket; the daemon records every command as an operation, submits it to an agent on the
  author over HTTP/2, follows the jobs the agent runs through an event stream, and answers the
  clients that wait.  This development models the parts of that program that decide: what an
  operation may become, what an event may change, what bytes are accepted as a frame, a header
  block, an event or a canonical document, and what a watcher is told.  The sources are the crates
  under \<open>src/crates\<close>; every theory names its files.

  \<^bold>\<open>How the program is modelled.\<close>  A struct is a \<open>record\<close> with the fields of the source, an
  enum a \<open>datatype\<close>, a \<open>u8\<close>, \<open>u16\<close>, \<open>u32\<close> or \<open>u64\<close> a word of that width (arithmetic wraps as
  it does in a release build, and \<open>checked_add\<close> and its relatives are written out), a \<open>usize\<close>
  length a \<open>nat\<close>.  A fallible function returns a sum with the error on the left.  A method with a
  mutable receiver returns the new receiver beside its answer, also when it fails, because most
  readers here record their own failure and refuse everything after it.  A closure argument (a
  byte sink, a consumer of events) is a function over an explicit state.  Loops are structural
  recursion over what they read, or recursion with a measure; no definition has fuel.  The one loop
  that can run forever, asking for page after page (\<open>Discovery\<close>), is a partial function into option,
  and its theorem says when it returns.

  \<^bold>\<open>What is a parameter.\<close>  Code outside the repository is an argument of the definitions that
  use it: the HTTP library's conversion of header names and values (\<open>Response_Head\<close>,
  \<open>Response_Policy\<close>, \<open>Job_Reconciliation\<close>), the JSON library's parser and the digest function
  (\<open>Event_Stream\<close>, \<open>Canonical_Json\<close>, \<open>Runtime_Contract\<close>, \<open>Command_Submission\<close>, \<open>Job_Reconciliation\<close>,
  \<open>Stream_Recovery\<close>, \<open>Access_Tokens\<close>, \<open>Artifact_Transfer\<close>), the network and the clock
  (\<open>Event_Delivery\<close>, \<open>Access_Tokens\<close>).  What a component is handed by its caller is an argument
  too: the installed command contracts and the lookup of a subscription (\<open>Event_Stream\<close>), the
  settlement of an ending (\<open>Job_Reconciliation\<close>), the categories the catalog publishes
  (\<open>Recovery_Supervisor\<close>), the source of tokens (\<open>Access_Tokens\<close>).

  \<^bold>\<open>Shared ground.\<close>  \<open>Slingshot_Prelude\<close> has the integers, results and receivers, and the
  contracts several components share as locales: \<open>guarded_machine\<close> (an accepted step keeps an
  invariant and moves forward; interpreted by the operation fold, the job reducer, events and
  answers together, stream recovery and the supervisor),
  \<open>closing_decoder\<close> (a refusal is final; interpreted by every incremental reader) and its extension
  \<open>fragment_reader\<close> (how the input is cut into chunks does not matter; interpreted by the header
  block and the event stream).  \<open>Rust_Text\<close> has UTF-8 validation and text as the standard library
  defines them.  \<open>Transport_Contract\<close> and \<open>Runtime_Contract\<close> hold the two committed manifests of
  limits, their consistency checks, the capacity policy of \<open>persistent_capacity.rs\<close> and the
  identity of maintenance results.

  \<^bold>\<open>Operations.\<close>  \<open>Operation_Lifecycle\<close> (\<open>slingshot-domain/src/operation.rs\<close>): the record, its
  facts and the fold.  An operation that ended stays as it ended, a recorded outcome claims no more
  than its evidence admits, the revision counts exactly the changes, a repeated fact is no change,
  and a restart resumes a delay exactly.  \<open>Logical_Operation\<close> (\<open>logical_agent_operation.rs\<close>): any
  callers in any order make one start and at most one effect, under the lease that started.
  \<open>Operation_Wait\<close> (\<open>slingshot-daemon/src/operation_wait.rs\<close> and \<open>operation_wait/runtime.rs\<close>): a
  watcher is told what it would be told alone, its revisions rise, an ending is never lost to its
  bounded queue, and observer slots never leak over the reachable states of the runtime, an
  inductive relation with one rule per method.  The bounds there are the committed ones (32 queued
  updates, 64 waiters, 64 readers); tickets are 64-bit and saturate, so these theorems count
  attachments and ask for fewer than \<open>2^64 - 2\<close> of them.

  \<^bold>\<open>Remote jobs.\<close>  \<open>Remote_Jobs\<close> (\<open>remote_job.rs\<close>, \<open>stream_cursor_order.rs\<close>): cursors are totally
  ordered, jobs only move forward.  \<open>Job_Reduction\<close> (\<open>slingshot-agent-connection/src/\<close>
  \<open>job_event_reducer.rs\<close>, \<open>subscription_event_fold.rs\<close>, with the provenance of
  \<open>slingshot-agent-protocol\<close>): the history applied to a job has no gap, an event is applied only when
  it is bound to the association and is the next one, and a subscription holds the highest cursor
  with the first account of it.

  \<^bold>\<open>Submitting and recovering.\<close>  \<open>Command_Submission\<close> (\<open>command_submission.rs\<close>,
  \<open>command_submission_settlement.rs\<close>): only a proof settles a submission and every other exchange is left to
  reconciliation, and an idempotency key identifies its submission up to collisions of SHA-256 on
  the octets of the two submissions compared.  \<open>Job_Reconciliation\<close> (\<open>job_snapshot_reconciliation.rs\<close>,
  \<open>operation/job_reconciliation.rs\<close>): an ending is offered to the settlement exactly when the answer
  echoes the submission, moves the job forward and is still retained; events and answers, in any
  interleaving, only advance a job; a query names each persisted identifier once.  \<open>Stream_Recovery\<close>
  (\<open>event_stream_reconnection.rs\<close>, \<open>event_stream_reset.rs\<close>, \<open>physical_job_missing.rs\<close>): a reconnection
  resumes from what was committed, for streams that do not go back to a position, two accounts of one position stop a subscription until it is
  reset, evidence of a reset counts only for the request it answers, and delays are exact.
  \<open>Recovery_Supervisor\<close> (\<open>operation/recovery_and_event_supervisor.rs\<close>): no kind of work starves, an
  operation is held once per kind, a receipt wakes once.  \<open>Artifact_Transfer\<close>
  (\<open>artifact_download.rs\<close>): what a transfer counts, exactly which may be published, and which answers conclude that
  an artifact is gone.

  \<^bold>\<open>Tokens and windows.\<close>  \<open>Access_Tokens\<close> (\<open>authentication/identity_management_exchange.rs\<close>,
  \<open>authentication/access_token_cache.rs\<close>): a request body spells its credentials, exactly which
  exchanges yield a token and for how long, where padding stands as the contract's grammar has it, a lease names one token for good and callers refused
  together share one exchange; every call holds the cache's lock throughout, so concurrent callers
  are a list of calls.  \<open>Discovery\<close> (\<open>command/result_window.rs\<close>, \<open>command/discovery_budget.rs\<close>):
  exactly the well-formed windows are read, budgets are conserved, and paging ends and loses
  nothing.

  \<^bold>\<open>HTTP/2.\<close>  \<open>Hpack_Integer\<close>, \<open>Hpack_Codes\<close>, \<open>Hpack_Huffman\<close>, \<open>Hpack_String\<close>, \<open>Hpack_Table\<close>,
  \<open>Response_Head\<close> and \<open>Hpack_Block\<close> (\<open>selected_author_hpack_*.rs\<close>, \<open>selected_author_http2_headers.rs\<close>)
  are the response header decoder from the bits up.  Each layer accepts exactly what its
  specification (RFC 7541 for integers, Huffman strings and the table; the head rules of the source
  for fields) describes, and the composed decoder reads every legal encoding of a head back and
  never exceeds its memory bounds on any input.  \<open>Response_Policy\<close> reads fields out of a head and
  \<open>Http2_Frames\<close> and \<open>Http2_Flow\<close> (\<open>selected_author_http2_frames.rs\<close>, \<open>selected_author_http2_flow.rs\<close>)
  are the frame reader and the two flow ledgers: only legal frame sequences are accepted, an end is
  reported only when complete, the send ledger balances, and the receive windows refine one number
  that whole payloads are charged to.

  \<^bold>\<open>Streams and documents.\<close>  \<open>Local_Framing\<close> (\<open>slingshot-local-protocol/src/framing.rs\<close>): frames
  round trip through any chunking, no byte is lost or invented, refusals are final, and the payload
  scan measures a document.  \<open>Canonical_Json\<close> (\<open>slingshot-domain/src/command/canonical_json.rs\<close>):
  every value has one text and no two values share it, a document is accepted exactly when its members
  ascend - for documents whose strings do not mislead the scan for names, and a lemma shows one that is
  misled - and array order is checked exactly.  \<open>Event_Stream\<close>
  (\<open>server_sent_event_decoder.rs\<close>): memory is bounded, chunking does not matter, the decoder equals a
  line-by-line reference, and a delivered event was requested, correlated and expected.
  \<open>Event_Delivery\<close> (\<open>event_stream_heartbeat.rs\<close>, \<open>selected_author_events.rs\<close>): silence ends a delivery
  at the heartbeat's deadline, and the two accounts of the deadline agree.

  \<^bold>\<open>Not modelled.\<close>  The SQLite repositories and artifact files of \<open>slingshot-storage\<close>, sockets, TLS
  and the asynchronous exchange, file locks and processes, argument parsing and rendering: the
  meaning of those lines is the meaning of a library or an operating system.  Reading the manifests'
  JSON text and digest files is library work, so the model starts from the parsed contracts.  The
  codecs of the single commands are lists of fields over schema validation.  Signing assertions and
  authenticating continuation tokens are cryptography of a library.

  \<^bold>\<open>Plan.\<close>  What is left that decides: recovery and admission in the daemon
  (\<open>operation_recovery.rs\<close>, \<open>operation_dispatch/\<close>), whose decisions are interleaved with the
  database, the canonical reader of command arguments (\<open>command/canonical_json_reader.rs\<close>) against
  \<open>Canonical_Json\<close>, repository paths and profiles, and the request registry of the Model Context
  Protocol server.
\<close>

end
